(* ===== verification/Prelude.thy ===== *)
theory Prelude
  imports Main "HOL-Library.Word"
begin

text \<open>
  Shared vocabulary of the development: byte strings and text, Python exceptions as
  values, the state-and-exception computations in which the stateful code is written,
  and the interface of an encoder/decoder pair on which the wire formats rest.

  Text is a list of Unicode code points, as Python's \<open>str\<close> is; ASCII literals are
  written \<open>u ''...''\<close>.  Bytes are 8-bit words.  An exception is a Python class
  together with the message the repository's code gives it (\<open>Raised\<close>), or an exception
  raised inside the interpreter or a library (\<open>Lib\<close>), whose text is not modelled.
\<close>

type_synonym byte = "8 word"
type_synonym bytes = "byte list"
type_synonym pystr = "nat list"

named_theorems io_simps \<open>execution rules of the state-and-exception computations\<close>
named_theorems wire_simps \<open>lengths and constants of the wire format\<close>

subsection \<open>Text literals\<close>

definition u :: "string \<Rightarrow> pystr" where
  "u s = map of_char s"

lemma u_Nil [simp]: "u [] = []"
  by (simp add: u_def)

lemma u_Cons: "u (c # s) = of_char c # u s"
  by (simp add: u_def)

lemma u_append: "u (s @ t) = u s @ u t"
  by (simp add: u_def)

lemma length_u [simp]: "length (u s) = length s"
  by (simp add: u_def)

lemma inj_of_char: "inj (of_char :: char \<Rightarrow> nat)"
  by (metis injI char_of_char)

lemma u_eq_iff [simp]: "u s = u t \<longleftrightarrow> s = t"
  unfolding u_def by (rule inj_map_eq_map [OF inj_of_char])

lemma u_less_256: "c \<in> set (u s) \<Longrightarrow> c < 256"
proof -
  assume "c \<in> set (u s)"
  then obtain x where c: "c = of_char x" by (auto simp: u_def)
  show "c < 256" unfolding c by (rule nat_of_char_less_256)
qed

subsection \<open>Exceptions\<close>

datatype exc_class =
    ExceptionC | ValueErrorC | UnicodeDecodeErrorC | UnicodeEncodeErrorC
  | JSONDecodeErrorC | OSErrorC | ConnectionErrorC | ConnectionResetErrorC
  | BrokenPipeErrorC | TimeoutErrorC | RuntimeErrorC | RecursionErrorC | LookupErrorC
  | KeyErrorC | IndexErrorC | TypeErrorC | AttributeErrorC | ArithmeticErrorC
  | OverflowErrorC | InvalidTagC | RequestExceptionC | RequestConnectionErrorC
  | RequestTimeoutC | BlockingIOErrorC

text \<open>
  The immediate superclass of each class in the hierarchy under \<open>Exception\<close>; the interpreter's
  \<open>KeyboardInterrupt\<close> and \<open>SystemExit\<close>, which \<open>except Exception\<close> lets pass, are not modelled.
\<close>

fun superclass :: "exc_class \<Rightarrow> exc_class option" where
  "superclass ExceptionC = None"
| "superclass UnicodeDecodeErrorC = Some ValueErrorC"
| "superclass UnicodeEncodeErrorC = Some ValueErrorC"
| "superclass JSONDecodeErrorC = Some ValueErrorC"
| "superclass ConnectionErrorC = Some OSErrorC"
| "superclass TimeoutErrorC = Some OSErrorC"
| "superclass BlockingIOErrorC = Some OSErrorC"
| "superclass ConnectionResetErrorC = Some ConnectionErrorC"
| "superclass BrokenPipeErrorC = Some ConnectionErrorC"
| "superclass RecursionErrorC = Some RuntimeErrorC"
| "superclass KeyErrorC = Some LookupErrorC"
| "superclass IndexErrorC = Some LookupErrorC"
| "superclass OverflowErrorC = Some ArithmeticErrorC"
| "superclass RequestExceptionC = Some OSErrorC"
| "superclass RequestConnectionErrorC = Some RequestExceptionC"
| "superclass RequestTimeoutC = Some RequestExceptionC"
| "superclass _ = Some ExceptionC"

text \<open>Distance to the root of the hierarchy: the measure on which \<open>is_subclass\<close> terminates.\<close>

fun exc_depth :: "exc_class \<Rightarrow> nat" where
  "exc_depth ExceptionC = 0"
| "exc_depth c =
     (if c \<in> {RequestConnectionErrorC, RequestTimeoutC, ConnectionResetErrorC, BrokenPipeErrorC}
      then 4
      else if c \<in> {UnicodeDecodeErrorC, UnicodeEncodeErrorC, JSONDecodeErrorC, ConnectionErrorC,
         TimeoutErrorC, BlockingIOErrorC, RecursionErrorC, KeyErrorC, IndexErrorC,
         OverflowErrorC, RequestExceptionC} then 3 else 2)"

lemma exc_depth_superclass: "superclass c = Some d \<Longrightarrow> exc_depth d < exc_depth c"
  by (cases c) auto

function is_subclass :: "exc_class \<Rightarrow> exc_class \<Rightarrow> bool" where
  "is_subclass c d = (c = d \<or> (case superclass c of None \<Rightarrow> False | Some c' \<Rightarrow> is_subclass c' d))"
  by pat_completeness auto
termination
  by (relation "measure (\<lambda>(c, _). exc_depth c)") (auto dest: exc_depth_superclass)

declare is_subclass.simps [simp del]

datatype pyexn = Raised exc_class pystr | Lib exc_class

fun class_of :: "pyexn \<Rightarrow> exc_class" where
  "class_of (Raised c _) = c"
| "class_of (Lib c) = c"

text \<open>Whether an \<open>except\<close> clause naming the class \<open>c\<close> catches the exception.\<close>

definition catches :: "exc_class \<Rightarrow> pyexn \<Rightarrow> bool" where
  "catches c e = is_subclass (class_of e) c"

lemma catches_simps [simp]:
  "catches c (Raised d m) = is_subclass d c"
  "catches c (Lib d) = is_subclass d c"
  by (simp_all add: catches_def)

subsection \<open>Computations over a state that may raise\<close>

type_synonym ('s, 'a) io = "'s \<Rightarrow> (pyexn + 'a) \<times> 's"

definition ret :: "'a \<Rightarrow> ('s, 'a) io" where
  "ret x s = (Inr x, s)"

definition raise :: "pyexn \<Rightarrow> ('s, 'a) io" where
  "raise e s = (Inl e, s)"

definition andThen :: "('s, 'a) io \<Rightarrow> ('a \<Rightarrow> ('s, 'b) io) \<Rightarrow> ('s, 'b) io" where
  "andThen m f s = (case m s of (Inl e, s') \<Rightarrow> (Inl e, s') | (Inr x, s') \<Rightarrow> f x s')"

text \<open>\<open>of_result r\<close> raises the exception of a failed pure computation.\<close>

definition of_result :: "(pyexn + 'a) \<Rightarrow> ('s, 'a) io" where
  "of_result r s = (r, s)"

text \<open>\<open>try_except m h\<close>: the handler sees the exception and the state it was raised in.\<close>

definition try_except :: "('s, 'a) io \<Rightarrow> (pyexn \<Rightarrow> ('s, 'a) io) \<Rightarrow> ('s, 'a) io" where
  "try_except m h s = (case m s of (Inl e, s') \<Rightarrow> h e s' | (Inr x, s') \<Rightarrow> (Inr x, s'))"

lemma ret_apply [io_simps]: "ret x s = (Inr x, s)"
  by (simp add: ret_def)

lemma raise_apply [io_simps]: "raise e s = (Inl e, s)"
  by (simp add: raise_def)

lemma of_result_apply [io_simps]: "of_result r s = (r, s)"
  by (simp add: of_result_def)

lemma andThen_Inr [io_simps]: "m s = (Inr x, s') \<Longrightarrow> andThen m f s = f x s'"
  by (simp add: andThen_def)

lemma andThen_Inl [io_simps]: "m s = (Inl e, s') \<Longrightarrow> andThen m f s = (Inl e, s')"
  by (simp add: andThen_def)

lemma try_except_Inr [io_simps]: "m s = (Inr x, s') \<Longrightarrow> try_except m h s = (Inr x, s')"
  by (simp add: try_except_def)

lemma try_except_Inl [io_simps]: "m s = (Inl e, s') \<Longrightarrow> try_except m h s = h e s'"
  by (simp add: try_except_def)

lemma andThen_ret [io_simps]: "andThen (ret x) f = f x"
  by (rule ext) (simp add: andThen_def ret_def)

lemma andThen_raise [io_simps]: "andThen (raise e) f = raise e"
  by (rule ext) (simp add: andThen_def raise_def)

lemma andThen_of_result_Inr [io_simps]: "andThen (of_result (Inr x)) f = f x"
  by (rule ext) (simp add: andThen_def of_result_def)

lemma andThen_of_result_Inl [io_simps]: "andThen (of_result (Inl e)) f = raise e"
  by (rule ext) (simp add: andThen_def of_result_def raise_def)

lemma andThen_assoc: "andThen (andThen m f) g = andThen m (\<lambda>x. andThen (f x) g)"
  by (rule ext) (simp add: andThen_def split: prod.splits sum.splits)

text \<open>A sequence that returns has run both of its parts.\<close>

lemma andThen_eq_Inr_iff:
  "andThen m f s = (Inr y, t) \<longleftrightarrow> (\<exists>x s'. m s = (Inr x, s') \<and> f x s' = (Inr y, t))"
  by (auto simp: andThen_def split: prod.splits sum.splits)

lemma andThen_InrE:
  assumes "andThen m f s = (Inr y, t)"
  obtains x s' where "m s = (Inr x, s')" and "f x s' = (Inr y, t)"
  using assms by (auto simp: andThen_eq_Inr_iff)

text \<open>Results of pure computations that may raise.\<close>

definition bind_res :: "(pyexn + 'a) \<Rightarrow> ('a \<Rightarrow> pyexn + 'b) \<Rightarrow> pyexn + 'b" where
  "bind_res r f = (case r of Inl e \<Rightarrow> Inl e | Inr x \<Rightarrow> f x)"

lemma bind_res_simps [simp]:
  "bind_res (Inl e) f = Inl e"
  "bind_res (Inr x) f = f x"
  by (simp_all add: bind_res_def)

lemma bind_res_eq_Inr_iff: "bind_res r f = Inr y \<longleftrightarrow> (\<exists>x. r = Inr x \<and> f x = Inr y)"
  by (cases r) auto

definition of_option :: "pyexn \<Rightarrow> 'a option \<Rightarrow> pyexn + 'a" where
  "of_option e v = (case v of None \<Rightarrow> Inl e | Some x \<Rightarrow> Inr x)"

lemma of_option_simps [simp]:
  "of_option e None = Inl e"
  "of_option e (Some x) = Inr x"
  by (simp_all add: of_option_def)

lemma of_option_eq_Inr_iff [simp]: "of_option e v = Inr x \<longleftrightarrow> v = Some x"
  by (cases v) auto

subsection \<open>Encoders and decoders\<close>

text \<open>
  Every wire format of the program is an encoder with a decoder that may raise.  The law
  is the round trip on the values the encoder is meant for; that no two such values share
  an encoding follows once, here.
\<close>

locale codec =
  fixes enc :: "'a \<Rightarrow> 'b"
    and dec :: "'b \<Rightarrow> pyexn + 'a"
    and wf :: "'a \<Rightarrow> bool"
  assumes dec_enc: "wf x \<Longrightarrow> dec (enc x) = Inr x"
begin

lemma enc_inject:
  assumes "wf x" and "wf y" and "enc x = enc y"
  shows "x = y"
proof -
  have "Inr x = dec (enc y)" using dec_enc [OF assms(1)] by (simp only: assms(3))
  also have "\<dots> = Inr y" by (rule dec_enc [OF assms(2)])
  finally show ?thesis by simp
qed

lemma enc_decodes: "wf x \<Longrightarrow> \<exists>y. dec (enc x) = Inr y"
  by (simp add: dec_enc)

lemma dec_enc_iff: "wf x \<Longrightarrow> dec (enc x) = Inr y \<longleftrightarrow> y = x"
  by (auto simp: dec_enc)

end

text \<open>Two formats one inside the other, such as JSON inside UTF-8.\<close>

locale codec_chain =
  inner: codec enc1 dec1 wf1 + outer: codec enc2 dec2 wf2
  for enc1 :: "'a \<Rightarrow> 'b" and dec1 :: "'b \<Rightarrow> pyexn + 'a" and wf1 :: "'a \<Rightarrow> bool"
    and enc2 :: "'b \<Rightarrow> 'c" and dec2 :: "'c \<Rightarrow> pyexn + 'b" and wf2 :: "'b \<Rightarrow> bool" +
  assumes wf_enc1: "wf1 x \<Longrightarrow> wf2 (enc1 x)"
begin

definition enc_both :: "'a \<Rightarrow> 'c" where
  "enc_both x = enc2 (enc1 x)"

definition dec_both :: "'c \<Rightarrow> pyexn + 'a" where
  "dec_both b = bind_res (dec2 b) dec1"

lemma dec_enc_both: "wf1 x \<Longrightarrow> dec_both (enc_both x) = Inr x"
  by (simp add: dec_both_def enc_both_def outer.dec_enc inner.dec_enc wf_enc1)

end

sublocale codec_chain \<subseteq> both: codec enc_both dec_both wf1
  by unfold_locales (rule dec_enc_both)

end
