(* ===== verification/Py_Text.thy ===== *)
theory Py_Text
  imports Prelude
begin

text \<open>
  The parts of Python's text handling that the program calls: \<open>str(int)\<close> and \<open>int(str)\<close>
  on decimal digits, \<open>bytes.hex\<close> and \<open>bytes.fromhex\<close>, and UTF-8 encoding and decoding
  with the error policies \<open>strict\<close>, \<open>replace\<close> and \<open>ignore\<close>.  The lemmas are the round
  trips, stated through the \<open>codec\<close> interface.
\<close>

subsection \<open>Decimal numbers\<close>

definition is_digit :: "nat \<Rightarrow> bool" where
  "is_digit c \<longleftrightarrow> 48 \<le> c \<and> c \<le> 57"

fun str_nat :: "nat \<Rightarrow> pystr" where
  "str_nat n = (if n < 10 then [48 + n] else str_nat (n div 10) @ [48 + n mod 10])"

declare str_nat.simps [simp del]

definition str_int :: "int \<Rightarrow> pystr" where
  "str_int i = (if i < 0 then 45 # str_nat (nat (- i)) else str_nat (nat i))"

definition digits_val :: "pystr \<Rightarrow> nat" where
  "digits_val ds = foldl (\<lambda>a d. 10 * a + (d - 48)) 0 ds"

lemma digits_val_simps [simp]:
  "digits_val [] = 0"
  "digits_val (ds @ [d]) = 10 * digits_val ds + (d - 48)"
  by (simp_all add: digits_val_def)

lemma digits_val_single [simp]: "digits_val [d] = d - 48"
  by (simp add: digits_val_def)

lemma digits_val_str_nat [simp]: "digits_val (str_nat n) = n"
proof (induction n rule: str_nat.induct)
  case (1 n)
  then show ?case by (cases "n < 10") (simp_all add: str_nat.simps [of n])
qed

lemma str_nat_digits: "c \<in> set (str_nat n) \<Longrightarrow> is_digit c"
proof (induction n rule: str_nat.induct)
  case (1 n)
  then show ?case
    by (cases "n < 10") (auto simp: str_nat.simps [of n] is_digit_def)
qed

lemma str_nat_ne_Nil [simp]: "str_nat n \<noteq> []"
  by (subst str_nat.simps) simp

lemma str_nat_inject [simp]: "str_nat m = str_nat n \<longleftrightarrow> m = n"
  by (metis digits_val_str_nat)

lemma str_nat_0: "str_nat 0 = [48]"
  by (subst str_nat.simps) simp

text \<open>No leading zero, except in \<open>0\<close> itself.\<close>

lemma hd_str_nat: "0 < n \<Longrightarrow> hd (str_nat n) \<noteq> 48"
proof (induction n rule: str_nat.induct)
  case (1 n)
  show ?case
  proof (cases "n < 10")
    case True
    with "1.prems" show ?thesis by (simp add: str_nat.simps [of n])
  next
    case False
    then have "hd (str_nat (n div 10)) \<noteq> 48" using "1.IH" by simp
    with False show ?thesis by (simp add: str_nat.simps [of n])
  qed
qed

subsection \<open>Hexadecimal text\<close>

definition hex_digit :: "nat \<Rightarrow> nat" where
  "hex_digit n = (if n < 10 then 48 + n else 87 + n)"

definition unhex_digit :: "nat \<Rightarrow> nat option" where
  "unhex_digit c =
     (if 48 \<le> c \<and> c \<le> 57 then Some (c - 48)
      else if 97 \<le> c \<and> c \<le> 102 then Some (c - 87)
      else if 65 \<le> c \<and> c \<le> 70 then Some (c - 55)
      else None)"

lemma unhex_hex_digit [simp]: "n < 16 \<Longrightarrow> unhex_digit (hex_digit n) = Some n"
  by (auto simp: unhex_digit_def hex_digit_def)

lemma unhex_digit_less: "unhex_digit c = Some n \<Longrightarrow> n < 16"
  by (auto simp: unhex_digit_def split: if_splits)

definition hex_byte :: "byte \<Rightarrow> pystr" where
  "hex_byte b = [hex_digit (unat b div 16), hex_digit (unat b mod 16)]"

definition hex :: "bytes \<Rightarrow> pystr" where
  "hex bs = concat (map hex_byte bs)"

definition ascii_space :: "nat \<Rightarrow> bool" where
  "ascii_space c \<longleftrightarrow> c = 32 \<or> (9 \<le> c \<and> c \<le> 13)"

text \<open>\<open>bytes.fromhex\<close>: ASCII white space is skipped between, never within, the pairs.\<close>

fun fromhex_opt :: "pystr \<Rightarrow> bytes option" where
  "fromhex_opt [] = Some []"
| "fromhex_opt (c # cs) =
     (if ascii_space c then fromhex_opt cs
      else case cs of
          [] \<Rightarrow> None
        | d # ds \<Rightarrow>
            (case (unhex_digit c, unhex_digit d, fromhex_opt ds) of
                (Some h, Some l, Some bs) \<Rightarrow> Some (of_nat (16 * h + l) # bs)
              | _ \<Rightarrow> None))"

definition fromhex :: "pystr \<Rightarrow> pyexn + bytes" where
  "fromhex s = of_option (Lib ValueErrorC) (fromhex_opt s)"

lemma hex_Nil [simp]: "hex [] = []"
  by (simp add: hex_def)

lemma hex_Cons: "hex (b # bs) = hex_digit (unat b div 16) # hex_digit (unat b mod 16) # hex bs"
  by (simp add: hex_def hex_byte_def)

lemma length_hex [simp]: "length (hex bs) = 2 * length bs"
  by (induction bs) (simp_all add: hex_Cons)

lemma hex_eq_Nil_iff [simp]: "hex bs = [] \<longleftrightarrow> bs = []"
  by (metis length_hex length_0_conv mult_is_0 zero_neq_numeral)

lemma unat_byte_less [simp]: "unat (b :: byte) < 256"
  using unsigned_less [of b] by simp

lemma hex_digit_not_space: "\<not> ascii_space (hex_digit n)"
  by (auto simp: ascii_space_def hex_digit_def)

lemma fromhex_opt_hex [simp]: "fromhex_opt (hex bs) = Some bs"
proof (induction bs)
  case Nil
  then show ?case by simp
next
  case (Cons b bs)
  have "unat b div 16 < 16" using unat_byte_less [of b] by linarith
  then show ?case
    using Cons by (simp add: hex_Cons hex_digit_not_space)
qed

lemma fromhex_hex [simp]: "fromhex (hex bs) = Inr bs"
  by (simp add: fromhex_def)

interpretation hex_codec: codec hex fromhex "\<lambda>_. True"
  by unfold_locales (rule fromhex_hex)

lemma hex_digit_range: "n < 16 \<Longrightarrow> is_digit (hex_digit n) \<or> (97 \<le> hex_digit n \<and> hex_digit n \<le> 102)"
  by (auto simp: hex_digit_def is_digit_def)

lemma hex_printable: "c \<in> set (hex bs) \<Longrightarrow> is_digit c \<or> (97 \<le> c \<and> c \<le> 102)"
proof (induction bs)
  case (Cons b bs)
  have "unat b div 16 < 16" using unat_byte_less [of b] by linarith
  moreover have "unat b mod 16 < 16" by simp
  ultimately show ?case
    using Cons hex_digit_range [of "unat b div 16"] hex_digit_range [of "unat b mod 16"]
    by (auto simp: hex_Cons)
qed simp

subsection \<open>UTF-8\<close>

definition is_surrogate :: "nat \<Rightarrow> bool" where
  "is_surrogate c \<longleftrightarrow> 55296 \<le> c \<and> c < 57344"

text \<open>The code points that UTF-8 can carry.\<close>

definition scalar :: "nat \<Rightarrow> bool" where
  "scalar c \<longleftrightarrow> c < 1114112 \<and> \<not> is_surrogate c"

definition utf8_char :: "nat \<Rightarrow> nat list" where
  "utf8_char c =
     (if c < 128 then [c]
      else if c < 2048 then [192 + c div 64, 128 + c mod 64]
      else if c < 65536 then [224 + c div 4096, 128 + (c div 64) mod 64, 128 + c mod 64]
      else [240 + c div 262144, 128 + (c div 4096) mod 64, 128 + (c div 64) mod 64,
            128 + c mod 64])"

text \<open>\<open>str.encode("utf-8")\<close>: a lone surrogate cannot be encoded.\<close>

definition utf8_encode :: "pystr \<Rightarrow> pyexn + bytes" where
  "utf8_encode s =
     (if list_all scalar s then Inr (map of_nat (concat (map utf8_char s)))
      else Inl (Lib UnicodeEncodeErrorC))"

definition utf8_cont :: "nat \<Rightarrow> bool" where
  "utf8_cont b \<longleftrightarrow> 128 \<le> b \<and> b < 192"

text \<open>The second byte's range depends on the first: no overlong forms, no surrogates.\<close>

definition utf8_second :: "nat \<Rightarrow> nat \<Rightarrow> bool" where
  "utf8_second b b1 \<longleftrightarrow>
     (if b = 224 then 160 else if b = 240 then 144 else 128) \<le> b1 \<and>
     b1 \<le> (if b = 237 then 159 else if b = 244 then 143 else 191)"

text \<open>
  One step of the decoder on a first byte and what follows it: the code point and the number
  of bytes it took, or \<open>None\<close> and the length of the maximal ill-formed prefix.
\<close>

definition utf8_step :: "nat \<Rightarrow> nat list \<Rightarrow> nat option \<times> nat" where
  "utf8_step b bs =
     (if b < 128 then (Some b, 1)
      else if b < 194 \<or> 244 < b then (None, 1)
      else case bs of
          [] \<Rightarrow> (None, 1)
        | b1 # bs1 \<Rightarrow>
            if \<not> utf8_second b b1 then (None, 1)
            else if b < 224 then (Some ((b - 192) * 64 + (b1 - 128)), 2)
            else case bs1 of
                [] \<Rightarrow> (None, 2)
              | b2 # bs2 \<Rightarrow>
                  if \<not> utf8_cont b2 then (None, 2)
                  else if b < 240 then
                    (Some ((b - 224) * 4096 + (b1 - 128) * 64 + (b2 - 128)), 3)
                  else case bs2 of
                      [] \<Rightarrow> (None, 3)
                    | b3 # _ \<Rightarrow>
                        if \<not> utf8_cont b3 then (None, 3)
                        else (Some ((b - 240) * 262144 + (b1 - 128) * 4096 + (b2 - 128) * 64
                                    + (b3 - 128)), 4))"

text \<open>
  Decoding with a policy for ill-formed input: \<open>None\<close> stops (\<open>strict\<close>), \<open>Some r\<close> puts
  \<open>r\<close> in its place (\<open>replace\<close> with U+FFFD, \<open>ignore\<close> with nothing).
\<close>

function utf8_decode_with :: "pystr option \<Rightarrow> nat list \<Rightarrow> pystr option" where
  "utf8_decode_with p [] = Some []"
| "utf8_decode_with p (b # bs) =
     (case utf8_step b bs of
        (Some c, k) \<Rightarrow> map_option (\<lambda>s. c # s) (utf8_decode_with p (drop (k - 1) bs))
      | (None, k) \<Rightarrow>
          (case p of
             None \<Rightarrow> None
           | Some r \<Rightarrow> map_option (\<lambda>s. r @ s) (utf8_decode_with p (drop (k - 1) bs))))"
  by pat_completeness auto
termination
  by (relation "measure (\<lambda>(_, bs). length bs)") auto

definition utf8_decode :: "bytes \<Rightarrow> pyexn + pystr" where
  "utf8_decode bs = of_option (Lib UnicodeDecodeErrorC) (utf8_decode_with None (map unat bs))"

definition utf8_decode_replace :: "bytes \<Rightarrow> pystr" where
  "utf8_decode_replace bs =
     (case utf8_decode_with (Some [65533]) (map unat bs) of None \<Rightarrow> [] | Some s \<Rightarrow> s)"

definition utf8_decode_ignore :: "bytes \<Rightarrow> pystr" where
  "utf8_decode_ignore bs =
     (case utf8_decode_with (Some []) (map unat bs) of None \<Rightarrow> [] | Some s \<Rightarrow> s)"

text \<open>The lossy policies never fail, so the \<open>None\<close> branches above are dead.\<close>

lemma utf8_decode_with_Some: "\<exists>s. utf8_decode_with (Some r) bs = Some s"
proof (induction "Some r" bs rule: utf8_decode_with.induct)
  case (2 b bs)
  then show ?case
    by (cases "utf8_step b bs") (auto split: option.splits)
qed simp

text \<open>The encodings of two, three and four bytes, each decoded in one step.\<close>

lemma utf8_step_two:
  assumes range: "128 \<le> c" "c < 2048"
  shows "\<exists>b t. utf8_char c = b # t \<and> utf8_step b (t @ rest) = (Some c, Suc (length t))"
proof -
  define h l where "h = c div 64" and "l = c mod 64"
  have c: "c = h * 64 + l" and l: "l < 64" by (simp_all add: h_def l_def)
  have h: "2 \<le> h" "h < 32" using range by (simp_all add: h_def)
  have "utf8_char c = [192 + h, 128 + l]" using range by (simp add: utf8_char_def h_def l_def)
  moreover have "utf8_step (192 + h) ([128 + l] @ rest) = (Some c, 2)"
    using h l by (simp add: utf8_step_def utf8_second_def c)
  ultimately show ?thesis by simp
qed

lemma utf8_step_three:
  assumes "scalar c" and range: "2048 \<le> c" "c < 65536"
  shows "\<exists>b t. utf8_char c = b # t \<and> utf8_step b (t @ rest) = (Some c, Suc (length t))"
proof -
  define h m l where "h = c div 4096" and "m = (c div 64) mod 64" and "l = c mod 64"
  have "h = c div 64 div 64" by (simp add: h_def flip: div_mult2_eq)
  then have "c div 64 = h * 64 + m" by (simp add: m_def)
  moreover have "c = c div 64 * 64 + l" by (simp add: l_def)
  ultimately have c: "c = h * 4096 + m * 64 + l" by linarith
  have ml: "m < 64" "l < 64" by (simp_all add: m_def l_def)
  have h: "h < 16" and e0: "h = 0 \<Longrightarrow> 32 \<le> m" using range c ml by linarith+
  have ed: "m < 32" if "h = 13"
  proof -
    have "\<not> is_surrogate c" using assms(1) by (simp add: scalar_def)
    with c that ml show ?thesis by (auto simp: is_surrogate_def)
  qed
  have "utf8_char c = [224 + h, 128 + m, 128 + l]"
    using range by (simp add: utf8_char_def h_def l_def m_def)
  moreover have "utf8_step (224 + h) ([128 + m, 128 + l] @ rest) = (Some c, 3)"
    using h ml e0 ed by (auto simp: utf8_step_def utf8_second_def utf8_cont_def c)
  ultimately show ?thesis by simp
qed

lemma utf8_step_four:
  assumes range: "65536 \<le> c" "c < 1114112"
  shows "\<exists>b t. utf8_char c = b # t \<and> utf8_step b (t @ rest) = (Some c, Suc (length t))"
proof -
  define h m n l where "h = c div 262144" and "m = (c div 4096) mod 64"
    and "n = (c div 64) mod 64" and "l = c mod 64"
  have "m = c div 64 div 64 mod 64" by (simp add: m_def flip: div_mult2_eq)
  moreover have "h = c div 64 div 64 div 64" by (simp add: h_def flip: div_mult2_eq)
  ultimately have "c div 64 div 64 = h * 64 + m" by simp
  moreover have "c div 64 = c div 64 div 64 * 64 + n" by (simp add: n_def)
  moreover have "c = c div 64 * 64 + l" by (simp add: l_def)
  ultimately have c: "c = h * 262144 + m * 4096 + n * 64 + l" by linarith
  have mnl: "m < 64" "n < 64" "l < 64" by (simp_all add: m_def n_def l_def)
  have h: "h < 5" and f0: "h = 0 \<Longrightarrow> 16 \<le> m" and f4: "h = 4 \<Longrightarrow> m < 16"
    using range c mnl by linarith+
  have "utf8_char c = [240 + h, 128 + m, 128 + n, 128 + l]"
    using range by (simp add: utf8_char_def h_def l_def m_def n_def)
  moreover have "utf8_step (240 + h) ([128 + m, 128 + n, 128 + l] @ rest) = (Some c, 4)"
    using h mnl f0 f4 by (auto simp: utf8_step_def utf8_second_def utf8_cont_def c)
  ultimately show ?thesis by simp
qed

lemma utf8_step_char:
  assumes "scalar c"
  shows "\<exists>b t. utf8_char c = b # t \<and> utf8_step b (t @ rest) = (Some c, Suc (length t))"
proof (cases "c < 128")
  case True
  then show ?thesis by (simp add: utf8_char_def utf8_step_def)
next
  case False
  then consider "128 \<le> c" "c < 2048" | "2048 \<le> c" "c < 65536" | "65536 \<le> c" "c < 1114112"
    using assms by (auto simp: scalar_def) linarith
  then show ?thesis by cases (rule utf8_step_two utf8_step_three [OF assms] utf8_step_four; assumption)+
qed

lemma utf8_decode_with_char:
  assumes "scalar c"
  shows "utf8_decode_with p (utf8_char c @ rest) = map_option (\<lambda>s. c # s) (utf8_decode_with p rest)"
proof -
  obtain b t where "utf8_char c = b # t" and "utf8_step b (t @ rest) = (Some c, Suc (length t))"
    using utf8_step_char [OF assms] by blast
  then show ?thesis by simp
qed

lemma utf8_decode_with_chars:
  "list_all scalar s \<Longrightarrow> utf8_decode_with p (concat (map utf8_char s)) = Some s"
  by (induction s) (simp_all add: utf8_decode_with_char)

lemma utf8_char_less: "scalar c \<Longrightarrow> b \<in> set (utf8_char c) \<Longrightarrow> b < 256"
  by (auto simp: utf8_char_def scalar_def split: if_splits)

lemma unat_of_nat_byte: "n < 256 \<Longrightarrow> unat (of_nat n :: byte) = n"
  by (simp add: unat_of_nat take_bit_eq_mod)

lemma unat_of_nat_bytes: "list_all (\<lambda>n. n < 256) ns \<Longrightarrow> map unat (map (of_nat :: nat \<Rightarrow> byte) ns) = ns"
  by (induction ns) (simp_all add: unat_of_nat_byte)

lemma unat_utf8_chars:
  assumes "list_all scalar s"
  shows "map unat (map (of_nat :: nat \<Rightarrow> byte) (concat (map utf8_char s))) = concat (map utf8_char s)"
  by (rule unat_of_nat_bytes) (use assms in \<open>auto simp: list_all_iff dest: utf8_char_less\<close>)

lemma utf8_decode_encode:
  assumes "utf8_encode s = Inr bs"
  shows "utf8_decode bs = Inr s"
proof -
  have s: "list_all scalar s" and bs: "bs = map of_nat (concat (map utf8_char s))"
    using assms by (auto simp: utf8_encode_def split: if_splits)
  show ?thesis
    unfolding bs utf8_decode_def unat_utf8_chars [OF s] utf8_decode_with_chars [OF s] by simp
qed

lemma utf8_decode_replace_encode:
  assumes "utf8_encode s = Inr bs"
  shows "utf8_decode_replace bs = s"
proof -
  have s: "list_all scalar s" and bs: "bs = map of_nat (concat (map utf8_char s))"
    using assms by (auto simp: utf8_encode_def split: if_splits)
  show ?thesis
    unfolding bs utf8_decode_replace_def unat_utf8_chars [OF s] utf8_decode_with_chars [OF s]
    by simp
qed

text \<open>ASCII text is its own encoding.\<close>

definition ascii_bytes :: "pystr \<Rightarrow> bytes" where
  "ascii_bytes s = map of_nat s"

definition is_ascii :: "pystr \<Rightarrow> bool" where
  "is_ascii s \<longleftrightarrow> list_all (\<lambda>c. c < 128) s"

lemma is_ascii_simps [simp]:
  "is_ascii []"
  "is_ascii (c # s) \<longleftrightarrow> c < 128 \<and> is_ascii s"
  "is_ascii (s @ t) \<longleftrightarrow> is_ascii s \<and> is_ascii t"
  by (simp_all add: is_ascii_def)

lemma utf8_encode_ascii: "is_ascii s \<Longrightarrow> utf8_encode s = Inr (ascii_bytes s)"
proof -
  assume a: "is_ascii s"
  then have "list_all scalar s"
    by (auto simp: is_ascii_def list_all_iff scalar_def is_surrogate_def)
  moreover from a have "concat (map utf8_char s) = s"
    by (induction s) (simp_all add: utf8_char_def)
  ultimately show ?thesis by (simp add: utf8_encode_def ascii_bytes_def)
qed

lemma utf8_decode_ascii: "is_ascii s \<Longrightarrow> utf8_decode (ascii_bytes s) = Inr s"
  by (rule utf8_decode_encode [OF utf8_encode_ascii])

lemma length_ascii_bytes [simp]: "length (ascii_bytes s) = length s"
  by (simp add: ascii_bytes_def)

interpretation ascii_codec: codec ascii_bytes utf8_decode is_ascii
  by unfold_locales (rule utf8_decode_ascii)

lemma is_ascii_hex [simp]: "is_ascii (hex bs)"
  by (auto simp: is_ascii_def list_all_iff is_digit_def dest: hex_printable)

lemma is_ascii_str_nat [simp]: "is_ascii (str_nat n)"
  by (auto simp: is_ascii_def list_all_iff is_digit_def dest: str_nat_digits)

end
