(* ===== verification/Py_Json.thy ===== *)
theory Py_Json
  imports Py_Text
begin

text \<open>
  Python's \<open>json\<close> module on the values the program exchanges: \<open>json.dumps\<close> with its
  default separators and \<open>ensure_ascii\<close>, and \<open>json.loads\<close> as a fuelled recursive-descent
  parser that follows the module's scanner (white space, escapes with surrogate pairs, the
  number grammar, and the extensions \<open>NaN\<close>, \<open>Infinity\<close> and \<open>-Infinity\<close>, which Python
  accepts).  A dictionary is an association list in insertion order.

  A finite float is the decimal that \<open>repr\<close> prints for it, \<open>Fin m k\<close> for $m / 10^k$; rounding
  and the sign of zero are not modelled.  The interpreter's limits on recursion depth and on
  the number of digits of an integer are not modelled.  The parser's fuel is twice the input's length
  plus one, which \<open>parse_fuel\<close> shows is never used up.
\<close>

subsection \<open>Values\<close>

datatype pyfloat = Fin int nat | PInf | NInf | NaN

datatype json =
    JNull
  | JBool bool
  | JInt int
  | JFloat pyfloat
  | JStr pystr
  | JList "json list"
  | JObj "(pystr \<times> json) list"

type_synonym dict = "(pystr \<times> json) list"

text \<open>Storing under a key keeps the key's first position, as a Python dictionary does.\<close>

fun dict_set :: "pystr \<Rightarrow> 'v \<Rightarrow> (pystr \<times> 'v) list \<Rightarrow> (pystr \<times> 'v) list" where
  "dict_set k v [] = [(k, v)]"
| "dict_set k v ((k', v') # d) = (if k = k' then (k, v) # d else (k', v') # dict_set k v d)"

definition dict_get :: "(pystr \<times> 'v) list \<Rightarrow> pystr \<Rightarrow> 'v option" where
  "dict_get d k = map_of d k"

definition dict_del :: "pystr \<Rightarrow> (pystr \<times> 'v) list \<Rightarrow> (pystr \<times> 'v) list" where
  "dict_del k d = filter (\<lambda>(k', _). k' \<noteq> k) d"

lemma dict_get_simps [simp]:
  "dict_get [] k = None"
  "dict_get ((k', v) # d) k = (if k = k' then Some v else dict_get d k)"
  by (simp_all add: dict_get_def)

lemma dict_get_set: "dict_get (dict_set k v d) k' = (if k' = k then Some v else dict_get d k')"
  by (induction k v d rule: dict_set.induct) auto

lemma dict_get_del: "dict_get (dict_del k d) k' = (if k' = k then None else dict_get d k')"
  by (induction d) (auto simp: dict_del_def)

lemma dict_set_new: "k \<notin> fst ` set d \<Longrightarrow> dict_set k v d = d @ [(k, v)]"
  by (induction k v d rule: dict_set.induct) auto

lemma dict_set_keys: "fst ` set (dict_set k v d) = insert k (fst ` set d)"
  by (induction k v d rule: dict_set.induct) auto

lemma dict_set_distinct: "distinct (map fst d) \<Longrightarrow> distinct (map fst (dict_set k v d))"
proof (induction k v d rule: dict_set.induct)
  case (2 k v k' v' d)
  then show ?case using dict_set_keys [of k v d] by auto
qed simp

subsection \<open>Printing\<close>

definition hex4 :: "nat \<Rightarrow> pystr" where
  "hex4 n = [hex_digit (n div 4096), hex_digit (n div 256 mod 16), hex_digit (n div 16 mod 16),
             hex_digit (n mod 16)]"

definition uescape :: "nat \<Rightarrow> pystr" where
  "uescape n = [92, 117] @ hex4 n"

definition escape_char :: "nat \<Rightarrow> pystr" where
  "escape_char c =
     (if c = 34 then [92, 34]
      else if c = 92 then [92, 92]
      else if c = 10 then [92, 110]
      else if c = 13 then [92, 114]
      else if c = 9 then [92, 116]
      else if c = 8 then [92, 98]
      else if c = 12 then [92, 102]
      else if 32 \<le> c \<and> c \<le> 126 then [c]
      else if c < 65536 then uescape c
      else uescape (55296 + (c - 65536) div 1024) @ uescape (56320 + (c - 65536) mod 1024))"

definition dumps_str :: "pystr \<Rightarrow> pystr" where
  "dumps_str s = [34] @ concat (map escape_char s) @ [34]"

text \<open>The \<open>k\<close> digits after the decimal point.\<close>

fun frac_digits :: "nat \<Rightarrow> nat \<Rightarrow> pystr" where
  "frac_digits 0 n = []"
| "frac_digits (Suc k) n = frac_digits k (n div 10) @ [48 + n mod 10]"

fun repr_float :: "pyfloat \<Rightarrow> pystr" where
  "repr_float (Fin m k) =
     (if m < 0 then [45] else []) @ str_nat (nat \<bar>m\<bar> div 10 ^ k) @ [46] @ frac_digits k (nat \<bar>m\<bar>)"
| "repr_float PInf = u ''Infinity''"
| "repr_float NInf = u ''-Infinity''"
| "repr_float NaN = u ''NaN''"

fun dumps :: "json \<Rightarrow> pystr"
  and dumps_elems :: "json list \<Rightarrow> pystr"
  and dumps_members :: "(pystr \<times> json) list \<Rightarrow> pystr" where
  "dumps JNull = u ''null''"
| "dumps (JBool b) = (if b then u ''true'' else u ''false'')"
| "dumps (JInt i) = str_int i"
| "dumps (JFloat f) = repr_float f"
| "dumps (JStr s) = dumps_str s"
| "dumps (JList xs) = [91] @ dumps_elems xs @ [93]"
| "dumps (JObj d) = [123] @ dumps_members d @ [125]"
| "dumps_elems [] = []"
| "dumps_elems [x] = dumps x"
| "dumps_elems (x # y # xs) = dumps x @ [44, 32] @ dumps_elems (y # xs)"
| "dumps_members [] = []"
| "dumps_members [(k, v)] = dumps_str k @ [58, 32] @ dumps v"
| "dumps_members ((k, v) # p # d) =
     dumps_str k @ [58, 32] @ dumps v @ [44, 32] @ dumps_members (p # d)"

subsection \<open>Parsing\<close>

definition json_err :: pyexn where
  "json_err = Lib JSONDecodeErrorC"

definition json_space :: "nat \<Rightarrow> bool" where
  "json_space c \<longleftrightarrow> c = 32 \<or> c = 9 \<or> c = 10 \<or> c = 13"

definition skip_ws :: "pystr \<Rightarrow> pystr" where
  "skip_ws s = dropWhile json_space s"

definition unhex4 :: "nat \<Rightarrow> nat \<Rightarrow> nat \<Rightarrow> nat \<Rightarrow> nat option" where
  "unhex4 a b c d =
     (case (unhex_digit a, unhex_digit b, unhex_digit c, unhex_digit d) of
        (Some w, Some x, Some y, Some z) \<Rightarrow> Some (4096 * w + 256 * x + 16 * y + z)
      | _ \<Rightarrow> None)"

definition simple_escape :: "nat \<Rightarrow> nat option" where
  "simple_escape c =
     (if c = 34 then Some 34 else if c = 92 then Some 92 else if c = 47 then Some 47
      else if c = 98 then Some 8 else if c = 102 then Some 12 else if c = 110 then Some 10
      else if c = 114 then Some 13 else if c = 116 then Some 9 else None)"

text \<open>
  What follows \<open>\u\<close>: four hexadecimal digits; a high surrogate directly followed by the
  escape of a low one stands for one code point.
\<close>

fun parse_uescape :: "pystr \<Rightarrow> (nat \<times> pystr) option" where
  "parse_uescape (a # b # c # d # s) =
     (case unhex4 a b c d of
        None \<Rightarrow> None
      | Some hi \<Rightarrow>
          (if 55296 \<le> hi \<and> hi < 56320 then
             (case s of
                e # f # a' # b' # c' # d' # s' \<Rightarrow>
                  (if e = 92 \<and> f = 117 then
                     (case unhex4 a' b' c' d' of
                        Some lo \<Rightarrow>
                          if 56320 \<le> lo \<and> lo < 57344
                          then Some (65536 + (hi - 55296) * 1024 + (lo - 56320), s')
                          else Some (hi, s)
                      | None \<Rightarrow> Some (hi, s))
                   else Some (hi, s))
              | _ \<Rightarrow> Some (hi, s))
           else Some (hi, s)))"
| "parse_uescape _ = None"

lemma parse_uescape_length: "parse_uescape s = Some (c, s') \<Longrightarrow> length s' < length s"
  by (induction s rule: parse_uescape.induct) (auto split: option.splits if_splits list.splits)

text \<open>The characters of a string after its opening quote, with the input after its closing one.\<close>

function parse_chars :: "pystr \<Rightarrow> (pystr \<times> pystr) option" where
  "parse_chars [] = None"
| "parse_chars (c # s) =
     (if c = 34 then Some ([], s)
      else if c < 32 then None
      else if c \<noteq> 92 then map_option (\<lambda>(t, r). (c # t, r)) (parse_chars s)
      else case s of
          [] \<Rightarrow> None
        | e # s1 \<Rightarrow>
            if e = 117 then
              (case parse_uescape s1 of
                 None \<Rightarrow> None
               | Some (x, s2) \<Rightarrow> map_option (\<lambda>(t, r). (x # t, r)) (parse_chars s2))
            else
              (case simple_escape e of
                 None \<Rightarrow> None
               | Some x \<Rightarrow> map_option (\<lambda>(t, r). (x # t, r)) (parse_chars s1)))"
  by pat_completeness auto
termination
  by (relation "measure length") (auto dest: parse_uescape_length)

text \<open>Numbers: \<open>-?(0|[1-9][0-9]*)(\.[0-9]+)?([eE][-+]?[0-9]+)?\<close>, matched greedily.\<close>

fun strip_zeros :: "nat \<Rightarrow> int \<Rightarrow> nat \<Rightarrow> pyfloat" where
  "strip_zeros 0 m k = Fin m k"
| "strip_zeros (Suc n) m k =
     (if 1 < k \<and> m mod 10 = 0 then strip_zeros n (m div 10) (k - 1) else Fin m k)"

definition normal_float :: "int \<Rightarrow> nat \<Rightarrow> pyfloat" where
  "normal_float m k = (if k = 0 then Fin (m * 10) 1 else strip_zeros k m k)"

text \<open>From this bound on a decimal rounds to an infinity of IEEE double precision.\<close>

definition float_overflow :: nat where
  "float_overflow = 2 ^ 1024 - 2 ^ 970"

definition make_float :: "bool \<Rightarrow> nat \<Rightarrow> nat \<Rightarrow> int \<Rightarrow> pyfloat" where
  "make_float neg m k e =
     (let m' = m * 10 ^ nat e; k' = k + nat (- e)
      in if float_overflow * 10 ^ k' \<le> m' then (if neg then NInf else PInf)
         else normal_float (if neg then - int m' else int m') k')"

definition take_digits :: "pystr \<Rightarrow> pystr \<times> pystr" where
  "take_digits s = (takeWhile is_digit s, dropWhile is_digit s)"

definition parse_frac :: "pystr \<Rightarrow> pystr \<times> pystr" where
  "parse_frac s =
     (case s of
        c # s1 \<Rightarrow> if c = 46 \<and> takeWhile is_digit s1 \<noteq> [] then take_digits s1 else ([], s)
      | [] \<Rightarrow> ([], s))"

definition parse_exp :: "pystr \<Rightarrow> int option \<times> pystr" where
  "parse_exp s =
     (case s of
        c # s1 \<Rightarrow>
          if c = 101 \<or> c = 69 then
            (let (neg, s2) = (case s1 of d # s2 \<Rightarrow> if d = 45 then (True, s2)
                                                   else if d = 43 then (False, s2)
                                                   else (False, s1)
                                       | [] \<Rightarrow> (False, s1));
                 (ds, s3) = take_digits s2
             in if ds = [] then (None, s)
                else (Some (if neg then - int (digits_val ds) else int (digits_val ds)), s3))
          else (None, s)
      | [] \<Rightarrow> (None, s))"

definition parse_int_part :: "pystr \<Rightarrow> (pystr \<times> pystr) option" where
  "parse_int_part s =
     (case s of
        [] \<Rightarrow> None
      | c # s1 \<Rightarrow>
          if c = 48 then Some ([48], s1)
          else if is_digit c then Some (take_digits s) else None)"

definition parse_unsigned :: "bool \<Rightarrow> pystr \<Rightarrow> (json \<times> pystr) option" where
  "parse_unsigned neg s =
     (case parse_int_part s of
        None \<Rightarrow> None
      | Some (ids, s1) \<Rightarrow>
          (let (fds, s2) = parse_frac s1; (e, s3) = parse_exp s2;
               n = int (digits_val ids)
           in if fds = [] \<and> e = None then Some (JInt (if neg then - n else n), s3)
              else Some (JFloat (make_float neg (digits_val (ids @ fds)) (length fds)
                          (case e of None \<Rightarrow> 0 | Some x \<Rightarrow> x)), s3)))"

text \<open>The constants, in the order in which the scanner tries them.\<close>

definition literals :: "(pystr \<times> json) list" where
  "literals = [(u ''null'', JNull), (u ''true'', JBool True), (u ''false'', JBool False),
               (u ''NaN'', JFloat NaN), (u ''Infinity'', JFloat PInf),
               (u ''-Infinity'', JFloat NInf)]"

fun match_literal :: "(pystr \<times> json) list \<Rightarrow> pystr \<Rightarrow> (json \<times> pystr) option" where
  "match_literal [] s = None"
| "match_literal ((w, v) # ls) s =
     (if take (length w) s = w then Some (v, drop (length w) s) else match_literal ls s)"

definition parse_atom :: "pystr \<Rightarrow> (json \<times> pystr) option" where
  "parse_atom s =
     (case match_literal literals s of
        Some r \<Rightarrow> Some r
      | None \<Rightarrow>
          (case s of
             [] \<Rightarrow> None
           | c # s1 \<Rightarrow> if c = 45 then parse_unsigned True s1 else parse_unsigned False s))"

fun parse_value :: "nat \<Rightarrow> pystr \<Rightarrow> pyexn + json \<times> pystr"
  and parse_elems :: "nat \<Rightarrow> pystr \<Rightarrow> pyexn + json list \<times> pystr"
  and parse_members :: "nat \<Rightarrow> pystr \<Rightarrow> pyexn + dict \<times> pystr" where
  "parse_value 0 s = Inl (Lib RecursionErrorC)"
| "parse_value (Suc n) s =
     (case s of
        [] \<Rightarrow> Inl json_err
      | c # s1 \<Rightarrow>
          if c = 34 then
            (case parse_chars s1 of None \<Rightarrow> Inl json_err | Some (t, r) \<Rightarrow> Inr (JStr t, r))
          else if c = 123 then
            (case skip_ws s1 of
               [] \<Rightarrow> Inl json_err
             | d # r \<Rightarrow>
                 if d = 125 then Inr (JObj [], r)
                 else (case parse_members n (d # r) of
                         Inl e \<Rightarrow> Inl e
                       | Inr (ms, r') \<Rightarrow> Inr (JObj (foldl (\<lambda>d (k, v). dict_set k v d) [] ms), r')))
          else if c = 91 then
            (case skip_ws s1 of
               [] \<Rightarrow> Inl json_err
             | d # r \<Rightarrow>
                 if d = 93 then Inr (JList [], r)
                 else (case parse_elems n (d # r) of
                         Inl e \<Rightarrow> Inl e
                       | Inr (xs, r') \<Rightarrow> Inr (JList xs, r')))
          else of_option json_err (parse_atom s))"
| "parse_elems 0 s = Inl (Lib RecursionErrorC)"
| "parse_elems (Suc n) s =
     (case parse_value n s of
        Inl e \<Rightarrow> Inl e
      | Inr (x, s1) \<Rightarrow>
          (case skip_ws s1 of
             [] \<Rightarrow> Inl json_err
           | c # s2 \<Rightarrow>
               if c = 93 then Inr ([x], s2)
               else if c = 44 then
                 (case parse_elems n (skip_ws s2) of
                    Inl e \<Rightarrow> Inl e | Inr (xs, s3) \<Rightarrow> Inr (x # xs, s3))
               else Inl json_err))"
| "parse_members 0 s = Inl (Lib RecursionErrorC)"
| "parse_members (Suc n) s =
     (case s of
        [] \<Rightarrow> Inl json_err
      | q # s0 \<Rightarrow>
          if q \<noteq> 34 then Inl json_err
          else (case parse_chars s0 of
             None \<Rightarrow> Inl json_err
           | Some (k, s1) \<Rightarrow>
               (case skip_ws s1 of
                  [] \<Rightarrow> Inl json_err
                | c # s2 \<Rightarrow>
                    if c \<noteq> 58 then Inl json_err
                    else (case parse_value n (skip_ws s2) of
                       Inl e \<Rightarrow> Inl e
                     | Inr (v, s3) \<Rightarrow>
                         (case skip_ws s3 of
                            [] \<Rightarrow> Inl json_err
                          | d # s4 \<Rightarrow>
                              if d = 125 then Inr ([(k, v)], s4)
                              else if d = 44 then
                                (case parse_members n (skip_ws s4) of
                                   Inl e \<Rightarrow> Inl e | Inr (ms, s5) \<Rightarrow> Inr ((k, v) # ms, s5))
                              else Inl json_err)))))"

definition loads :: "pystr \<Rightarrow> pyexn + json" where
  "loads s =
     (if take 1 s = [65279] then Inl json_err
      else case parse_value (2 * length s + 1) (skip_ws s) of
          Inl e \<Rightarrow> Inl e
        | Inr (v, r) \<Rightarrow> if skip_ws r = [] then Inr v else Inl json_err)"

end
