(* ===== verification/Network.thy ===== *)
theory Network
  imports Complex_Main Py_Text Py_Json
begin

text \<open>
  The environment of one connection's thread: the connected socket as the events its
  \<open>recv\<close> will see and the bytes its \<open>sendall\<close> has handed to the kernel, the operating
  system's random source and clock, and the number of randomised library calls made.

  TCP delivers a byte stream in segments of its own choosing: \<open>Seg\<close> is data that has
  arrived, \<open>Stall\<close> a silence longer than the socket's timeout, \<open>Reset\<close> a connection
  reset, and the end of the list is the peer's orderly close.
\<close>

datatype net_event = Seg bytes | Stall | Reset

record world =
  inq :: "net_event list"
  sent :: bytes
  send_faults :: "(pyexn \<times> nat) option list"
  sock_timeout :: "rat option"
  sock_open :: bool
  rnd :: "nat \<Rightarrow> byte"
  rnd_pos :: nat
  clock :: "nat \<Rightarrow> pyfloat"
  clock_pos :: nat
  salt_pos :: nat

subsection \<open>Socket operations\<close>

text \<open>
  \<open>sock.recv(n)\<close>: some of the arrived bytes, at most \<open>n\<close>; nothing at the peer's close;
  an exception on a timeout or a reset.
\<close>

fun recv_event :: "nat \<Rightarrow> net_event list \<Rightarrow> (pyexn + bytes) \<times> net_event list" where
  "recv_event n [] = (Inr [], [])"
| "recv_event n (Seg bs # q) =
     (if bs = [] then recv_event n q
      else (Inr (take n bs), if length bs \<le> n then q else Seg (drop n bs) # q))"
| "recv_event n (Stall # q) = (Inl (Lib TimeoutErrorC), q)"
| "recv_event n (Reset # q) = (Inl (Lib ConnectionResetErrorC), Reset # q)"

definition recv :: "nat \<Rightarrow> (world, bytes) io" where
  "recv n w = (case recv_event n (inq w) of (r, q) \<Rightarrow> (r, w\<lparr>inq := q\<rparr>))"

text \<open>
  \<open>sock.sendall(data)\<close> hands all of the data over, or raises after some prefix of it; which
  calls fail is up to the environment.
\<close>

definition sendall :: "bytes \<Rightarrow> (world, unit) io" where
  "sendall bs w =
     (case send_faults w of
        Some (e, k) # fs \<Rightarrow> (Inl e, w\<lparr>sent := sent w @ take k bs, send_faults := fs\<rparr>)
      | None # fs \<Rightarrow> (Inr (), w\<lparr>sent := sent w @ bs, send_faults := fs\<rparr>)
      | [] \<Rightarrow> (Inr (), w\<lparr>sent := sent w @ bs\<rparr>))"

definition settimeout :: "rat option \<Rightarrow> (world, unit) io" where
  "settimeout t w = (Inr (), w\<lparr>sock_timeout := t\<rparr>)"

definition sock_close :: "(world, unit) io" where
  "sock_close w = (Inr (), w\<lparr>sock_open := False\<rparr>)"

subsection \<open>Randomness and time\<close>

definition urandom :: "nat \<Rightarrow> (world, bytes) io" where
  "urandom n w =
     (Inr (map (rnd w) [rnd_pos w ..< rnd_pos w + n]), w\<lparr>rnd_pos := rnd_pos w + n\<rparr>)"

definition time_now :: "(world, pyfloat) io" where
  "time_now w = (Inr (clock w (clock_pos w)), w\<lparr>clock_pos := Suc (clock_pos w)\<rparr>)"

text \<open>The salt of a randomised library call (RSA-PSS, OAEP): its number.\<close>

definition next_salt :: "(world, nat) io" where
  "next_salt w = (Inr (salt_pos w), w\<lparr>salt_pos := Suc (salt_pos w)\<rparr>)"

lemma urandom_length: "urandom n w = (Inr bs, w') \<Longrightarrow> length bs = n"
  by (auto simp: urandom_def)

lemma recv_event_bound: "recv_event n q = (Inr bs, q') \<Longrightarrow> length bs \<le> n"
  by (induction n q rule: recv_event.induct) (auto split: if_splits)

subsection \<open>The byte stream behind the segments\<close>

text \<open>
  The bytes that arrive before anything else happens, and what happens then.  Both are
  independent of how the stream was cut into segments.
\<close>

fun arriving :: "net_event list \<Rightarrow> bytes" where
  "arriving (Seg bs # q) = bs @ arriving q"
| "arriving _ = []"

fun afterwards :: "net_event list \<Rightarrow> net_event list" where
  "afterwards (Seg bs # q) = afterwards q"
| "afterwards q = q"

lemma arriving_segs [simp]: "arriving (map Seg css @ q) = concat css @ arriving q"
  by (induction css) simp_all

lemma afterwards_segs [simp]: "afterwards (map Seg css @ q) = afterwards q"
  by (induction css) simp_all

lemma afterwards_cases: "afterwards q = [] \<or> hd (afterwards q) = Stall \<or> hd (afterwards q) = Reset"
  by (induction q rule: afterwards.induct) simp_all

text \<open>One \<open>recv\<close> takes a nonempty prefix of the stream, if there is one.\<close>

lemma recv_event_arriving:
  assumes "0 < n" and "arriving q \<noteq> []"
  obtains m q' where "0 < m" "m \<le> n" "m \<le> length (arriving q)"
    "recv_event n q = (Inr (take m (arriving q)), q')"
    "arriving q' = drop m (arriving q)" "afterwards q' = afterwards q"
  using assms
proof (induction n q arbitrary: thesis rule: recv_event.induct)
  case (2 n bs q)
  show ?case
  proof (cases "bs = []")
    case True
    with 2 show ?thesis by auto
  next
    case False
    let ?m = "min n (length bs)"
    show ?thesis
      by (rule "2.prems"(1) [of ?m "if length bs \<le> n then q else Seg (drop n bs) # q"])
        (use False "2.prems" in \<open>auto simp: min_def\<close>)
  qed
qed simp_all

text \<open>With no stream left, \<open>recv\<close> reports what happened instead.\<close>

definition stream_end :: "net_event list \<Rightarrow> pyexn option" where
  "stream_end q =
     (case afterwards q of [] \<Rightarrow> None
      | Reset # _ \<Rightarrow> Some (Lib ConnectionResetErrorC)
      | _ \<Rightarrow> Some (Lib TimeoutErrorC))"

lemma recv_event_end:
  assumes "arriving q = []"
  shows "fst (recv_event n q) = (case stream_end q of None \<Rightarrow> Inr [] | Some e \<Rightarrow> Inl e)"
  using assms by (induction n q rule: recv_event.induct) (auto simp: stream_end_def)

end
