(* ===== verification/Sha256.thy ===== *)
theory Sha256
  imports Prelude
begin

text \<open>
  The standard library's SHA-256 (\<open>hashlib.sha256\<close>, FIPS 180-4) and HMAC (\<open>hmac\<close>,
  RFC 2104) as executable functions on bytes.  What the frame format relies on is the
  length of the digest; nothing is assumed or proved about collisions.
\<close>

unbundle bit_operations_syntax

type_synonym u32 = "32 word"

definition be_value :: "bytes \<Rightarrow> nat" where
  "be_value bs = foldl (\<lambda>a b. 256 * a + unat b) 0 bs"

text \<open>The \<open>k\<close> low-order bytes of a number, most significant first.\<close>

fun be_bytes :: "nat \<Rightarrow> nat \<Rightarrow> bytes" where
  "be_bytes 0 n = []"
| "be_bytes (Suc k) n = be_bytes k (n div 256) @ [of_nat (n mod 256)]"

lemma length_be_bytes [simp]: "length (be_bytes k n) = k"
  by (induction k arbitrary: n) simp_all

lemma be_bytes_4: "be_bytes 4 n =
  [of_nat (n div 256 div 256 div 256 mod 256), of_nat (n div 256 div 256 mod 256),
   of_nat (n div 256 mod 256), of_nat (n mod 256)]"
proof -
  have "(4 :: nat) = Suc (Suc (Suc (Suc 0)))" by simp
  then show ?thesis by (simp only: be_bytes.simps append.simps)
qed

lemma be_value_append: "be_value (bs @ [b]) = 256 * be_value bs + unat b"
  by (simp add: be_value_def)

lemma be_value_be_bytes [simp]: "n < 256 ^ k \<Longrightarrow> be_value (be_bytes k n) = n"
proof (induction k arbitrary: n)
  case (Suc k)
  then have "n div 256 < 256 ^ k" by (simp add: less_mult_imp_div_less mult.commute)
  moreover have "unat (of_nat (n mod 256) :: byte) = n mod 256"
    by (simp add: unat_of_nat take_bit_eq_mod)
  ultimately show ?case using Suc.IH [of "n div 256"] by (simp add: be_value_append)
qed (simp add: be_value_def)

subsection \<open>SHA-256\<close>

definition sha_K :: "u32 list" where
  "sha_K = [
    1116352408, 1899447441, 3049323471, 3921009573, 961987163, 1508970993, 2453635748, 2870763221,
    3624381080, 310598401, 607225278, 1426881987, 1925078388, 2162078206, 2614888103, 3248222580,
    3835390401, 4022224774, 264347078, 604807628, 770255983, 1249150122, 1555081692, 1996064986,
    2554220882, 2821834349, 2952996808, 3210313671, 3336571891, 3584528711, 113926993, 338241895,
    666307205, 773529912, 1294757372, 1396182291, 1695183700, 1986661051, 2177026350, 2456956037,
    2730485921, 2820302411, 3259730800, 3345764771, 3516065817, 3600352804, 4094571909, 275423344,
    430227734, 506948616, 659060556, 883997877, 958139571, 1322822218, 1537002063, 1747873779,
    1955562222, 2024104815, 2227730452, 2361852424, 2428436474, 2756734187, 3204031479, 3329325298]"

definition sha_H0 :: "u32 list" where
  "sha_H0 = [1779033703, 3144134277, 1013904242, 2773480762,
             1359893119, 2600822924, 528734635, 1541459225]"

definition sha_ch :: "u32 \<Rightarrow> u32 \<Rightarrow> u32 \<Rightarrow> u32" where
  "sha_ch x y z = (x AND y) XOR (NOT x AND z)"

definition sha_maj :: "u32 \<Rightarrow> u32 \<Rightarrow> u32 \<Rightarrow> u32" where
  "sha_maj x y z = (x AND y) XOR (x AND z) XOR (y AND z)"

definition sha_Sigma0 :: "u32 \<Rightarrow> u32" where
  "sha_Sigma0 x = word_rotr 2 x XOR word_rotr 13 x XOR word_rotr 22 x"

definition sha_Sigma1 :: "u32 \<Rightarrow> u32" where
  "sha_Sigma1 x = word_rotr 6 x XOR word_rotr 11 x XOR word_rotr 25 x"

definition sha_sigma0 :: "u32 \<Rightarrow> u32" where
  "sha_sigma0 x = word_rotr 7 x XOR word_rotr 18 x XOR drop_bit 3 x"

definition sha_sigma1 :: "u32 \<Rightarrow> u32" where
  "sha_sigma1 x = word_rotr 17 x XOR word_rotr 19 x XOR drop_bit 10 x"

text \<open>The message schedule: each new word depends on the last sixteen.\<close>

fun sha_schedule :: "nat \<Rightarrow> u32 list \<Rightarrow> u32 list" where
  "sha_schedule 0 ws = ws"
| "sha_schedule (Suc n) ws =
     (let l = length ws
      in sha_schedule n (ws @ [sha_sigma1 (ws ! (l - 2)) + ws ! (l - 7)
                               + sha_sigma0 (ws ! (l - 15)) + ws ! (l - 16)]))"

fun sha_rounds :: "(u32 \<times> u32) list \<Rightarrow> u32 \<Rightarrow> u32 \<Rightarrow> u32 \<Rightarrow> u32 \<Rightarrow> u32 \<Rightarrow> u32 \<Rightarrow> u32 \<Rightarrow> u32 \<Rightarrow> u32 list" where
  "sha_rounds [] a b c d e f g h = [a, b, c, d, e, f, g, h]"
| "sha_rounds ((k, w) # kws) a b c d e f g h =
     (let t1 = h + sha_Sigma1 e + sha_ch e f g + k + w;
          t2 = sha_Sigma0 a + sha_maj a b c
      in sha_rounds kws (t1 + t2) a b c (d + t1) e f g)"

fun chunks :: "nat \<Rightarrow> nat \<Rightarrow> 'a list \<Rightarrow> 'a list list" where
  "chunks 0 k xs = []"
| "chunks (Suc n) k xs = take k xs # chunks n k (drop k xs)"

definition sha_compress :: "u32 list \<Rightarrow> bytes \<Rightarrow> u32 list" where
  "sha_compress hs block =
     (let ws = sha_schedule 48 (map (\<lambda>bs. of_nat (be_value bs)) (chunks 16 4 block))
      in map2 (+) hs
           (sha_rounds (zip sha_K ws) (hs ! 0) (hs ! 1) (hs ! 2) (hs ! 3)
              (hs ! 4) (hs ! 5) (hs ! 6) (hs ! 7)))"

definition sha_pad :: "bytes \<Rightarrow> bytes" where
  "sha_pad m =
     m @ [128] @ replicate ((119 - length m mod 64) mod 64) 0 @ be_bytes 8 (8 * length m)"

definition sha256 :: "bytes \<Rightarrow> bytes" where
  "sha256 m =
     (let p = sha_pad m
      in concat (map (\<lambda>w. be_bytes 4 (unat w))
           (foldl sha_compress sha_H0 (chunks (length p div 64) 64 p))))"

lemma length_sha_rounds: "length (sha_rounds kws a b c d e f g h) = 8"
  by (induction kws a b c d e f g h rule: sha_rounds.induct) (simp_all add: Let_def)

lemma length_sha_compress: "length hs = 8 \<Longrightarrow> length (sha_compress hs block) = 8"
  by (simp add: sha_compress_def Let_def length_sha_rounds)

lemma length_sha_blocks: "length hs = 8 \<Longrightarrow> length (foldl sha_compress hs bs) = 8"
  by (induction bs arbitrary: hs) (simp_all add: length_sha_compress)

lemma length_concat_const: "(\<And>x. length (f x) = k) \<Longrightarrow> length (concat (map f xs)) = k * length xs"
  by (induction xs) simp_all

lemma length_sha256 [simp]: "length (sha256 m) = 32"
  by (simp add: sha256_def Let_def length_concat_const [where k = 4] length_sha_blocks sha_H0_def)

text \<open>Padding fills whole blocks, so no byte of the message is dropped.\<close>

lemma sha_pad_blocks: "64 dvd length (sha_pad m)"
proof -
  define q r z where "q = length m div 64" and "r = length m mod 64" and "z = (119 - r) mod 64"
  have l: "length m = 64 * q + r" and r: "r < 64" by (simp_all add: q_def r_def)
  have "z = (if r \<le> 55 then 55 - r else 119 - r)"
  proof (cases "r \<le> 55")
    case True
    then have "119 - r = 64 + (55 - r)" by simp
    then have "z = (64 + (55 - r)) mod 64" by (simp only: z_def)
    also have "\<dots> = 55 - r" by simp
    finally show ?thesis using True by simp
  qed (use r in \<open>simp add: z_def\<close>)
  then have "r + 9 + z = (if r \<le> 55 then 64 else 128)" using r by simp
  moreover have "length (sha_pad m) = 64 * q + (r + 9 + z)"
    using l by (simp add: sha_pad_def z_def r_def)
  ultimately show ?thesis by simp
qed

subsection \<open>HMAC\<close>

definition hmac_block :: "bytes \<Rightarrow> bytes" where
  "hmac_block k =
     (let k' = (if 64 < length k then sha256 k else k) in k' @ replicate (64 - length k') 0)"

definition hmac_sha256 :: "bytes \<Rightarrow> bytes \<Rightarrow> bytes" where
  "hmac_sha256 k m =
     sha256 (map (\<lambda>b. b XOR 0x5c) (hmac_block k) @
             sha256 (map (\<lambda>b. b XOR 0x36) (hmac_block k) @ m))"

lemma length_hmac_sha256 [simp]: "length (hmac_sha256 k m) = 32"
  by (simp add: hmac_sha256_def)

end
