(* ===== verification/Crypto_Utils.thy ===== *)
theory Crypto_Utils
  imports Network Sha256
begin

text \<open>
  \<open>crypto/crypto_utils.py\<close>: AES-256-GCM encryption, HMAC-SHA256 and HKDF key derivation,
  and \<open>auth/signatures.py\<close>.  The \<open>cryptography\<close> package is a parameter, the record
  \<open>crypto_lib\<close>; HMAC and SHA-256 come from the standard library and are modelled.  The
  predicates \<open>aead_ok\<close>, \<open>hkdf_ok\<close>, \<open>oaep_ok\<close> and \<open>pss_ok\<close> state the package's documented
  behaviour on honest inputs; no theorem assumes anything about an attacker's success.
\<close>

subsection \<open>The cryptography package\<close>

record ('sk, 'pk) crypto_lib =
  aesgcm_encrypt :: "bytes \<Rightarrow> bytes \<Rightarrow> bytes \<Rightarrow> bytes"         \<comment> \<open>key, nonce, plaintext\<close>
  aesgcm_decrypt :: "bytes \<Rightarrow> bytes \<Rightarrow> bytes \<Rightarrow> bytes option"  \<comment> \<open>key, nonce, ciphertext\<close>
  hkdf_derive :: "nat \<Rightarrow> bytes option \<Rightarrow> bytes \<Rightarrow> bytes \<Rightarrow> bytes"  \<comment> \<open>length, salt, info, secret\<close>
  pss_sign :: "'sk \<Rightarrow> nat \<Rightarrow> bytes \<Rightarrow> bytes"
  pss_verify :: "'pk \<Rightarrow> bytes \<Rightarrow> bytes \<Rightarrow> pyexn option"         \<comment> \<open>\<open>None\<close>: valid\<close>
  oaep_encrypt :: "'pk \<Rightarrow> nat \<Rightarrow> bytes \<Rightarrow> bytes"
  oaep_decrypt :: "'sk \<Rightarrow> bytes \<Rightarrow> bytes option"
  public_key :: "'sk \<Rightarrow> 'pk"

definition AES_KEY_SIZE :: nat where [wire_simps]: "AES_KEY_SIZE = 32"
definition GCM_NONCE_SIZE :: nat where [wire_simps]: "GCM_NONCE_SIZE = 12"
definition HMAC_KEY_SIZE :: nat where [wire_simps]: "HMAC_KEY_SIZE = 32"
definition HMAC_DIGEST_SIZE :: nat where [wire_simps]: "HMAC_DIGEST_SIZE = 32"

definition aead_ok :: "('sk, 'pk) crypto_lib \<Rightarrow> bool" where
  "aead_ok L \<longleftrightarrow>
     (\<forall>k n p. length k = AES_KEY_SIZE \<and> length n = GCM_NONCE_SIZE \<longrightarrow>
        aesgcm_decrypt L k n (aesgcm_encrypt L k n p) = Some p \<and>
        length (aesgcm_encrypt L k n p) = length p + 16)"

definition hkdf_ok :: "('sk, 'pk) crypto_lib \<Rightarrow> bool" where
  "hkdf_ok L \<longleftrightarrow> (\<forall>n salt info secret. length (hkdf_derive L n salt info secret) = n)"

definition pss_ok :: "('sk, 'pk) crypto_lib \<Rightarrow> bool" where
  "pss_ok L \<longleftrightarrow> (\<forall>sk salt m. pss_verify L (public_key L sk) (pss_sign L sk salt m) m = None)"

definition oaep_ok :: "('sk, 'pk) crypto_lib \<Rightarrow> bool" where
  "oaep_ok L \<longleftrightarrow>
     (\<forall>sk salt m. length m = AES_KEY_SIZE \<longrightarrow>
        oaep_decrypt L sk (oaep_encrypt L (public_key L sk) salt m) = Some m)"

lemma aead_okD:
  assumes "aead_ok L" and "length k = AES_KEY_SIZE" and "length n = GCM_NONCE_SIZE"
  shows "aesgcm_decrypt L k n (aesgcm_encrypt L k n p) = Some p"
    and "length (aesgcm_encrypt L k n p) = length p + 16"
  using assms by (auto simp: aead_ok_def)

subsection \<open>Key generation and AES-256-GCM\<close>

definition generate_session_key :: "(world, bytes) io" where
  "generate_session_key = urandom AES_KEY_SIZE"

definition key_length_error :: "nat \<Rightarrow> pyexn" where
  "key_length_error n =
     Raised ValueErrorC (u ''Key must be '' @ str_nat AES_KEY_SIZE @ u '' bytes, got '' @ str_nat n)"

definition nonce_length_error :: "nat \<Rightarrow> pyexn" where
  "nonce_length_error n =
     Raised ValueErrorC
       (u ''Nonce must be '' @ str_nat GCM_NONCE_SIZE @ u '' bytes, got '' @ str_nat n)"

definition encrypt_payload ::
    "('sk, 'pk) crypto_lib \<Rightarrow> bytes \<Rightarrow> bytes \<Rightarrow> (world, bytes \<times> bytes) io" where
  "encrypt_payload L plaintext key =
     (if length key \<noteq> AES_KEY_SIZE then raise (key_length_error (length key))
      else andThen (urandom GCM_NONCE_SIZE) (\<lambda>nonce.
        ret (aesgcm_encrypt L key nonce plaintext, nonce)))"

definition decrypt_payload ::
    "('sk, 'pk) crypto_lib \<Rightarrow> bytes \<Rightarrow> bytes \<Rightarrow> bytes \<Rightarrow> pyexn + bytes" where
  "decrypt_payload L ciphertext nonce key =
     (if length key \<noteq> AES_KEY_SIZE then Inl (key_length_error (length key))
      else if length nonce \<noteq> GCM_NONCE_SIZE then Inl (nonce_length_error (length nonce))
      else of_option (Lib InvalidTagC) (aesgcm_decrypt L key nonce ciphertext))"

lemma encrypt_payload_eq:
  assumes "length key = AES_KEY_SIZE"
  shows "encrypt_payload L p key w =
    (let nonce = map (rnd w) [rnd_pos w ..< rnd_pos w + GCM_NONCE_SIZE]
     in (Inr (aesgcm_encrypt L key nonce p, nonce), w\<lparr>rnd_pos := rnd_pos w + GCM_NONCE_SIZE\<rparr>))"
  using assms by (simp add: encrypt_payload_def andThen_def urandom_def ret_def Let_def)

lemma decrypt_encrypt_payload:
  assumes "aead_ok L" and "encrypt_payload L p key w = (Inr (c, nonce), w')"
  shows "decrypt_payload L c nonce key = Inr p"
    and "length c = length p + 16" and "length nonce = GCM_NONCE_SIZE"
  using assms
  by (auto simp: encrypt_payload_def decrypt_payload_def andThen_def urandom_def ret_def
      raise_def aead_okD split: if_splits)

subsection \<open>HMAC-SHA256\<close>

definition compute_hmac :: "bytes \<Rightarrow> bytes \<Rightarrow> bytes" where
  "compute_hmac data key = hmac_sha256 key data"

definition verify_hmac :: "bytes \<Rightarrow> bytes \<Rightarrow> bytes \<Rightarrow> bool" where
  "verify_hmac data mac key \<longleftrightarrow> compute_hmac data key = mac"

lemma length_compute_hmac [simp]: "length (compute_hmac data key) = 32"
  by (simp add: compute_hmac_def)

lemma verify_compute_hmac [simp]: "verify_hmac data (compute_hmac data key) key"
  by (simp add: verify_hmac_def)

subsection \<open>Key derivation\<close>

definition derive_keys ::
    "('sk, 'pk) crypto_lib \<Rightarrow> bytes \<Rightarrow> bytes option \<Rightarrow> bytes \<Rightarrow> bytes \<times> bytes" where
  "derive_keys L master_secret salt info =
     (let derived = hkdf_derive L (AES_KEY_SIZE + HMAC_KEY_SIZE) salt info master_secret
      in (take AES_KEY_SIZE derived, drop AES_KEY_SIZE derived))"

definition derive_keys_info :: bytes where
  "derive_keys_info = ascii_bytes (u ''vpn-tunnel-keys'')"

lemma derive_keys_length:
  assumes "hkdf_ok L" and "derive_keys L secret salt info = (ek, mk)"
  shows "length ek = AES_KEY_SIZE" and "length mk = HMAC_KEY_SIZE"
proof -
  have "length (hkdf_derive L (AES_KEY_SIZE + HMAC_KEY_SIZE) salt info secret)
      = AES_KEY_SIZE + HMAC_KEY_SIZE"
    using assms(1) unfolding hkdf_ok_def by blast
  with assms(2) show "length ek = AES_KEY_SIZE" and "length mk = HMAC_KEY_SIZE"
    by (auto simp: derive_keys_def Let_def)
qed

subsection \<open>Signatures (\<open>auth/signatures.py\<close>)\<close>

definition sign_data :: "('sk, 'pk) crypto_lib \<Rightarrow> bytes \<Rightarrow> 'sk \<Rightarrow> (world, bytes) io" where
  "sign_data L data sk = andThen next_salt (\<lambda>salt. ret (pss_sign L sk salt data))"

text \<open>Every exception of the library means an invalid signature.\<close>

definition verify_signature :: "('sk, 'pk) crypto_lib \<Rightarrow> bytes \<Rightarrow> bytes \<Rightarrow> 'pk \<Rightarrow> bool" where
  "verify_signature L data signature pk =
     (case pss_verify L pk signature data of None \<Rightarrow> True | Some _ \<Rightarrow> False)"

lemma verify_sign_data:
  assumes "pss_ok L" and "sign_data L m sk w = (Inr s, w')"
  shows "verify_signature L m s (public_key L sk)"
  using assms
  by (auto simp: sign_data_def andThen_def next_salt_def ret_def verify_signature_def pss_ok_def)

subsection \<open>A library that satisfies the laws\<close>

text \<open>
  An instance of the parameter on which the laws hold, used to show that they are
  consistent: GCM tags and signatures are HMACs, and a public key is its private key.
\<close>

definition model_lib :: "(bytes, bytes) crypto_lib" where
  "model_lib = \<lparr>
     aesgcm_encrypt = (\<lambda>k n p. p @ take 16 (hmac_sha256 k (n @ p))),
     aesgcm_decrypt = (\<lambda>k n c.
       let p = take (length c - 16) c
       in if drop (length c - 16) c = take 16 (hmac_sha256 k (n @ p)) then Some p else None),
     hkdf_derive = (\<lambda>n salt info secret. take n (secret @ replicate n 0)),
     pss_sign = (\<lambda>sk salt m. hmac_sha256 sk m),
     pss_verify = (\<lambda>pk s m. if s = hmac_sha256 pk m then None else Some (Lib ValueErrorC)),
     oaep_encrypt = (\<lambda>pk salt m. m),
     oaep_decrypt = (\<lambda>sk c. Some c),
     public_key = (\<lambda>sk. sk)\<rparr>"

lemma model_lib_ok: "aead_ok model_lib" "hkdf_ok model_lib" "pss_ok model_lib" "oaep_ok model_lib"
  by (simp_all add: model_lib_def aead_ok_def hkdf_ok_def pss_ok_def oaep_ok_def Let_def
      min_def)

end
