(* ===== verification/Protocol.thy ===== *)
theory Protocol
  imports Crypto_Utils
begin

text \<open>
  \<open>crypto/protocol.py\<close>: the binary frame format of the tunnel.  A frame is a 4-byte length,
  then the type byte, the session id, the nonce, the (possibly encrypted) payload and the
  HMAC of everything between length and HMAC.  \<open>send_frame\<close> and \<open>recv_frame\<close> are modelled
  with every check in the order of the code; the lemmas say that a frame survives any
  segmentation of the TCP stream, what a receiver accepts, and what it never reads.
\<close>

subsection \<open>Constants and message types\<close>

definition HEADER_SIZE :: nat where [wire_simps]: "HEADER_SIZE = 4"
definition SESSION_ID_SIZE :: nat where [wire_simps]: "SESSION_ID_SIZE = 16"
definition MAX_FRAME_SIZE :: nat where [wire_simps]: "MAX_FRAME_SIZE = 16 * 1024 * 1024"

definition HANDSHAKE_HMAC_KEY :: bytes where
  "HANDSHAKE_HMAC_KEY = replicate 32 0"

datatype message_type =
    HANDSHAKE_CLIENT_HELLO | HANDSHAKE_SERVER_HELLO | HANDSHAKE_CLIENT_RESPONSE
  | HANDSHAKE_SERVER_DONE | DATA_REQUEST | DATA_RESPONSE | ERROR

fun type_code :: "message_type \<Rightarrow> nat" where
  "type_code HANDSHAKE_CLIENT_HELLO = 0x01"
| "type_code HANDSHAKE_SERVER_HELLO = 0x02"
| "type_code HANDSHAKE_CLIENT_RESPONSE = 0x03"
| "type_code HANDSHAKE_SERVER_DONE = 0x04"
| "type_code DATA_REQUEST = 0x10"
| "type_code DATA_RESPONSE = 0x11"
| "type_code ERROR = 0xFF"

fun type_name :: "message_type \<Rightarrow> pystr" where
  "type_name HANDSHAKE_CLIENT_HELLO = u ''HANDSHAKE_CLIENT_HELLO''"
| "type_name HANDSHAKE_SERVER_HELLO = u ''HANDSHAKE_SERVER_HELLO''"
| "type_name HANDSHAKE_CLIENT_RESPONSE = u ''HANDSHAKE_CLIENT_RESPONSE''"
| "type_name HANDSHAKE_SERVER_DONE = u ''HANDSHAKE_SERVER_DONE''"
| "type_name DATA_REQUEST = u ''DATA_REQUEST''"
| "type_name DATA_RESPONSE = u ''DATA_RESPONSE''"
| "type_name ERROR = u ''ERROR''"

definition all_types :: "message_type list" where
  "all_types = [HANDSHAKE_CLIENT_HELLO, HANDSHAKE_SERVER_HELLO, HANDSHAKE_CLIENT_RESPONSE,
     HANDSHAKE_SERVER_DONE, DATA_REQUEST, DATA_RESPONSE, ERROR]"

text \<open>\<open>MessageType(b)\<close>: a \<open>ValueError\<close> for a code that names no member.\<close>

definition bad_type_error :: "nat \<Rightarrow> pyexn" where
  "bad_type_error b = Raised ValueErrorC (str_nat b @ u '' is not a valid MessageType'')"

definition message_type_of :: "byte \<Rightarrow> pyexn + message_type" where
  "message_type_of b = of_option (bad_type_error (unat b)) (find (\<lambda>t. type_code t = unat b) all_types)"

definition type_byte :: "message_type \<Rightarrow> byte" where
  "type_byte t = of_nat (type_code t)"

lemma unat_type_byte [simp]: "unat (type_byte t) = type_code t"
  by (cases t) (simp_all add: type_byte_def)

lemma message_type_of_byte [simp]: "message_type_of (type_byte t) = Inr t"
  by (cases t) (simp_all add: message_type_of_def all_types_def)

interpretation type_codec: codec type_byte message_type_of "\<lambda>_. True"
  by unfold_locales (rule message_type_of_byte)

text \<open>\<open>IntEnum\<close> members are ordered by their codes.\<close>

lemma type_code_inject [simp]: "type_code s = type_code t \<longleftrightarrow> s = t"
  using type_codec.enc_inject [of s t] by (auto simp: type_byte_def)

instantiation message_type :: linorder
begin

definition less_eq_message_type :: "message_type \<Rightarrow> message_type \<Rightarrow> bool" where
  "s \<le> t \<longleftrightarrow> type_code s \<le> type_code t"

definition less_message_type :: "message_type \<Rightarrow> message_type \<Rightarrow> bool" where
  "s < t \<longleftrightarrow> type_code s < type_code t"

instance
  by standard (auto simp: less_eq_message_type_def less_message_type_def)

end

subsection \<open>Reading an exact number of bytes\<close>

definition short_read_error :: "nat \<Rightarrow> nat \<Rightarrow> pyexn" where
  "short_read_error got n =
     Raised ConnectionErrorC
       (u ''Connection closed after receiving '' @ str_nat got @ u ''/'' @ str_nat n @ u '' bytes'')"

function recv_exact_loop :: "nat \<Rightarrow> bytes \<Rightarrow> net_event list \<Rightarrow> (pyexn + bytes) \<times> net_event list" where
  "recv_exact_loop n buf q =
     (if length buf < n then
        (case recv_event (n - length buf) q of
           (Inl e, q') \<Rightarrow> (Inl e, q')
         | (Inr chunk, q') \<Rightarrow>
             if chunk = [] then (Inl (short_read_error (length buf) n), q')
             else recv_exact_loop n (buf @ chunk) q')
      else (Inr buf, q))"
  by pat_completeness auto
termination
  by (relation "measure (\<lambda>(n, buf, _). n - length buf)") (auto simp flip: length_greater_0_conv)

declare recv_exact_loop.simps [simp del]

definition recv_exact :: "nat \<Rightarrow> (world, bytes) io" where
  "recv_exact n w = (case recv_exact_loop n [] (inq w) of (r, q) \<Rightarrow> (r, w\<lparr>inq := q\<rparr>))"

text \<open>What the loop returns depends on the byte stream, not on its segments.\<close>

lemma recv_exact_loop_enough:
  assumes "length buf \<le> n" and "n - length buf \<le> length (arriving q)"
  shows "\<exists>q'. recv_exact_loop n buf q = (Inr (buf @ take (n - length buf) (arriving q)), q') \<and>
    arriving q' = drop (n - length buf) (arriving q) \<and> afterwards q' = afterwards q"
  using assms
proof (induction n buf q rule: recv_exact_loop.induct)
  case (1 n buf q)
  show ?case
  proof (cases "length buf < n")
    case False
    with "1.prems" show ?thesis by (simp add: recv_exact_loop.simps [of n buf])
  next
    case True
    let ?r = "n - length buf"
    have r: "0 < ?r" using True by simp
    have ar: "arriving q \<noteq> []" using r "1.prems" by auto
    obtain m q1 where m: "0 < m" "m \<le> ?r" "m \<le> length (arriving q)"
      and ev: "recv_event ?r q = (Inr (take m (arriving q)), q1)"
      and q1: "arriving q1 = drop m (arriving q)" "afterwards q1 = afterwards q"
      by (rule recv_event_arriving [OF r ar])
    have ne: "take m (arriving q) \<noteq> []" using m ar by simp
    have len: "length (buf @ take m (arriving q)) = length buf + m" using m by simp
    have "\<exists>q'. recv_exact_loop n (buf @ take m (arriving q)) q1 =
        (Inr ((buf @ take m (arriving q)) @ take (?r - m) (arriving q1)), q') \<and>
        arriving q' = drop (?r - m) (arriving q1) \<and> afterwards q' = afterwards q1"
      using "1.IH" [OF True ev [symmetric] refl ne] "1.prems" m len q1 by simp
    moreover have "take m (arriving q) @ take (?r - m) (drop m (arriving q)) = take ?r (arriving q)"
      using m by (simp add: take_add [symmetric])
    ultimately show ?thesis
      using True ev ne m q1 by (simp add: recv_exact_loop.simps [of n buf])
  qed
qed

lemma recv_exact_loop_short:
  assumes "length buf \<le> n" and "length (arriving q) < n - length buf"
  shows "fst (recv_exact_loop n buf q) =
    Inl (case stream_end q of None \<Rightarrow> short_read_error (length buf + length (arriving q)) n
         | Some e \<Rightarrow> e)"
  using assms
proof (induction n buf q rule: recv_exact_loop.induct)
  case (1 n buf q)
  let ?r = "n - length buf"
  have lt: "length buf < n" using "1.prems" by simp
  show ?case
  proof (cases "arriving q = []")
    case True
    then have "fst (recv_event ?r q) = (case stream_end q of None \<Rightarrow> Inr [] | Some e \<Rightarrow> Inl e)"
      by (rule recv_event_end)
    then show ?thesis
      using lt True by (cases "recv_event ?r q"; cases "stream_end q")
        (simp_all add: recv_exact_loop.simps [of n buf])
  next
    case False
    have r: "0 < ?r" using lt by simp
    obtain m q1 where m: "0 < m" "m \<le> ?r" "m \<le> length (arriving q)"
      and ev: "recv_event ?r q = (Inr (take m (arriving q)), q1)"
      and q1: "arriving q1 = drop m (arriving q)" "afterwards q1 = afterwards q"
      by (rule recv_event_arriving [OF r False])
    have ne: "take m (arriving q) \<noteq> []" using m False by simp
    have "stream_end q1 = stream_end q" using q1 by (simp add: stream_end_def)
    then show ?thesis
      using "1.IH" [OF lt ev [symmetric] refl ne] "1.prems" m q1 lt ev ne
      by (cases "stream_end q") (simp_all add: recv_exact_loop.simps [of n buf])
  qed
qed

text \<open>The whole behaviour of \<open>recv_exact\<close> on a connection.\<close>

lemma recv_exact_enough:
  assumes "n \<le> length (arriving (inq w))"
  obtains q' where "recv_exact n w = (Inr (take n (arriving (inq w))), w\<lparr>inq := q'\<rparr>)"
    and "arriving q' = drop n (arriving (inq w))" and "afterwards q' = afterwards (inq w)"
  using recv_exact_loop_enough [of "[]" n "inq w"] assms by (auto simp: recv_exact_def)

lemma recv_exact_short:
  assumes "length (arriving (inq w)) < n"
  shows "fst (recv_exact n w) =
    Inl (case stream_end (inq w) of
           None \<Rightarrow> short_read_error (length (arriving (inq w))) n | Some e \<Rightarrow> e)"
  using recv_exact_loop_short [of "[]" n "inq w"] assms
  by (cases "stream_end (inq w)"; cases "recv_exact_loop n [] (inq w)")
    (simp_all add: recv_exact_def)

lemma recv_exact_frame: "snd (recv_exact n w) = w\<lparr>inq := inq (snd (recv_exact n w))\<rparr>"
  by (simp add: recv_exact_def split: prod.split)

subsection \<open>Sending and receiving frames\<close>

definition session_id_error :: "nat \<Rightarrow> pyexn" where
  "session_id_error n =
     Raised ValueErrorC
       (u ''session_id must be '' @ str_nat SESSION_ID_SIZE @ u '' bytes, got '' @ str_nat n)"

definition frame_large_error :: "nat \<Rightarrow> pyexn" where
  "frame_large_error n =
     Raised ValueErrorC (u ''Frame too large: '' @ str_nat n @ u '' > '' @ str_nat MAX_FRAME_SIZE)"

definition min_body :: nat where
  [wire_simps]: "min_body = 1 + SESSION_ID_SIZE + GCM_NONCE_SIZE + HMAC_DIGEST_SIZE"

definition frame_small_error :: "nat \<Rightarrow> pyexn" where
  "frame_small_error n =
     Raised ValueErrorC (u ''Frame too small: '' @ str_nat n @ u '' < '' @ str_nat min_body)"

definition hmac_error :: pyexn where
  "hmac_error = Raised ValueErrorC
     (u ''HMAC verification failed '' @ [8212] @ u '' frame may be tampered'')"

text \<open>\<open>mac_key or HANDSHAKE_HMAC_KEY\<close>: an absent or empty key is replaced.\<close>

definition effective_mac_key :: "bytes option \<Rightarrow> bytes" where
  "effective_mac_key mac_key =
     (case mac_key of None \<Rightarrow> HANDSHAKE_HMAC_KEY
      | Some k \<Rightarrow> if k = [] then HANDSHAKE_HMAC_KEY else k)"

text \<open>The bytes on the wire for a body: length, body, HMAC.\<close>

definition frame_bytes :: "bytes \<Rightarrow> bytes \<Rightarrow> bytes" where
  "frame_bytes body mac = be_bytes HEADER_SIZE (length body + HMAC_DIGEST_SIZE) @ body @ mac"

definition send_frame ::
    "('sk, 'pk) crypto_lib \<Rightarrow> message_type \<Rightarrow> bytes \<Rightarrow> bytes \<Rightarrow> bytes option \<Rightarrow> bytes option
       \<Rightarrow> (world, unit) io" where
  "send_frame L msg_type session_id payload enc_key mac_key =
     (if length session_id \<noteq> SESSION_ID_SIZE then raise (session_id_error (length session_id))
      else
        andThen
          (case enc_key of
             Some k \<Rightarrow> encrypt_payload L payload k
           | None \<Rightarrow> ret (payload, replicate GCM_NONCE_SIZE 0))
          (\<lambda>(enc_payload, nonce).
            let body = [type_byte msg_type] @ session_id @ nonce @ enc_payload;
                mac = compute_hmac body (effective_mac_key mac_key);
                total_len = length body + HMAC_DIGEST_SIZE
            in if MAX_FRAME_SIZE < total_len then raise (frame_large_error total_len)
               else sendall (frame_bytes body mac)))"

text \<open>Splitting and checking a frame once it has been read.\<close>

definition parse_frame ::
    "('sk, 'pk) crypto_lib \<Rightarrow> bytes option \<Rightarrow> bytes option \<Rightarrow> bytes
       \<Rightarrow> pyexn + message_type \<times> bytes \<times> bytes" where
  "parse_frame L enc_key mac_key raw =
     (let body = take (length raw - HMAC_DIGEST_SIZE) raw;
          received_mac = drop (length raw - HMAC_DIGEST_SIZE) raw
      in if \<not> verify_hmac body received_mac (effective_mac_key mac_key) then Inl hmac_error
         else
           bind_res (message_type_of (body ! 0)) (\<lambda>msg_type.
             let session_id = take SESSION_ID_SIZE (drop 1 body);
                 nonce = take GCM_NONCE_SIZE (drop (1 + SESSION_ID_SIZE) body);
                 enc_payload = drop (1 + SESSION_ID_SIZE + GCM_NONCE_SIZE) body
             in case enc_key of
                  Some k \<Rightarrow>
                    bind_res (decrypt_payload L enc_payload nonce k) (\<lambda>payload.
                      Inr (msg_type, session_id, payload))
                | None \<Rightarrow> Inr (msg_type, session_id, enc_payload)))"

definition recv_frame ::
    "('sk, 'pk) crypto_lib \<Rightarrow> bytes option \<Rightarrow> bytes option
       \<Rightarrow> (world, message_type \<times> bytes \<times> bytes) io" where
  "recv_frame L enc_key mac_key =
     andThen (recv_exact HEADER_SIZE) (\<lambda>header.
       let total_len = be_value header
       in if MAX_FRAME_SIZE < total_len then raise (frame_large_error total_len)
          else if total_len < min_body then raise (frame_small_error total_len)
          else andThen (recv_exact total_len) (\<lambda>raw.
            of_result (parse_frame L enc_key mac_key raw)))"

subsection \<open>Reading a whole frame\<close>

lemma length_frame_bytes [simp]: "length (frame_bytes body mac) = 4 + length body + length mac"
  by (simp add: frame_bytes_def wire_simps)

lemma frame_bytes_header:
  assumes "length body + HMAC_DIGEST_SIZE \<le> MAX_FRAME_SIZE"
  shows "be_value (take HEADER_SIZE (frame_bytes body mac @ rest)) = length body + HMAC_DIGEST_SIZE"
    and "drop HEADER_SIZE (frame_bytes body mac @ rest) = body @ mac @ rest"
  using assms by (simp_all add: frame_bytes_def wire_simps)

text \<open>A complete frame of admissible size is read as a whole and then parsed.\<close>

lemma recv_frame_complete:
  assumes arr: "arriving (inq v) = frame_bytes body mac @ rest"
    and mac: "length mac = HMAC_DIGEST_SIZE"
    and size: "min_body \<le> length body + HMAC_DIGEST_SIZE"
      "length body + HMAC_DIGEST_SIZE \<le> MAX_FRAME_SIZE"
  obtains q' where "recv_frame L ek mk v = (parse_frame L ek mk (body @ mac), v\<lparr>inq := q'\<rparr>)"
    and "arriving q' = rest" and "afterwards q' = afterwards (inq v)"
proof -
  note hdr = frame_bytes_header [OF size(2), of mac rest]
  have "HEADER_SIZE \<le> length (arriving (inq v))" by (simp add: arr wire_simps)
  then obtain h q1 where r1: "recv_exact HEADER_SIZE v = (Inr h, v\<lparr>inq := q1\<rparr>)"
    and hv: "be_value h = length body + HMAC_DIGEST_SIZE"
    and q1: "arriving q1 = body @ mac @ rest" "afterwards q1 = afterwards (inq v)"
    by (metis recv_exact_enough arr hdr)
  let ?n = "length body + HMAC_DIGEST_SIZE" and ?v1 = "v\<lparr>inq := q1\<rparr>"
  have "?n \<le> length (arriving (inq ?v1))" by (simp add: q1 mac)
  then obtain q2 where r2: "recv_exact ?n ?v1
        = (Inr (take ?n (arriving (inq ?v1))), ?v1\<lparr>inq := q2\<rparr>)"
    and q2: "arriving q2 = drop ?n (arriving (inq ?v1))" "afterwards q2 = afterwards (inq ?v1)"
    by (rule recv_exact_enough)
  have "recv_frame L ek mk v = (parse_frame L ek mk (body @ mac), v\<lparr>inq := q2\<rparr>)"
    using size r1 r2 by (simp add: recv_frame_def andThen_def hv Let_def of_result_def q1 mac)
  moreover have "arriving q2 = rest" "afterwards q2 = afterwards (inq v)"
    using q2 by (simp_all add: q1 mac)
  ultimately show ?thesis by (rule that)
qed

text \<open>Parsing a body with its HMAC.\<close>

lemma raw_split:
  assumes "length mac = HMAC_DIGEST_SIZE"
  shows "take (length (body @ mac) - HMAC_DIGEST_SIZE) (body @ mac) = body"
    and "drop (length (body @ mac) - HMAC_DIGEST_SIZE) (body @ mac) = mac"
  using assms by simp_all

lemma length_compute_hmac': "length (compute_hmac data key) = HMAC_DIGEST_SIZE"
  by (simp add: wire_simps)

lemma parse_frame_eq:
  assumes "length sid = SESSION_ID_SIZE" and "length nonce = GCM_NONCE_SIZE"
    and "body = [type_byte t] @ sid @ nonce @ c"
  shows "parse_frame L ek mk (body @ compute_hmac body (effective_mac_key mk)) =
    (case ek of None \<Rightarrow> Inr (t, sid, c)
     | Some k \<Rightarrow> bind_res (decrypt_payload L c nonce k) (\<lambda>p. Inr (t, sid, p)))"
proof -
  have "body ! 0 = type_byte t" "take SESSION_ID_SIZE (drop 1 body) = sid"
    "take GCM_NONCE_SIZE (drop (1 + SESSION_ID_SIZE) body) = nonce"
    "drop (1 + SESSION_ID_SIZE + GCM_NONCE_SIZE) body = c"
    using assms by simp_all
  then show ?thesis
    by (simp only: parse_frame_def Let_def raw_split [OF length_compute_hmac'] verify_compute_hmac
        message_type_of_byte bind_res_simps simp_thms if_False)
qed

lemma parse_frame_tampered:
  assumes "length mac = HMAC_DIGEST_SIZE" and "mac \<noteq> compute_hmac body (effective_mac_key mk)"
  shows "parse_frame L ek mk (body @ mac) = Inl hmac_error"
  using assms by (simp add: parse_frame_def verify_hmac_def Let_def)

lemma sendall_Inr:
  "sendall bs w = (Inr (), w') \<Longrightarrow> sent w' = sent w @ bs"
  by (auto simp: sendall_def split: list.splits option.splits)

lemma encrypt_payload_Inr:
  assumes "encrypt_payload L p k w = (Inr (c, nonce), w')"
  shows "length k = AES_KEY_SIZE" and "length nonce = GCM_NONCE_SIZE" and "sent w' = sent w"
    and "c = aesgcm_encrypt L k nonce p"
  using assms
  by (auto simp: encrypt_payload_def raise_def andThen_def urandom_def ret_def split: if_splits)

lemma send_frame_body:
  assumes "send_frame L t sid p ek mk w = (Inr (), w')"
  obtains body nonce c where "body = [type_byte t] @ sid @ nonce @ c"
    and "length sid = SESSION_ID_SIZE" and "length nonce = GCM_NONCE_SIZE"
    and "length body + HMAC_DIGEST_SIZE \<le> MAX_FRAME_SIZE"
    and "sent w' = sent w @ frame_bytes body (compute_hmac body (effective_mac_key mk))"
    and "case ek of None \<Rightarrow> c = p
         | Some k \<Rightarrow> length k = AES_KEY_SIZE \<and> c = aesgcm_encrypt L k nonce p"
proof -
  let ?enc = "case ek of Some k \<Rightarrow> encrypt_payload L p k | None \<Rightarrow> ret (p, replicate GCM_NONCE_SIZE 0)"
  let ?body = "\<lambda>nonce c. [type_byte t] @ sid @ nonce @ c"
  let ?mac = "\<lambda>body. compute_hmac body (effective_mac_key mk)"
  have sid: "length sid = SESSION_ID_SIZE"
    using assms by (auto simp: send_frame_def raise_def split: if_splits)
  let ?rest = "\<lambda>(c, nonce).
      if MAX_FRAME_SIZE < length (?body nonce c) + HMAC_DIGEST_SIZE
      then raise (frame_large_error (length (?body nonce c) + HMAC_DIGEST_SIZE))
      else sendall (frame_bytes (?body nonce c) (?mac (?body nonce c)))"
  have "andThen ?enc ?rest w = (Inr (), w')"
    using assms by (simp only: send_frame_def Let_def sid simp_thms if_False)
  then obtain x w1 where "?enc w = (Inr x, w1)" "?rest x w1 = (Inr (), w')"
    by (rule andThen_InrE)
  moreover obtain c nonce where "x = (c, nonce)" by force
  ultimately have enc: "?enc w = (Inr (c, nonce), w1)" and snd: "?rest (c, nonce) w1 = (Inr (), w')"
    by simp_all
  have size: "length (?body nonce c) + HMAC_DIGEST_SIZE \<le> MAX_FRAME_SIZE"
  proof (rule ccontr)
    assume "\<not> ?thesis"
    then show False using snd by (simp add: raise_def)
  qed
  then have "\<not> MAX_FRAME_SIZE < length (?body nonce c) + HMAC_DIGEST_SIZE" by simp
  then have "sendall (frame_bytes (?body nonce c) (?mac (?body nonce c))) w1 = (Inr (), w')"
    using snd by (simp only: prod.case if_False)
  then have snt: "sent w' = sent w1 @ frame_bytes (?body nonce c) (?mac (?body nonce c))"
    by (rule sendall_Inr)
  show ?thesis
  proof (cases ek)
    case None
    with enc have "nonce = replicate GCM_NONCE_SIZE 0" "c = p" "w1 = w" by (auto simp: ret_def)
    with size snt sid None show ?thesis by (intro that [of "?body nonce c" nonce c]) simp_all
  next
    case (Some k)
    with enc have "encrypt_payload L p k w = (Inr (c, nonce), w1)" by simp
    from encrypt_payload_Inr [OF this] size snt sid Some show ?thesis
      by (intro that [of "?body nonce c" nonce c]) simp_all
  qed
qed

subsection \<open>What a receiver accepts\<close>

text \<open>
  The abstract frame format: \<open>f\<close> carries the message \<open>(t, sid, p)\<close> under the two keys.
\<close>

definition carries ::
    "('sk, 'pk) crypto_lib \<Rightarrow> bytes option \<Rightarrow> bytes option \<Rightarrow> message_type \<times> bytes \<times> bytes
       \<Rightarrow> bytes \<Rightarrow> bool" where
  "carries L ek mk m f \<longleftrightarrow>
     (\<exists>t sid p nonce c body. m = (t, sid, p) \<and> body = [type_byte t] @ sid @ nonce @ c \<and>
        length sid = SESSION_ID_SIZE \<and> length nonce = GCM_NONCE_SIZE \<and>
        length body + HMAC_DIGEST_SIZE \<le> MAX_FRAME_SIZE \<and>
        f = frame_bytes body (compute_hmac body (effective_mac_key mk)) \<and>
        (case ek of None \<Rightarrow> c = p
         | Some k \<Rightarrow> length k = AES_KEY_SIZE \<and> aesgcm_decrypt L k nonce c = Some p))"

lemma carriesE:
  assumes "carries L ek mk (t, sid, p) f"
  obtains nonce c body where "body = [type_byte t] @ sid @ nonce @ c"
    and "length sid = SESSION_ID_SIZE" and "length nonce = GCM_NONCE_SIZE"
    and "min_body \<le> length body + HMAC_DIGEST_SIZE"
    and "length body + HMAC_DIGEST_SIZE \<le> MAX_FRAME_SIZE"
    and "f = frame_bytes body (compute_hmac body (effective_mac_key mk))"
    and "parse_frame L ek mk (body @ compute_hmac body (effective_mac_key mk)) = Inr (t, sid, p)"
proof -
  obtain nonce c body where b: "body = [type_byte t] @ sid @ nonce @ c"
    and len: "length sid = SESSION_ID_SIZE" "length nonce = GCM_NONCE_SIZE"
    and size: "length body + HMAC_DIGEST_SIZE \<le> MAX_FRAME_SIZE"
    and f: "f = frame_bytes body (compute_hmac body (effective_mac_key mk))"
    and dec: "case ek of None \<Rightarrow> c = p
         | Some k \<Rightarrow> length k = AES_KEY_SIZE \<and> aesgcm_decrypt L k nonce c = Some p"
    using assms unfolding carries_def by blast
  have "min_body \<le> length body + HMAC_DIGEST_SIZE" using b len by (simp add: wire_simps)
  moreover have "parse_frame L ek mk (body @ compute_hmac body (effective_mac_key mk)) = Inr (t, sid, p)"
    unfolding parse_frame_eq [OF len b] using dec len
    by (auto simp: decrypt_payload_def split: option.splits)
  ultimately show ?thesis using that b len size f by blast
qed

lemma carries_received:
  assumes "carries L ek mk m f" and "arriving (inq v) = f @ rest"
  obtains q' where "recv_frame L ek mk v = (Inr m, v\<lparr>inq := q'\<rparr>)"
    and "arriving q' = rest" and "afterwards q' = afterwards (inq v)"
proof -
  obtain t sid p where m: "m = (t, sid, p)" by (cases m)
  obtain nonce c body where size: "min_body \<le> length body + HMAC_DIGEST_SIZE"
      "length body + HMAC_DIGEST_SIZE \<le> MAX_FRAME_SIZE"
    and f: "f = frame_bytes body (compute_hmac body (effective_mac_key mk))"
    and parse: "parse_frame L ek mk (body @ compute_hmac body (effective_mac_key mk)) = Inr (t, sid, p)"
    using carriesE [OF assms(1) [unfolded m]] by metis
  obtain q' where "recv_frame L ek mk v =
      (parse_frame L ek mk (body @ compute_hmac body (effective_mac_key mk)), v\<lparr>inq := q'\<rparr>)"
    and "arriving q' = rest" and "afterwards q' = afterwards (inq v)"
    by (rule recv_frame_complete [OF assms(2) [unfolded f] length_compute_hmac' size])
  then show ?thesis by (intro that [of q']) (simp_all only: parse m)
qed

lemma be_bytes_be_value: "be_bytes (length bs) (be_value bs) = bs"
proof (induction bs rule: rev_induct)
  case (snoc b bs)
  have "(256 * be_value bs + unat b) div 256 = be_value bs"
    "(256 * be_value bs + unat b) mod 256 = unat b"
    using unat_byte_less [of b] by simp_all
  with snoc show ?case by (simp add: be_value_append)
qed simp

lemma recv_exact_Inr:
  assumes "recv_exact n w = (Inr bs, w')"
  shows "length bs = n" and "arriving (inq w) = bs @ arriving (inq w')"
    and "afterwards (inq w') = afterwards (inq w)" and "w' = w\<lparr>inq := inq w'\<rparr>"
proof -
  have n: "n \<le> length (arriving (inq w))"
    using recv_exact_short [of w n] assms by (cases "stream_end (inq w)") force+
  obtain q' where "recv_exact n w = (Inr (take n (arriving (inq w))), w\<lparr>inq := q'\<rparr>)"
    and "arriving q' = drop n (arriving (inq w))" "afterwards q' = afterwards (inq w)"
    using recv_exact_enough [OF n] by blast
  with assms n show "length bs = n" and "arriving (inq w) = bs @ arriving (inq w')"
    and "afterwards (inq w') = afterwards (inq w)" and "w' = w\<lparr>inq := inq w'\<rparr>"
    by auto
qed

lemma inq_update_chain:
  "w1 = v\<lparr>inq := q1\<rparr> \<Longrightarrow> v' = w1\<lparr>inq := q\<rparr> \<Longrightarrow> v' = v\<lparr>inq := q\<rparr>"
  by simp

lemma message_type_of_Inr: "message_type_of b = Inr t \<longleftrightarrow> b = type_byte t"
proof
  assume "message_type_of b = Inr t"
  then have "type_code t = unat b"
    by (auto simp: message_type_of_def find_Some_iff)
  then have "of_nat (type_code t) = b" by simp
  then show "b = type_byte t" by (simp add: type_byte_def)
qed simp

lemma parse_frame_Inr:
  assumes parse: "parse_frame L ek mk raw = Inr (t, sid, p)" and raw: "min_body \<le> length raw"
  obtains nonce c body where "body = [type_byte t] @ sid @ nonce @ c"
    and "length sid = SESSION_ID_SIZE" and "length nonce = GCM_NONCE_SIZE"
    and "raw = body @ compute_hmac body (effective_mac_key mk)"
    and "case ek of None \<Rightarrow> c = p
         | Some k \<Rightarrow> length k = AES_KEY_SIZE \<and> aesgcm_decrypt L k nonce c = Some p"
proof -
  define body where "body = take (length raw - HMAC_DIGEST_SIZE) raw"
  define nonce where "nonce = take GCM_NONCE_SIZE (drop (1 + SESSION_ID_SIZE) body)"
  define c where "c = drop (1 + SESSION_ID_SIZE + GCM_NONCE_SIZE) body"
  note parse' = parse [unfolded parse_frame_def Let_def, folded body_def, folded nonce_def c_def]
  have "drop (length raw - HMAC_DIGEST_SIZE) raw = compute_hmac body (effective_mac_key mk)"
    using parse' by (simp add: verify_hmac_def split: if_splits)
  then have eq: "raw = body @ compute_hmac body (effective_mac_key mk)"
    unfolding body_def by (metis append_take_drop_id)
  have len: "29 \<le> length body" using raw by (simp add: body_def wire_simps)
  have *: "bind_res (message_type_of (body ! 0)) (\<lambda>msg_type.
      case ek of Some k \<Rightarrow> bind_res (decrypt_payload L c nonce k)
                             (\<lambda>p. Inr (msg_type, take SESSION_ID_SIZE (drop 1 body), p))
      | None \<Rightarrow> Inr (msg_type, take SESSION_ID_SIZE (drop 1 body), c)) = Inr (t, sid, p)"
    using parse' by (simp only: sum.distinct split: if_splits)
  then have t: "body ! 0 = type_byte t" and sid: "sid = take SESSION_ID_SIZE (drop 1 body)"
    by (auto simp: bind_res_eq_Inr_iff message_type_of_Inr split: option.splits)
  have dec: "case ek of None \<Rightarrow> c = p
         | Some k \<Rightarrow> length k = AES_KEY_SIZE \<and> aesgcm_decrypt L k nonce c = Some p"
    using * by (auto simp: bind_res_eq_Inr_iff decrypt_payload_def split: option.splits if_splits)
  have "body = body ! 0 # drop 1 body" using len by (cases body) simp_all
  also have "drop 1 body = sid @ drop (1 + SESSION_ID_SIZE) body"
    unfolding sid by (metis append_take_drop_id drop_drop add.commute)
  also have "drop (1 + SESSION_ID_SIZE) body = nonce @ c"
    unfolding nonce_def c_def by (metis append_take_drop_id drop_drop add.commute)
  finally have "body = [type_byte t] @ sid @ nonce @ c" by (simp add: t)
  moreover have "length sid = SESSION_ID_SIZE" "length nonce = GCM_NONCE_SIZE"
    using len by (simp_all add: sid nonce_def wire_simps)
  ultimately show ?thesis using that eq dec by blast
qed

lemma recv_frame_Inr:
  assumes "recv_frame L ek mk v = (Inr m, v')"
  obtains f where "carries L ek mk m f" and "arriving (inq v) = f @ arriving (inq v')"
    and "afterwards (inq v') = afterwards (inq v)" and "v' = v\<lparr>inq := inq v'\<rparr>"
proof -
  obtain t sid p where m: "m = (t, sid, p)" by (cases m)
  obtain h w1 where r1: "recv_exact HEADER_SIZE v = (Inr h, w1)"
    and s1: "(if MAX_FRAME_SIZE < be_value h then raise (frame_large_error (be_value h))
       else if be_value h < min_body then raise (frame_small_error (be_value h))
       else andThen (recv_exact (be_value h)) (\<lambda>raw. of_result (parse_frame L ek mk raw))) w1
       = (Inr m, v')"
    using assms unfolding recv_frame_def Let_def by (rule andThen_InrE)
  have size: "be_value h \<le> MAX_FRAME_SIZE" "min_body \<le> be_value h"
    using s1 by (auto simp: raise_def split: if_splits)
  then have "andThen (recv_exact (be_value h)) (\<lambda>raw. of_result (parse_frame L ek mk raw)) w1
       = (Inr m, v')"
    using s1 by simp
  then obtain raw where r2: "recv_exact (be_value h) w1 = (Inr raw, v')"
    and parse: "parse_frame L ek mk raw = Inr m"
    by (rule andThen_InrE) (auto simp: of_result_def)
  note r1 = recv_exact_Inr [OF r1] and r2 = recv_exact_Inr [OF r2]
  have min: "min_body \<le> length raw" using size r2(1) by simp
  obtain nonce c body where b: "body = [type_byte t] @ sid @ nonce @ c"
    and len: "length sid = SESSION_ID_SIZE" "length nonce = GCM_NONCE_SIZE"
    and raw: "raw = body @ compute_hmac body (effective_mac_key mk)"
    and dec: "case ek of None \<Rightarrow> c = p
         | Some k \<Rightarrow> length k = AES_KEY_SIZE \<and> aesgcm_decrypt L k nonce c = Some p"
    by (rule parse_frame_Inr [OF parse [unfolded m] min])
  have blen: "length body + HMAC_DIGEST_SIZE = be_value h"
    using r2(1) raw by (simp add: wire_simps)
  let ?f = "frame_bytes body (compute_hmac body (effective_mac_key mk))"
  have "h = be_bytes HEADER_SIZE (be_value h)" using be_bytes_be_value [of h] r1(1) by simp
  then have "?f = h @ raw" using blen raw by (simp add: frame_bytes_def)
  then have "arriving (inq v) = ?f @ arriving (inq v')" using r1(2) r2(2) by simp
  moreover have "carries L ek mk m ?f"
    unfolding carries_def using m b len size(1) [folded blen] dec by blast
  moreover have "v' = v\<lparr>inq := inq v'\<rparr>" by (rule inq_update_chain [OF r1(4) r2(4)])
  ultimately show ?thesis using that r1(3) r2(3) by simp
qed

lemma send_frame_carries:
  assumes "ek = None \<or> aead_ok L" and "send_frame L t sid p ek mk w = (Inr (), w')"
  obtains f where "carries L ek mk (t, sid, p) f" and "sent w' = sent w @ f"
proof -
  obtain body nonce c where b: "body = [type_byte t] @ sid @ nonce @ c"
    and len: "length sid = SESSION_ID_SIZE" "length nonce = GCM_NONCE_SIZE"
    and size: "length body + HMAC_DIGEST_SIZE \<le> MAX_FRAME_SIZE"
    and snt: "sent w' = sent w @ frame_bytes body (compute_hmac body (effective_mac_key mk))"
    and enc: "case ek of None \<Rightarrow> c = p
         | Some k \<Rightarrow> length k = AES_KEY_SIZE \<and> c = aesgcm_encrypt L k nonce p"
    using send_frame_body [OF assms(2)] .
  have "case ek of None \<Rightarrow> c = p
         | Some k \<Rightarrow> length k = AES_KEY_SIZE \<and> aesgcm_decrypt L k nonce c = Some p"
    using enc assms(1) len by (auto simp: aead_okD split: option.splits)
  then have "carries L ek mk (t, sid, p) (frame_bytes body (compute_hmac body (effective_mac_key mk)))"
    unfolding carries_def using b len size by blast
  with snt show ?thesis using that by blast
qed

text \<open>
  The frame an encrypted send puts on the wire, determined by the payload, the keys and the
  next random bytes; without a fault it is sent as a whole.
\<close>

definition sealed_frame ::
    "('sk, 'pk) crypto_lib \<Rightarrow> bytes \<Rightarrow> bytes \<Rightarrow> world \<Rightarrow> message_type \<times> bytes \<times> bytes \<Rightarrow> bytes" where
  "sealed_frame L k mk w m =
     (let (t, sid, p) = m; nonce = map (rnd w) [rnd_pos w ..< rnd_pos w + GCM_NONCE_SIZE];
          body = [type_byte t] @ sid @ nonce @ aesgcm_encrypt L k nonce p
      in frame_bytes body (compute_hmac body (effective_mac_key (Some mk))))"

text \<open>The largest payload of a frame: 77 bytes are type, session id, nonce, tag and HMAC.\<close>

definition payload_fits :: "bytes \<Rightarrow> bool" where
  "payload_fits p \<longleftrightarrow> length p + 77 \<le> MAX_FRAME_SIZE"

lemma sealed_frame_sent:
  assumes "aead_ok L" and "send_faults w = []" and "length sid = SESSION_ID_SIZE"
    and "length k = AES_KEY_SIZE" and "payload_fits p"
  shows "send_frame L t sid p (Some k) (Some mk) w
      = (Inr (), w\<lparr>rnd_pos := rnd_pos w + GCM_NONCE_SIZE, sent := sent w @ sealed_frame L k mk w (t, sid, p)\<rparr>)"
    and "carries L (Some k) (Some mk) (t, sid, p) (sealed_frame L k mk w (t, sid, p))"
proof -
  let ?n = "map (rnd w) [rnd_pos w ..< rnd_pos w + GCM_NONCE_SIZE]"
  have "length (aesgcm_encrypt L k ?n p) = length p + 16"
    using assms(1,4) by (simp add: aead_okD)
  then have fits: "\<not> MAX_FRAME_SIZE < length ([type_byte t] @ sid @ ?n @ aesgcm_encrypt L k ?n p) + HMAC_DIGEST_SIZE"
    using assms(3,5) by (simp add: payload_fits_def wire_simps)
  show run: "send_frame L t sid p (Some k) (Some mk) w
      = (Inr (), w\<lparr>rnd_pos := rnd_pos w + GCM_NONCE_SIZE, sent := sent w @ sealed_frame L k mk w (t, sid, p)\<rparr>)"
    using fits assms(2,3)
    by (simp add: send_frame_def andThen_def encrypt_payload_eq [OF assms(4)] Let_def sendall_def
        sealed_frame_def)
  show "carries L (Some k) (Some mk) (t, sid, p) (sealed_frame L k mk w (t, sid, p))"
    using send_frame_carries [OF disjI2 [OF assms(1)] run] by auto
qed

end
