(* ===== verification/Frame_Link.thy ===== *)
theory Frame_Link
  imports Protocol
begin

text \<open>
  The frame layer as the rest of the program uses it.  The locale \<open>frame_link\<close> is the
  contract of a sending and a receiving operation on the two ends of a TCP connection;
  in-order delivery of any number of messages is proved from it once, and \<open>send_frame\<close> with
  \<open>recv_frame\<close> is its instance, in clear and encrypted.  The properties of the frame
  format follow.
\<close>

subsection \<open>Links\<close>

fun send_all :: "('m \<Rightarrow> (world, unit) io) \<Rightarrow> 'm list \<Rightarrow> (world, unit) io" where
  "send_all tx [] = ret ()"
| "send_all tx (m # ms) = andThen (tx m) (\<lambda>_. send_all tx ms)"

fun recv_many :: "nat \<Rightarrow> (world, 'm) io \<Rightarrow> (world, 'm list) io" where
  "recv_many 0 rx = ret []"
| "recv_many (Suc n) rx = andThen rx (\<lambda>m. andThen (recv_many n rx) (\<lambda>ms. ret (m # ms)))"

locale frame_link =
  fixes tx_op :: "'m \<Rightarrow> (world, unit) io"
    and rx_op :: "(world, 'm) io"
    and wire :: "'m \<Rightarrow> bytes \<Rightarrow> bool"
    and usable :: bool
  assumes tx_wire: "usable \<Longrightarrow> tx_op m w = (Inr (), w') \<Longrightarrow>
      \<exists>f. wire m f \<and> sent w' = sent w @ f"
    and rx_wire: "wire m f \<Longrightarrow> arriving (inq v) = f @ rest \<Longrightarrow>
      \<exists>q'. rx_op v = (Inr m, v\<lparr>inq := q'\<rparr>) \<and> arriving q' = rest \<and>
           afterwards q' = afterwards (inq v)"
begin

fun wires :: "'m list \<Rightarrow> bytes \<Rightarrow> bool" where
  "wires [] f \<longleftrightarrow> f = []"
| "wires (m # ms) f \<longleftrightarrow> (\<exists>g h. wire m g \<and> wires ms h \<and> f = g @ h)"

lemma send_all_wires:
  "usable \<Longrightarrow> send_all tx_op ms w = (Inr (), w') \<Longrightarrow> \<exists>f. wires ms f \<and> sent w' = sent w @ f"
proof (induction ms arbitrary: w)
  case (Cons m ms)
  obtain w1 where 1: "tx_op m w = (Inr (), w1)" and 2: "send_all tx_op ms w1 = (Inr (), w')"
    using Cons.prems(2) by (auto elim: andThen_InrE)
  obtain g where g: "wire m g" "sent w1 = sent w @ g" using tx_wire [OF Cons.prems(1) 1] by blast
  obtain h where h: "wires ms h" "sent w' = sent w1 @ h" using Cons.IH [OF Cons.prems(1) 2] by blast
  have "wires (m # ms) (g @ h)" using g h by auto
  moreover have "sent w' = sent w @ (g @ h)" using g h by simp
  ultimately show ?case by blast
qed (simp add: ret_def)

lemma recv_many_wires:
  "wires ms f \<Longrightarrow> arriving (inq v) = f @ rest \<Longrightarrow>
     \<exists>q'. recv_many (length ms) rx_op v = (Inr ms, v\<lparr>inq := q'\<rparr>) \<and> arriving q' = rest \<and>
          afterwards q' = afterwards (inq v)"
proof (induction ms arbitrary: f v)
  case Nil
  then show ?case by (intro exI [of _ "inq v"]) (simp add: ret_def)
next
  case (Cons m ms)
  obtain g h where "wire m g" and h: "wires ms h" and f: "f = g @ h" using Cons.prems(1) by auto
  then obtain q1 where 1: "rx_op v = (Inr m, v\<lparr>inq := q1\<rparr>)" "arriving q1 = h @ rest"
      "afterwards q1 = afterwards (inq v)"
    using rx_wire [of m g v "h @ rest"] Cons.prems(2) by auto
  then obtain q2 where 2: "recv_many (length ms) rx_op (v\<lparr>inq := q1\<rparr>) = (Inr ms, v\<lparr>inq := q2\<rparr>)"
      "arriving q2 = rest" "afterwards q2 = afterwards q1"
    using Cons.IH [OF h, of "v\<lparr>inq := q1\<rparr>"] by auto
  then show ?case using 1 by (intro exI [of _ q2]) (simp add: andThen_def ret_def)
qed

text \<open>Everything sent arrives, once and in order, however the stream is segmented.\<close>

lemma delivered_in_order:
  assumes "usable" and "send_all tx_op ms w = (Inr (), w')"
  shows "\<exists>f. sent w' = sent w @ f \<and>
    (\<forall>v rest. arriving (inq v) = f @ rest \<longrightarrow>
       (\<exists>q'. recv_many (length ms) rx_op v = (Inr ms, v\<lparr>inq := q'\<rparr>) \<and> arriving q' = rest))"
proof -
  obtain f where f: "wires ms f" and s: "sent w' = sent w @ f"
    using send_all_wires [OF assms] by blast
  have "\<exists>q'. recv_many (length ms) rx_op v = (Inr ms, v\<lparr>inq := q'\<rparr>) \<and> arriving q' = rest"
    if "arriving (inq v) = f @ rest" for v rest
    using recv_many_wires [OF f that] by blast
  with s show ?thesis by blast
qed

end

interpretation tunnel_link: frame_link
  "\<lambda>(t, sid, p). send_frame L t sid p ek mk" "recv_frame L ek mk" "carries L ek mk"
  "ek = None \<or> aead_ok L"
  for L :: "('sk, 'pk) crypto_lib" and ek mk
proof unfold_locales
  fix m :: "message_type \<times> bytes \<times> bytes" and w w'
  assume ok: "ek = None \<or> aead_ok L"
    and "(case m of (t, sid, p) \<Rightarrow> send_frame L t sid p ek mk) w = (Inr (), w')"
  then have "send_frame L (fst m) (fst (snd m)) (snd (snd m)) ek mk w = (Inr (), w')"
    by (simp add: case_prod_beta)
  from send_frame_carries [OF ok this] show "\<exists>f. carries L ek mk m f \<and> sent w' = sent w @ f"
    by force
next
  fix m :: "message_type \<times> bytes \<times> bytes" and f rest and v :: world
  assume "carries L ek mk m f" "arriving (inq v) = f @ rest"
  then show "\<exists>q'. recv_frame L ek mk v = (Inr m, v\<lparr>inq := q'\<rparr>) \<and> arriving q' = rest \<and>
      afterwards q' = afterwards (inq v)"
    by (metis carries_received)
qed

subsection \<open>Refusals\<close>

lemma recv_exact_header:
  assumes "arriving (inq v) = be_bytes HEADER_SIZE n @ rest" and "n < 256 ^ HEADER_SIZE"
  obtains h q' where "recv_exact HEADER_SIZE v = (Inr h, v\<lparr>inq := q'\<rparr>)" and "be_value h = n"
    and "arriving q' = rest"
proof -
  have "HEADER_SIZE \<le> length (arriving (inq v))" by (simp add: assms(1))
  then obtain q' where "recv_exact HEADER_SIZE v
        = (Inr (take HEADER_SIZE (arriving (inq v))), v\<lparr>inq := q'\<rparr>)"
    and "arriving q' = drop HEADER_SIZE (arriving (inq v))"
    by (rule recv_exact_enough)
  moreover have "take HEADER_SIZE (arriving (inq v)) = be_bytes HEADER_SIZE n"
    "drop HEADER_SIZE (arriving (inq v)) = rest" by (simp_all add: assms(1))
  ultimately show ?thesis
    by (intro that [of "be_bytes HEADER_SIZE n" q']) (simp_all only: be_value_be_bytes [OF assms(2)])
qed

text \<open>The classes of exception \<open>recv_exact\<close> and \<open>recv_frame\<close> can raise.\<close>

lemma recv_exact_error:
  assumes "recv_exact n w = (Inl e, w')"
  shows "class_of e \<in> {ConnectionErrorC, ConnectionResetErrorC, TimeoutErrorC}"
proof -
  have short: "length (arriving (inq w)) < n"
  proof (rule ccontr)
    assume "\<not> ?thesis"
    then have "n \<le> length (arriving (inq w))" by simp
    then show False by (rule recv_exact_enough) (use assms in simp)
  qed
  have "e = (case stream_end (inq w) of
      None \<Rightarrow> short_read_error (length (arriving (inq w))) n | Some e \<Rightarrow> e)"
    using recv_exact_short [OF short] assms by simp
  moreover have "stream_end (inq w) \<in> {None, Some (Lib ConnectionResetErrorC), Some (Lib TimeoutErrorC)}"
    by (auto simp: stream_end_def split: list.split net_event.split)
  ultimately show ?thesis by (auto simp: short_read_error_def)
qed

lemma parse_frame_error:
  assumes "parse_frame L ek mk raw = Inl e"
  shows "class_of e \<in> {ValueErrorC, InvalidTagC}"
proof -
  have "class_of e \<in> {ValueErrorC, InvalidTagC}" if "decrypt_payload L c n k = Inl e" for c n k
    using that by (auto simp: decrypt_payload_def key_length_error_def nonce_length_error_def
        of_option_def split: if_splits option.splits)
  moreover have "class_of e = ValueErrorC" if "message_type_of b = Inl e" for b
    using that by (auto simp: message_type_of_def of_option_def bad_type_error_def split: option.splits)
  ultimately show ?thesis
    using assms by (auto simp: parse_frame_def Let_def hmac_error_def bind_res_def
        split: if_splits sum.splits option.splits)
qed

text \<open>A concrete environment for the witnesses.\<close>

definition world0 :: world where
  "world0 = \<lparr>inq = [], sent = [], send_faults = [], sock_timeout = None, sock_open = True,
     rnd = (\<lambda>n. of_nat n), rnd_pos = 0, clock = (\<lambda>_. Fin 17000000000 1), clock_pos = 0,
     salt_pos = 0\<rparr>"

subsection \<open>Properties of the frame layer\<close>

text \<open>
  C9. Frames sent on one end of a connection are received on the other, all of them, in order
  and unchanged (type, session id and decrypted payload), however TCP cuts the byte stream
  into segments; the receiver consumes exactly the bytes of those frames.
\<close>

theorem frames_delivered_in_order:
  assumes "ek = None \<or> aead_ok L"
    and "send_all (\<lambda>(t, sid, p). send_frame L t sid p ek mk) ms w = (Inr (), w')"
  shows "\<exists>f. sent w' = sent w @ f \<and>
    (\<forall>v rest. arriving (inq v) = f @ rest \<longrightarrow>
       (\<exists>q'. recv_many (length ms) (recv_frame L ek mk) v = (Inr ms, v\<lparr>inq := q'\<rparr>) \<and>
             arriving q' = rest))"
  by (rule tunnel_link.delivered_in_order [OF assms])

lemma send_frame_demo:
  assumes "length sid = 16" and "length p \<le> 1000" and "send_faults w = []"
  shows "\<exists>w'. send_frame model_lib t sid p (Some (replicate 32 1)) mk w = (Inr (), w') \<and>
    send_faults w' = []"
proof -
  let ?n = "map (rnd w) [rnd_pos w ..< rnd_pos w + GCM_NONCE_SIZE]"
  have "length (aesgcm_encrypt model_lib (replicate 32 1) ?n p) = length p + 16"
    by (rule aead_okD(2) [OF model_lib_ok(1)]) (simp_all add: wire_simps)
  then show ?thesis using assms
    by (simp add: send_frame_def andThen_def encrypt_payload_eq Let_def sendall_def wire_simps)
qed

theorem frames_delivered_in_order_witness:
  "\<exists>w' f. send_all (\<lambda>(t, sid, p). send_frame model_lib t sid p (Some (replicate 32 1)) (Some [1]))
       [(DATA_REQUEST, replicate 16 7, [1, 2, 3]), (ERROR, replicate 16 7, [])] world0 = (Inr (), w') \<and>
     sent w' = sent world0 @ f \<and>
     (\<exists>q'. recv_many 2 (recv_frame model_lib (Some (replicate 32 1)) (Some [1]))
             (world0\<lparr>inq := [Seg f, Stall]\<rparr>)
           = (Inr [(DATA_REQUEST, replicate 16 7, [1, 2, 3]), (ERROR, replicate 16 7, [])],
              world0\<lparr>inq := q'\<rparr>))"
proof -
  let ?tx = "\<lambda>(t, sid, p). send_frame model_lib t sid p (Some (replicate 32 1)) (Some [1])"
  let ?ms = "[(DATA_REQUEST, replicate 16 7, [1, 2, 3]), (ERROR, replicate 16 7, [])]
    :: (message_type \<times> bytes \<times> bytes) list"
  obtain w1 where 1: "?tx (?ms ! 0) world0 = (Inr (), w1)" "send_faults w1 = []"
    using send_frame_demo [of "replicate 16 7" "[1, 2, 3]" world0 DATA_REQUEST "Some [1]"]
    by (auto simp: world0_def)
  obtain w2 where 2: "?tx (?ms ! 1) w1 = (Inr (), w2)"
    using send_frame_demo [of "replicate 16 7" "[]" w1 ERROR "Some [1]"] 1 by auto
  have run: "send_all ?tx ?ms world0 = (Inr (), w2)"
    using 1 2 by (simp add: andThen_def ret_def)
  have "Some (replicate 32 1) = (None :: bytes option) \<or> aead_ok model_lib"
    by (simp add: model_lib_ok)
  from frames_delivered_in_order [OF this run] obtain f where f: "sent w2 = sent world0 @ f"
    and rx: "\<And>v rest. arriving (inq v) = f @ rest \<Longrightarrow>
       \<exists>q'. recv_many (length ?ms) (recv_frame model_lib (Some (replicate 32 1)) (Some [1])) v
            = (Inr ?ms, v\<lparr>inq := q'\<rparr>) \<and> arriving q' = rest" by blast
  have "arriving (inq (world0\<lparr>inq := [Seg f, Stall]\<rparr>)) = f @ []" by simp
  from rx [OF this] run f show ?thesis by (fastforce simp: numeral_2_eq_2)
qed

text \<open>
  C27. Soundness and completeness of \<open>recv_frame\<close>: it returns a message exactly when the
  stream starts with a frame that carries it, that is, the announced length, a body of
  admissible size made of type, session id, nonce and payload, and the HMAC of that body
  under the receiver's MAC key, with the payload decrypting to the message under the
  encryption key; what follows the frame is left in the stream.
\<close>

theorem recv_frame_accepts_iff:
  "(\<exists>v'. recv_frame L ek mk v = (Inr m, v') \<and> arriving (inq v') = rest) \<longleftrightarrow>
   (\<exists>f. carries L ek mk m f \<and> arriving (inq v) = f @ rest)"
proof
  assume "\<exists>v'. recv_frame L ek mk v = (Inr m, v') \<and> arriving (inq v') = rest"
  then obtain v' where "recv_frame L ek mk v = (Inr m, v')" "arriving (inq v') = rest" by blast
  then show "\<exists>f. carries L ek mk m f \<and> arriving (inq v) = f @ rest"
    by (blast elim: recv_frame_Inr)
next
  assume "\<exists>f. carries L ek mk m f \<and> arriving (inq v) = f @ rest"
  then obtain f where f: "carries L ek mk m f" "arriving (inq v) = f @ rest" by blast
  obtain q' where "recv_frame L ek mk v = (Inr m, v\<lparr>inq := q'\<rparr>)" and "arriving q' = rest"
    by (rule carries_received [OF f])
  then show "\<exists>v'. recv_frame L ek mk v = (Inr m, v') \<and> arriving (inq v') = rest" by simp
qed

lemma bad_mac_refused:
  assumes "arriving (inq v) = frame_bytes body mac @ rest"
    and "length mac = HMAC_DIGEST_SIZE"
    and "min_body \<le> length body + HMAC_DIGEST_SIZE"
    and "length body + HMAC_DIGEST_SIZE \<le> MAX_FRAME_SIZE"
    and "mac \<noteq> compute_hmac body (effective_mac_key mk)"
  shows "fst (recv_frame L ek mk v) = Inl hmac_error"
proof -
  obtain q' where "recv_frame L ek mk v = (parse_frame L ek mk (body @ mac), v\<lparr>inq := q'\<rparr>)"
    by (rule recv_frame_complete [OF assms(1-4)])
  then show ?thesis using parse_frame_tampered [OF assms(2,5)] by simp
qed

text \<open>
  C8. Integrity: a frame whose HMAC field is not the HMAC of its body under the receiver's
  key is refused with the \<open>HMAC verification failed\<close> error, whatever the body says; nothing of
  it is parsed or decrypted.
\<close>

theorem tampered_frame_rejected:
  assumes "arriving (inq v) = frame_bytes body mac @ rest"
    and "length mac = HMAC_DIGEST_SIZE"
    and "min_body \<le> length body + HMAC_DIGEST_SIZE"
    and "length body + HMAC_DIGEST_SIZE \<le> MAX_FRAME_SIZE"
    and "mac \<noteq> compute_hmac body (effective_mac_key mk)"
  shows "fst (recv_frame L ek mk v) = Inl hmac_error"
  by (rule bad_mac_refused [OF assms])

lemma map_Suc_neq: "xs \<noteq> [] \<Longrightarrow> map (\<lambda>b. b + 1) xs \<noteq> (xs :: bytes)"
  by (cases xs) simp_all

theorem tampered_frame_rejected_witness:
  "fst (recv_frame model_lib None None (world0\<lparr>inq := [Seg (frame_bytes (replicate 29 1)
      (map (\<lambda>b. b + 1) (compute_hmac (replicate 29 1) HANDSHAKE_HMAC_KEY)))]\<rparr>)) = Inl hmac_error"
  by (rule tampered_frame_rejected [where body = "replicate 29 1" and rest = "[]" and
        mac = "map (\<lambda>b. b + 1) (compute_hmac (replicate 29 1) HANDSHAKE_HMAC_KEY)"])
    (simp_all add: wire_simps effective_mac_key_def map_Suc_neq flip: length_greater_0_conv)

text \<open>
  C28. The size limits are enforced on the length field alone: a frame announcing more than
  \<open>MAX_FRAME_SIZE\<close> or less than the smallest frame is refused before a single byte of it is
  read, so the limit bounds what a peer can make the receiver buffer.
\<close>

theorem frame_size_enforced:
  assumes "arriving (inq v) = be_bytes HEADER_SIZE n @ rest" and "n < 2 ^ 32"
    and "MAX_FRAME_SIZE < n \<or> n < min_body"
  shows "\<exists>v'. recv_frame L ek mk v
      = (Inl (if MAX_FRAME_SIZE < n then frame_large_error n else frame_small_error n), v') \<and>
    arriving (inq v') = rest"
proof -
  have "n < 256 ^ HEADER_SIZE" using assms(2) by (simp add: wire_simps)
  with assms(1) obtain h q' where "recv_exact HEADER_SIZE v = (Inr h, v\<lparr>inq := q'\<rparr>)"
    "be_value h = n" "arriving q' = rest" by (rule recv_exact_header)
  with assms(3) show ?thesis
    by (auto simp: recv_frame_def andThen_def raise_def Let_def)
qed

theorem frame_size_enforced_witness:
  "\<exists>v'. recv_frame model_lib None None (world0\<lparr>inq := [Seg [255, 255, 255, 255, 1]]\<rparr>)
      = (Inl (frame_large_error 4294967295), v') \<and> arriving (inq v') = [1]"
  using frame_size_enforced [of "world0\<lparr>inq := [Seg [255, 255, 255, 255, 1]]\<rparr>" 4294967295 "[1]"
      model_lib None None]
  by (simp add: wire_simps be_bytes_4)

text \<open>
  C29. A frame that is cut short is never accepted: if the peer closes, resets or falls silent
  before the last byte of a frame, the receiver gets the exception for that and no message.
\<close>

theorem truncated_frame_rejected:
  assumes "carries L ek mk m f" and "k < length f" and "arriving (inq v) = take k f"
  shows "\<exists>e. fst (recv_frame L ek mk v) = Inl e \<and>
    class_of e = (case afterwards (inq v) of
        [] \<Rightarrow> ConnectionErrorC | Reset # _ \<Rightarrow> ConnectionResetErrorC | _ \<Rightarrow> TimeoutErrorC)"
proof -
  have short: "\<exists>e. fst (recv_exact n w) = Inl e \<and>
      class_of e = (case afterwards (inq v) of
        [] \<Rightarrow> ConnectionErrorC | Reset # _ \<Rightarrow> ConnectionResetErrorC | _ \<Rightarrow> TimeoutErrorC)"
    if "length (arriving (inq w)) < n" "afterwards (inq w) = afterwards (inq v)" for n w
    using recv_exact_short [OF that(1)] that(2)
    by (auto simp: stream_end_def short_read_error_def split: list.splits net_event.splits)
  obtain t sid p where m: "m = (t, sid, p)" by (cases m)
  obtain nonce c body where
      size: "min_body \<le> length body + HMAC_DIGEST_SIZE" "length body + HMAC_DIGEST_SIZE \<le> MAX_FRAME_SIZE"
    and f: "f = frame_bytes body (compute_hmac body (effective_mac_key mk))"
    using carriesE [OF assms(1) [unfolded m]] by blast
  show ?thesis
  proof (cases "k < HEADER_SIZE")
    case True
    then have "length (arriving (inq v)) < HEADER_SIZE" by (simp add: assms(3))
    from short [OF this refl] show ?thesis
      by (auto simp: recv_frame_def andThen_def split: prod.split)
  next
    case False
    let ?n = "length body + HMAC_DIGEST_SIZE"
    have "arriving (inq v) = be_bytes HEADER_SIZE ?n @ take (k - HEADER_SIZE) (drop HEADER_SIZE f)"
      using False by (simp add: assms(3) f frame_bytes_def)
    moreover have "?n < 256 ^ HEADER_SIZE" using size(2) by (simp add: wire_simps)
    ultimately obtain h q' where hd: "recv_exact HEADER_SIZE v = (Inr h, v\<lparr>inq := q'\<rparr>)"
      and h: "be_value h = ?n" and q': "arriving q' = take (k - HEADER_SIZE) (drop HEADER_SIZE f)"
      by (rule recv_exact_header)
    have "afterwards q' = afterwards (inq v)" using recv_exact_Inr(3) [OF hd] by simp
    moreover have "length (arriving q') < ?n"
      using assms(2) False by (simp add: q' f wire_simps)
    ultimately obtain e where "fst (recv_exact ?n (v\<lparr>inq := q'\<rparr>)) = Inl e" and
      "class_of e = (case afterwards (inq v) of
        [] \<Rightarrow> ConnectionErrorC | Reset # _ \<Rightarrow> ConnectionResetErrorC | _ \<Rightarrow> TimeoutErrorC)"
      using short [of "v\<lparr>inq := q'\<rparr>" ?n] by auto
    then show ?thesis using hd h size
      by (auto simp: recv_frame_def andThen_def Let_def split: prod.split)
  qed
qed

lemma carries_clear:
  assumes "length sid = SESSION_ID_SIZE" and "length p \<le> 1000"
  shows "carries L None mk (t, sid, p)
    (frame_bytes ([type_byte t] @ sid @ replicate GCM_NONCE_SIZE 0 @ p)
      (compute_hmac ([type_byte t] @ sid @ replicate GCM_NONCE_SIZE 0 @ p) (effective_mac_key mk)))"
proof -
  let ?n = "replicate GCM_NONCE_SIZE 0"
  have "length ([type_byte t] @ sid @ ?n @ p) + HMAC_DIGEST_SIZE \<le> MAX_FRAME_SIZE"
    using assms by (simp add: wire_simps)
  then show ?thesis
    unfolding carries_def using assms(1)
    by (intro exI [of _ t] exI [of _ sid] exI [of _ p] exI [of _ ?n]
        exI [of _ "[type_byte t] @ sid @ ?n @ p"] conjI refl) simp_all
qed

lemma arriving_single: "arriving (inq (w\<lparr>inq := [Seg bs]\<rparr>)) = bs"
  by simp

theorem truncated_frame_rejected_witness:
  "\<exists>e. fst (recv_frame model_lib None None (world0\<lparr>inq := [Seg (take 10
      (frame_bytes ([type_byte ERROR] @ replicate SESSION_ID_SIZE 0 @ replicate GCM_NONCE_SIZE 0 @ [])
        (compute_hmac ([type_byte ERROR] @ replicate SESSION_ID_SIZE 0 @ replicate GCM_NONCE_SIZE 0 @ [])
          (effective_mac_key None))))]\<rparr>)) = Inl e \<and> class_of e = ConnectionErrorC"
proof -
  let ?b = "[type_byte ERROR] @ replicate SESSION_ID_SIZE 0 @ replicate GCM_NONCE_SIZE 0 @ []"
  let ?f = "frame_bytes ?b (compute_hmac ?b (effective_mac_key None))"
  let ?v = "world0\<lparr>inq := [Seg (take 10 ?f)]\<rparr>"
  have "carries model_lib None None (ERROR, replicate SESSION_ID_SIZE 0, []) ?f"
    by (rule carries_clear) simp_all
  moreover have "10 < length ?f" by (simp add: wire_simps)
  moreover have "arriving (inq ?v) = take 10 ?f" by (rule arriving_single)
  ultimately have "\<exists>e. fst (recv_frame model_lib None None ?v) = Inl e \<and>
    class_of e = (case afterwards (inq ?v) of
        [] \<Rightarrow> ConnectionErrorC | Reset # _ \<Rightarrow> ConnectionResetErrorC | _ \<Rightarrow> TimeoutErrorC)"
    by (rule truncated_frame_rejected)
  then show ?thesis by simp
qed

text \<open>
  The exceptions a receiver must be ready for: besides the \<open>ConnectionError\<close> and \<open>ValueError\<close>
  that the function documents, the socket's timeout, and the cryptography package's
  \<open>InvalidTag\<close>, which is not a \<open>ValueError\<close>.
\<close>

lemma recv_frame_error_classes:
  assumes "fst (recv_frame L ek mk v) = Inl e"
  shows "class_of e \<in> {ConnectionErrorC, ConnectionResetErrorC, TimeoutErrorC, ValueErrorC, InvalidTagC}"
proof -
  obtain v' where "recv_frame L ek mk v = (Inl e, v')"
    using assms by (cases "recv_frame L ek mk v") simp
  then show ?thesis
    unfolding recv_frame_def andThen_def Let_def
    by (auto simp: raise_def of_result_def frame_large_error_def frame_small_error_def
        split: prod.splits sum.splits if_splits dest!: recv_exact_error parse_frame_error)
qed

lemma recv_frame_error_classes_instance:
  "\<exists>e. fst (recv_frame model_lib None None world0) = Inl e \<and>
     class_of e \<in> {ConnectionErrorC, ConnectionResetErrorC, TimeoutErrorC, ValueErrorC, InvalidTagC}"
proof -
  have "\<exists>e. fst (recv_frame model_lib None None world0) = Inl e"
  proof -
    have "length (arriving (inq world0)) < HEADER_SIZE" by (simp add: world0_def wire_simps)
    from recv_exact_short [OF this] obtain e where "fst (recv_exact HEADER_SIZE world0) = Inl e"
      by blast
    then show ?thesis by (auto simp: recv_frame_def andThen_def split: prod.split)
  qed
  then show ?thesis using recv_frame_error_classes by blast
qed

text \<open>
  The documented contract of \<open>recv_frame\<close> (\<open>ValueError\<close> on a corrupt frame) is not what the
  code does: a frame with a correct HMAC but a ciphertext that AES-GCM refuses raises
  \<open>InvalidTag\<close>, which no \<open>except ValueError\<close> or \<open>except ConnectionError\<close> clause catches.
\<close>

lemma corrupt_ciphertext_escapes_ValueError:
  assumes "body = [type_byte t] @ sid @ nonce @ c"
    and "length sid = SESSION_ID_SIZE" and "length nonce = GCM_NONCE_SIZE"
    and "length body + HMAC_DIGEST_SIZE \<le> MAX_FRAME_SIZE"
    and "length k = AES_KEY_SIZE" and "aesgcm_decrypt L k nonce c = None"
    and "arriving (inq v) = frame_bytes body (compute_hmac body (effective_mac_key mk)) @ rest"
  shows "\<exists>e. fst (recv_frame L (Some k) mk v) = Inl e \<and> class_of e = InvalidTagC \<and>
    \<not> catches ValueErrorC e \<and> \<not> catches ConnectionErrorC e"
proof -
  let ?mac = "compute_hmac body (effective_mac_key mk)"
  have min: "min_body \<le> length body + HMAC_DIGEST_SIZE" using assms(1-3) by (simp add: wire_simps)
  obtain q' where "recv_frame L (Some k) mk v = (parse_frame L (Some k) mk (body @ ?mac), v\<lparr>inq := q'\<rparr>)"
    by (rule recv_frame_complete [OF assms(7) length_compute_hmac' min assms(4)])
  moreover have "parse_frame L (Some k) mk (body @ ?mac) = Inl (Lib InvalidTagC)"
    using parse_frame_eq [OF assms(2,3,1), of L "Some k" mk] assms(3,5,6)
    by (simp add: decrypt_payload_def)
  ultimately show ?thesis by (simp add: is_subclass.simps)
qed

lemma corrupt_ciphertext_escapes_ValueError_instance:
  "\<exists>body e. fst (recv_frame model_lib (Some (replicate 32 1)) None (world0\<lparr>inq := [Seg
      (frame_bytes body (compute_hmac body HANDSHAKE_HMAC_KEY))]\<rparr>)) = Inl e \<and>
    class_of e = InvalidTagC"
proof -
  let ?c = "[] :: bytes" and ?k = "replicate 32 1 :: bytes"
  let ?body = "[type_byte DATA_REQUEST] @ replicate 16 0 @ replicate 12 0 @ ?c"
  have "aesgcm_decrypt model_lib ?k (replicate 12 0) ?c = None"
    by (simp add: model_lib_def flip: length_0_conv)
  then have "\<exists>e. fst (recv_frame model_lib (Some ?k) None (world0\<lparr>inq := [Seg
      (frame_bytes ?body (compute_hmac ?body (effective_mac_key None)))]\<rparr>)) = Inl e \<and>
      class_of e = InvalidTagC \<and> \<not> catches ValueErrorC e \<and> \<not> catches ConnectionErrorC e"
    by (intro corrupt_ciphertext_escapes_ValueError [where t = DATA_REQUEST and c = ?c and rest = "[]"
          and sid = "replicate 16 0" and nonce = "replicate 12 0", OF refl]) (simp_all add: wire_simps)
  then show ?thesis by (auto simp: effective_mac_key_def)
qed

lemma send_frame_Inl:
  assumes err: "send_frame L t sid p ek mk w = (Inl e, w')"
  shows "(\<exists>k fs bs. send_faults w = Some (e, k) # fs \<and> sent w' = sent w @ take k bs) \<or>
    (class_of e = ValueErrorC \<and> sent w' = sent w)"
proof (cases "length sid = SESSION_ID_SIZE")
  case False
  then show ?thesis using err by (auto simp: send_frame_def raise_def session_id_error_def)
next
  case sid: True
  let ?enc = "case ek of Some k \<Rightarrow> encrypt_payload L p k | None \<Rightarrow> ret (p, replicate GCM_NONCE_SIZE 0)"
  obtain r w1 where enc: "?enc w = (r, w1)" by force
  have w1: "sent w1 = sent w" "send_faults w1 = send_faults w"
    using enc by (auto simp: ret_def encrypt_payload_def raise_def andThen_def urandom_def
      split: option.splits if_splits)
  show ?thesis
  proof (cases r)
    case Inl
    have "class_of e' = ValueErrorC" if "r = Inl e'" for e'
      using enc that by (auto simp: ret_def encrypt_payload_def raise_def andThen_def urandom_def
        key_length_error_def split: option.splits if_splits)
    then show ?thesis using err sid enc Inl w1 by (auto simp: send_frame_def andThen_def)
  next
    case (Inr x)
    obtain c nonce where x: "x = (c, nonce)" by force
    let ?body = "[type_byte t] @ sid @ nonce @ c"
    let ?f = "frame_bytes ?body (compute_hmac ?body (effective_mac_key mk))"
    have fin: "(if MAX_FRAME_SIZE < length ?body + HMAC_DIGEST_SIZE
         then raise (frame_large_error (length ?body + HMAC_DIGEST_SIZE))
         else sendall ?f) w1 = (Inl e, w')"
      using err by (simp only: send_frame_def andThen_def Let_def sid enc Inr x simp_thms
          if_False prod.case sum.case)
    show ?thesis
    proof (cases "MAX_FRAME_SIZE < length ?body + HMAC_DIGEST_SIZE")
      case True
      then show ?thesis using fin w1 by (auto simp: raise_def frame_large_error_def)
    next
      case False
      then have "sendall ?f w1 = (Inl e, w')" using fin by (simp only: if_False)
      then show ?thesis using w1
        by (auto simp: sendall_def split: list.splits option.splits)
    qed
  qed
qed

text \<open>
  Every way \<open>send_frame\<close> can end: either it hands exactly one well-formed frame of at most
  \<open>MAX_FRAME_SIZE\<close> bytes (after the length field) to the socket, or it raises; a wrong session
  id, a wrong key length and an oversized frame raise \<open>ValueError\<close> before anything is sent.
\<close>

lemma send_frame_all_or_error:
  "case send_frame L t sid p ek mk w of
     (Inr _, w') \<Rightarrow> \<exists>body. 61 \<le> length body + 32 \<and> length body + 32 \<le> 16777216 \<and>
        body ! 0 = type_byte t \<and>
        sent w' = sent w @ be_bytes 4 (length body + 32) @ body
                    @ compute_hmac body (effective_mac_key mk)
   | (Inl e, w') \<Rightarrow> (\<exists>k fs bs. send_faults w = Some (e, k) # fs \<and> sent w' = sent w @ take k bs) \<or>
        (class_of e = ValueErrorC \<and> sent w' = sent w)"
proof (cases "send_frame L t sid p ek mk w")
  case (Pair r w')
  show ?thesis
  proof (cases r)
    case (Inr x)
    then have "send_frame L t sid p ek mk w = (Inr (), w')" using Pair by simp
    then obtain body nonce c where "body = [type_byte t] @ sid @ nonce @ c"
      "length sid = SESSION_ID_SIZE" "length nonce = GCM_NONCE_SIZE"
      "length body + HMAC_DIGEST_SIZE \<le> MAX_FRAME_SIZE"
      "sent w' = sent w @ frame_bytes body (compute_hmac body (effective_mac_key mk))"
      by (rule send_frame_body)
    then have "61 \<le> length body + 32" "length body + 32 \<le> 16777216" "body ! 0 = type_byte t"
      "sent w' = sent w @ be_bytes 4 (length body + 32) @ body
                    @ compute_hmac body (effective_mac_key mk)"
      by (simp_all add: frame_bytes_def wire_simps)
    then show ?thesis unfolding Pair Inr sum.case prod.case by blast
  next
    case (Inl e)
    then show ?thesis using Pair send_frame_Inl [of L t sid p ek mk w e w'] by simp
  qed
qed

end
