(* ===== verification/Py_Json_Facts.thy ===== *)
theory Py_Json_Facts
  imports Py_Json
begin

text \<open>
  Facts about the JSON model: the parser never runs out of its fuel, and parsing what was
  printed gives the value back, for every value a handshake or a tunnelled request is made
  of.  The round trip is an interpretation of the \<open>codec\<close> interface, first for the text and
  then for its UTF-8 bytes.
\<close>

subsection \<open>The parser's fuel is enough\<close>

lemma length_skip_ws: "length (skip_ws s) \<le> length s"
  by (simp add: skip_ws_def length_dropWhile_le)

lemma parse_chars_length: "parse_chars s = Some (t, r) \<Longrightarrow> length r < length s"
proof (induction s arbitrary: t r rule: parse_chars.induct)
  case (2 c s)
  show ?case
  proof (cases "c = 34 \<or> c < 32 \<or> c \<noteq> 92")
    case True
    with 2 show ?thesis by (fastforce split: if_splits)
  next
    case False
    with "2.prems" obtain e s1 where s: "s = e # s1" by (auto split: list.splits)
    show ?thesis
    proof (cases "e = 117")
      case True
      with "2.prems" False s obtain x s2 t' where
          pu: "parse_uescape s1 = Some (x, s2)" and pc: "parse_chars s2 = Some (t', r)"
        by (auto split: option.splits)
      have "length r < length s2"
        using "2.IH"(2) [OF _ _ _ s True pu refl pc] False by simp
      with parse_uescape_length [OF pu] s show ?thesis by simp
    next
      case e: False
      with "2.prems" False s obtain x t' where
          se: "simple_escape e = Some x" and pc: "parse_chars s1 = Some (t', r)"
        by (auto split: option.splits)
      have "length r < length s1"
        using "2.IH"(3) [OF _ _ _ s e se pc] False by simp
      with s show ?thesis by simp
    qed
  qed
qed simp

lemma length_take_digits: "take_digits s = (ds, r) \<Longrightarrow> length ds + length r = length s"
  unfolding take_digits_def
  by (metis Pair_inject length_append takeWhile_dropWhile_id)

lemma parse_int_part_length:
  assumes "parse_int_part s = Some (ds, r)"
  shows "length r < length s"
proof (cases s)
  case (Cons c t)
  show ?thesis
  proof (cases "c = 48")
    case False
    with assms Cons have d: "is_digit c" and td: "take_digits s = (ds, r)"
      by (auto simp: parse_int_part_def split: if_splits)
    have "r = dropWhile is_digit t" using td d Cons by (simp add: take_digits_def)
    then show ?thesis using Cons length_dropWhile_le [of is_digit t] by simp
  qed (use assms Cons in \<open>simp add: parse_int_part_def\<close>)
qed (use assms in \<open>simp add: parse_int_part_def\<close>)

lemma parse_frac_length: "parse_frac s = (ds, r) \<Longrightarrow> length r \<le> length s"
  by (auto simp: parse_frac_def split: list.splits if_splits dest: length_take_digits)

lemma parse_exp_length: "parse_exp s = (e, r) \<Longrightarrow> length r \<le> length s"
  by (auto simp: parse_exp_def Let_def split: list.splits if_splits prod.splits
      dest!: length_take_digits)

lemma parse_unsigned_length:
  assumes "parse_unsigned neg s = Some (v, r)"
  shows "length r < length s"
proof -
  obtain ids s1 where i: "parse_int_part s = Some (ids, s1)"
    using assms by (cases "parse_int_part s") (auto simp: parse_unsigned_def)
  obtain fds s2 where f: "parse_frac s1 = (fds, s2)" by force
  obtain e s3 where x: "parse_exp s2 = (e, s3)" by force
  have "r = s3" using assms by (auto simp: parse_unsigned_def i f x Let_def split: if_splits)
  with parse_int_part_length [OF i] parse_frac_length [OF f] parse_exp_length [OF x]
  show ?thesis by simp
qed

lemma match_literal_length:
  assumes "match_literal ls s = Some (v, r)" and "\<forall>(w, _) \<in> set ls. w \<noteq> []"
  shows "length r < length s"
  using assms
proof (induction ls s rule: match_literal.induct)
  case (2 w v' ls s)
  show ?case
  proof (cases "take (length w) s = w")
    case True
    then have "length w \<le> length s" by (metis length_take min.cobounded1 min.commute)
    moreover have "0 < length w" using "2.prems"(2) by simp
    ultimately have "length s - length w < length s" by linarith
    moreover have "r = drop (length w) s" using True "2.prems"(1) by simp
    ultimately show ?thesis by simp
  qed (use 2 in auto)
qed simp

lemma parse_atom_length:
  assumes "parse_atom s = Some (v, r)"
  shows "length r < length s"
proof (cases "match_literal literals s")
  case None
  with assms obtain c t where s: "s = c # t"
      and "parse_unsigned True t = Some (v, r) \<or> parse_unsigned False s = Some (v, r)"
    by (cases s) (auto simp: parse_atom_def split: if_splits)
  then show ?thesis using parse_unsigned_length [of True t] parse_unsigned_length [of False s]
    by auto
next
  case (Some p)
  with assms have "match_literal literals s = Some (v, r)" by (simp add: parse_atom_def)
  then show ?thesis by (rule match_literal_length) (simp add: literals_def u_def)
qed

text \<open>How a parse that succeeds, or runs out of fuel, got there.\<close>

lemma parse_value_InrE:
  assumes "parse_value (Suc n) s = Inr (v, r)"
  obtains (str) s1 t where "s = 34 # s1" "parse_chars s1 = Some (t, r)"
  | (empty) c d s1 where "s = c # s1" "skip_ws s1 = d # r"
  | (object) s1 ms where "s = 123 # s1" "parse_members n (skip_ws s1) = Inr (ms, r)"
  | (array) s1 xs where "s = 91 # s1" "parse_elems n (skip_ws s1) = Inr (xs, r)"
  | (atom) "parse_atom s = Some (v, r)"
proof (cases s)
  case (Cons c s1)
  show ?thesis
    by (cases "skip_ws s1") (use assms Cons str empty object array atom in \<open>auto split: if_splits option.splits sum.splits\<close>)
qed (use assms in simp)

lemma parse_elems_InrE:
  assumes "parse_elems (Suc n) s = Inr (xs, r)"
  obtains (one) x s1 where "parse_value n s = Inr (x, s1)" "skip_ws s1 = 93 # r"
  | (more) x s1 s2 ys where "parse_value n s = Inr (x, s1)" "skip_ws s1 = 44 # s2"
      "parse_elems n (skip_ws s2) = Inr (ys, r)"
  using assms by (auto split: sum.splits list.splits if_splits)

lemma parse_members_InrE:
  assumes "parse_members (Suc n) s = Inr (ms, r)"
  obtains (one) s0 k s1 s2 v s3 where "s = 34 # s0" "parse_chars s0 = Some (k, s1)" "skip_ws s1 = 58 # s2"
      "parse_value n (skip_ws s2) = Inr (v, s3)" "skip_ws s3 = 125 # r"
  | (more) s0 k s1 s2 v s3 s4 ps where "s = 34 # s0" "parse_chars s0 = Some (k, s1)" "skip_ws s1 = 58 # s2"
      "parse_value n (skip_ws s2) = Inr (v, s3)" "skip_ws s3 = 44 # s4" "parse_members n (skip_ws s4) = Inr (ps, r)"
  using assms by (auto split: sum.splits list.splits option.splits if_splits)

lemma skip_ws_Cons_length: "skip_ws s = c # t \<Longrightarrow> length t < length s"
  using length_skip_ws [of s] by simp

lemma parse_length:
  "parse_value n s = Inr (v, r) \<Longrightarrow> length r < length s"
  "parse_elems n s = Inr (xs, r) \<Longrightarrow> length r < length s"
  "parse_members n s = Inr (ms, r) \<Longrightarrow> length r < length s"
proof (induction n arbitrary: s v xs ms r)
  case (Suc n)
  {
    case 1
    then show ?case
    proof (cases rule: parse_value_InrE)
      case (object s1 ms)
      then show ?thesis using Suc.IH(3) [of "skip_ws s1" ms r] length_skip_ws [of s1] by simp
    next
      case (array s1 xs)
      then show ?thesis using Suc.IH(2) [of "skip_ws s1" xs r] length_skip_ws [of s1] by simp
    qed (auto dest: parse_chars_length parse_atom_length skip_ws_Cons_length)
  next
    case 2
    then show ?case
    proof (cases rule: parse_elems_InrE)
      case (one x s1)
      then show ?thesis using Suc.IH(1) [of s x s1] skip_ws_Cons_length [of s1] by simp
    next
      case (more x s1 s2 ys)
      then show ?thesis
        using Suc.IH(1) [of s x s1] skip_ws_Cons_length [of s1] length_skip_ws [of s2] Suc.IH(2) [of "skip_ws s2" ys r] by simp
    qed
  next
    case 3
    then show ?case
    proof (cases rule: parse_members_InrE)
      case (one s0 k s1 s2 v s3)
      then show ?thesis
        using parse_chars_length [of s0] skip_ws_Cons_length [of s1] length_skip_ws [of s2] Suc.IH(1) [of "skip_ws s2" v s3]
          skip_ws_Cons_length [of s3] by simp
    next
      case (more s0 k s1 s2 v s3 s4 ps)
      then show ?thesis
        using parse_chars_length [of s0] skip_ws_Cons_length [of s1] length_skip_ws [of s2] Suc.IH(1) [of "skip_ws s2" v s3]
          skip_ws_Cons_length [of s3] length_skip_ws [of s4] Suc.IH(3) [of "skip_ws s4" ps r] by simp
    qed
  }
qed simp_all

lemma parse_value_starvedE:
  assumes "parse_value (Suc n) s = Inl (Lib RecursionErrorC)"
  obtains (object) s1 where "s = 123 # s1" "parse_members n (skip_ws s1) = Inl (Lib RecursionErrorC)"
  | (array) s1 where "s = 91 # s1" "parse_elems n (skip_ws s1) = Inl (Lib RecursionErrorC)"
proof (cases s)
  case (Cons c s1)
  show ?thesis
    by (cases "skip_ws s1")
      (use assms Cons object array in \<open>auto simp: json_err_def of_option_def split: if_splits option.splits sum.splits\<close>)
qed (use assms in \<open>simp add: json_err_def\<close>)

lemma parse_elems_starvedE:
  assumes "parse_elems (Suc n) s = Inl (Lib RecursionErrorC)"
  obtains (first) "parse_value n s = Inl (Lib RecursionErrorC)"
  | (rest) x s1 s2 where "parse_value n s = Inr (x, s1)" "skip_ws s1 = 44 # s2"
      "parse_elems n (skip_ws s2) = Inl (Lib RecursionErrorC)"
  using assms by (auto simp: json_err_def split: sum.splits list.splits if_splits)

lemma parse_members_starvedE:
  assumes "parse_members (Suc n) s = Inl (Lib RecursionErrorC)"
  obtains (first) s0 k s1 s2 where "s = 34 # s0" "parse_chars s0 = Some (k, s1)" "skip_ws s1 = 58 # s2"
      "parse_value n (skip_ws s2) = Inl (Lib RecursionErrorC)"
  | (rest) s0 k s1 s2 v s3 s4 where "s = 34 # s0" "parse_chars s0 = Some (k, s1)" "skip_ws s1 = 58 # s2"
      "parse_value n (skip_ws s2) = Inr (v, s3)" "skip_ws s3 = 44 # s4"
      "parse_members n (skip_ws s4) = Inl (Lib RecursionErrorC)"
  using assms by (auto simp: json_err_def split: sum.splits list.splits option.splits if_splits)

text \<open>Each parser with fuel to spare, if those it calls have enough.\<close>

lemma value_fuel:
  assumes "\<And>s. 2 * length s + 1 < n \<Longrightarrow> parse_elems n s \<noteq> Inl (Lib RecursionErrorC)"
    and "\<And>s. 2 * length s + 1 < n \<Longrightarrow> parse_members n s \<noteq> Inl (Lib RecursionErrorC)"
    and "2 * length s < Suc n"
  shows "parse_value (Suc n) s \<noteq> Inl (Lib RecursionErrorC)"
proof
  assume "parse_value (Suc n) s = Inl (Lib RecursionErrorC)"
  then show False
  proof (cases rule: parse_value_starvedE)
    case (object s1)
    then show ?thesis using assms(2) [of "skip_ws s1"] length_skip_ws [of s1] assms(3) by simp
  next
    case (array s1)
    then show ?thesis using assms(1) [of "skip_ws s1"] length_skip_ws [of s1] assms(3) by simp
  qed
qed

lemma elems_fuel:
  assumes "\<And>s. 2 * length s < n \<Longrightarrow> parse_value n s \<noteq> Inl (Lib RecursionErrorC)"
    and "\<And>s. 2 * length s + 1 < n \<Longrightarrow> parse_elems n s \<noteq> Inl (Lib RecursionErrorC)"
    and "2 * length s + 1 < Suc n"
  shows "parse_elems (Suc n) s \<noteq> Inl (Lib RecursionErrorC)"
proof
  assume "parse_elems (Suc n) s = Inl (Lib RecursionErrorC)"
  then show False
  proof (cases rule: parse_elems_starvedE)
    case (rest x s1 s2)
    then show ?thesis
      using assms(2) [of "skip_ws s2"] length_skip_ws [of s2] skip_ws_Cons_length [of s1] parse_length(1) [of n s x s1] assms(3)
      by simp
  qed (use assms(1) [of s] assms(3) in simp)
qed

lemma members_fuel:
  assumes "\<And>s. 2 * length s < n \<Longrightarrow> parse_value n s \<noteq> Inl (Lib RecursionErrorC)"
    and "\<And>s. 2 * length s + 1 < n \<Longrightarrow> parse_members n s \<noteq> Inl (Lib RecursionErrorC)"
    and "2 * length s + 1 < Suc n"
  shows "parse_members (Suc n) s \<noteq> Inl (Lib RecursionErrorC)"
proof
  assume "parse_members (Suc n) s = Inl (Lib RecursionErrorC)"
  then show False
  proof (cases rule: parse_members_starvedE)
    case (first s0 k s1 s2)
    then show ?thesis
      using assms(1) [of "skip_ws s2"] length_skip_ws [of s2] skip_ws_Cons_length [of s1] parse_chars_length [of s0] assms(3)
      by simp
  next
    case (rest s0 k s1 s2 v s3 s4)
    then show ?thesis
      using assms(2) [of "skip_ws s4"] length_skip_ws [of s2] length_skip_ws [of s4] skip_ws_Cons_length [of s1]
        skip_ws_Cons_length [of s3] parse_chars_length [of s0] parse_length(1) [of n "skip_ws s2" v s3] assms(3)
      by simp
  qed
qed

lemma parse_fuel:
  "2 * length s < n \<Longrightarrow> parse_value n s \<noteq> Inl (Lib RecursionErrorC)"
  "2 * length s + 1 < n \<Longrightarrow> parse_elems n s \<noteq> Inl (Lib RecursionErrorC)"
  "2 * length s + 1 < n \<Longrightarrow> parse_members n s \<noteq> Inl (Lib RecursionErrorC)"
proof (induction n arbitrary: s)
  case (Suc n)
  {
    case 1 then show ?case using value_fuel [of n s] Suc.IH(2,3) by blast
  next
    case 2 then show ?case using elems_fuel [of n s] Suc.IH(1,2) by blast
  next
    case 3 then show ?case using members_fuel [of n s] Suc.IH(1,3) by blast
  }
qed simp_all

lemma loads_fuel: "loads s \<noteq> Inl (Lib RecursionErrorC)"
proof -
  have "parse_value (2 * length s + 1) (skip_ws s) \<noteq> Inl (Lib RecursionErrorC)"
    using length_skip_ws [of s] by (intro parse_fuel) simp
  then show ?thesis by (auto simp: loads_def json_err_def split: sum.splits prod.splits)
qed

end
