(* ===== verification/Py_Json_Roundtrip.thy ===== *)
theory Py_Json_Roundtrip
  imports Py_Json_Facts
begin

text \<open>
  Printing and parsing are inverse on well-formed values: dictionaries with distinct keys,
  text without lone surrogates, and floats written as \<open>repr\<close> writes them.  The printed text
  is ASCII, so the round trip extends to its bytes.
\<close>

subsection \<open>Well-formed values\<close>

fun wf_float :: "pyfloat \<Rightarrow> bool" where
  "wf_float (Fin m k) \<longleftrightarrow>
     1 \<le> k \<and> (k = 1 \<or> m mod 10 \<noteq> 0) \<and> nat \<bar>m\<bar> < float_overflow * 10 ^ k"
| "wf_float _ \<longleftrightarrow> True"

fun wf_json :: "json \<Rightarrow> bool"
  and wf_elems :: "json list \<Rightarrow> bool"
  and wf_members :: "(pystr \<times> json) list \<Rightarrow> bool" where
  "wf_json JNull \<longleftrightarrow> True"
| "wf_json (JBool b) \<longleftrightarrow> True"
| "wf_json (JInt i) \<longleftrightarrow> True"
| "wf_json (JFloat f) \<longleftrightarrow> wf_float f"
| "wf_json (JStr s) \<longleftrightarrow> list_all scalar s"
| "wf_json (JList xs) \<longleftrightarrow> wf_elems xs"
| "wf_json (JObj d) \<longleftrightarrow> distinct (map fst d) \<and> wf_members d"
| "wf_elems [] \<longleftrightarrow> True"
| "wf_elems (x # xs) \<longleftrightarrow> wf_json x \<and> wf_elems xs"
| "wf_members [] \<longleftrightarrow> True"
| "wf_members ((k, v) # d) \<longleftrightarrow> list_all scalar k \<and> wf_json v \<and> wf_members d"

text \<open>A value is followed by the end of the input or by a delimiter.\<close>

definition delimited :: "pystr \<Rightarrow> bool" where
  "delimited s \<longleftrightarrow> s = [] \<or> hd s \<in> {44, 93, 125}"

lemma delimited_simps [simp]:
  "delimited []"
  "delimited (c # s) \<longleftrightarrow> c = 44 \<or> c = 93 \<or> c = 125"
  by (auto simp: delimited_def)

subsection \<open>Strings\<close>

lemma unhex4_hex4: "n < 65536 \<Longrightarrow> unhex4 (hex_digit (n div 4096)) (hex_digit (n div 256 mod 16))
    (hex_digit (n div 16 mod 16)) (hex_digit (n mod 16)) = Some n"
proof -
  assume n: "n < 65536"
  define m1 m2 a b c d where "m1 = n div 16" and "m2 = m1 div 16" and "a = m2 div 16"
    and "b = m2 mod 16" and "c = m1 mod 16" and "d = n mod 16"
  have "n = 16 * m1 + d" "m1 = 16 * m2 + c" "m2 = 16 * a + b"
    by (simp_all only: m1_def m2_def a_def b_def c_def d_def mult_div_mod_eq)
  then have eq: "4096 * a + 256 * b + 16 * c + d = n" by linarith
  have "n div 4096 = a" "n div 256 mod 16 = b" "n div 16 mod 16 = c" "n mod 16 = d"
    by (simp_all add: m1_def m2_def a_def b_def c_def d_def flip: div_mult2_eq)
  moreover have "b < 16" "c < 16" "d < 16" by (simp_all add: b_def c_def d_def)
  moreover have "a < 16" using n eq by linarith
  ultimately show ?thesis using eq by (simp add: unhex4_def)
qed

lemma parse_uescape_hex4:
  assumes "n < 65536" and "\<not> (55296 \<le> n \<and> n < 56320)"
  shows "parse_uescape (hex4 n @ t) = Some (n, t)"
  using assms by (auto simp: hex4_def unhex4_hex4)

lemma parse_uescape_pair:
  assumes "hi < 1024" and "lo < 1024"
  shows "parse_uescape (hex4 (55296 + hi) @ uescape (56320 + lo) @ t)
       = Some (65536 + hi * 1024 + lo, t)"
  using assms by (simp add: hex4_def uescape_def unhex4_hex4)

lemma parse_chars_escape:
  assumes "scalar c"
  shows "parse_chars (escape_char c @ t) = map_option (\<lambda>(s, r). (c # s, r)) (parse_chars t)"
proof -
  consider "c \<in> {34, 92, 10, 13, 9, 8, 12}" | "c \<notin> {34, 92}" "32 \<le> c" "c \<le> 126"
    | "c \<notin> {34, 92, 10, 13, 9, 8, 12}" "\<not> (32 \<le> c \<and> c \<le> 126)" "c < 65536"
    | "65536 \<le> c" by force
  then show ?thesis
  proof cases
    case 1
    then show ?thesis by (auto simp: escape_char_def simple_escape_def)
  next
    case 2
    then show ?thesis by (simp add: escape_char_def)
  next
    case 3
    then have "escape_char c = 92 # 117 # hex4 c" by (simp add: escape_char_def uescape_def)
    moreover have "\<not> (55296 \<le> c \<and> c < 56320)"
      using assms by (auto simp: scalar_def is_surrogate_def)
    ultimately show ?thesis using 3(3) by (simp add: parse_uescape_hex4)
  next
    case 4
    let ?hi = "(c - 65536) div 1024" and ?lo = "(c - 65536) mod 1024"
    have hi: "?hi < 1024" using assms 4 by (simp add: scalar_def) linarith
    have c: "65536 + ?hi * 1024 + ?lo = c" using 4 by simp
    have "escape_char c @ t = 92 # 117 # hex4 (55296 + ?hi) @ uescape (56320 + ?lo) @ t"
      using 4 by (simp add: escape_char_def uescape_def)
    moreover have "parse_uescape (hex4 (55296 + ?hi) @ uescape (56320 + ?lo) @ t) = Some (c, t)"
      using parse_uescape_pair [OF hi, of ?lo t] c by simp
    ultimately show ?thesis by simp
  qed
qed

lemma parse_chars_string:
  "list_all scalar s \<Longrightarrow> parse_chars (concat (map escape_char s) @ [34] @ t) = Some (s, t)"
  by (induction s) (simp_all add: parse_chars_escape)

subsection \<open>Numbers\<close>

lemma takeWhile_digits:
  assumes "list_all is_digit ds" and "s = [] \<or> \<not> is_digit (hd s)"
  shows "takeWhile is_digit (ds @ s) = ds" and "dropWhile is_digit (ds @ s) = s"
  using assms by (induction ds) (cases s; simp)+

lemma all_digits_str_nat: "list_all is_digit (str_nat n)"
  by (auto simp: list_all_iff dest: str_nat_digits)

lemma parse_int_part_str_nat:
  assumes "s = [] \<or> \<not> is_digit (hd s)"
  shows "parse_int_part (str_nat n @ s) = Some (str_nat n, s)"
proof (cases "n = 0")
  case True
  then show ?thesis by (simp add: str_nat_0 parse_int_part_def)
next
  case False
  obtain c t where ct: "str_nat n = c # t" by (cases "str_nat n") auto
  have "c \<noteq> 48" using hd_str_nat [of n] False ct by simp
  moreover have "is_digit c" using str_nat_digits [of c n] ct by simp
  ultimately show ?thesis
    using takeWhile_digits [OF all_digits_str_nat [of n] assms] ct
    by (simp add: parse_int_part_def take_digits_def)
qed

lemma match_literal_None:
  assumes "c \<notin> {110, 116, 102, 78, 73, 45} \<or> c = 45 \<and> take 1 t \<noteq> [73]"
  shows "match_literal literals (c # t) = None"
  using assms by (cases t) (auto simp: literals_def u_def)

lemma parse_unsigned_str_nat:
  assumes "delimited s"
  shows "parse_unsigned neg (str_nat n @ s) = Some (JInt (if neg then - int n else int n), s)"
proof -
  have "s = [] \<or> \<not> is_digit (hd s)" using assms by (cases s) (auto simp: is_digit_def)
  then have "parse_int_part (str_nat n @ s) = Some (str_nat n, s)" by (rule parse_int_part_str_nat)
  moreover have "parse_frac s = ([], s)" using assms by (cases s) (auto simp: parse_frac_def)
  moreover have "parse_exp s = (None, s)" using assms by (cases s) (auto simp: parse_exp_def)
  ultimately show ?thesis by (simp add: parse_unsigned_def)
qed

lemma hd_str_nat_digit: "is_digit (hd (str_nat n))"
  using str_nat_digits [of "hd (str_nat n)" n] by simp

lemma parse_atom_unsigned:
  assumes "parse_unsigned False (str_nat n @ s) = Some r"
  shows "parse_atom (str_nat n @ s) = Some r"
proof -
  obtain c t where ct: "str_nat n = c # t" by (cases "str_nat n") auto
  have "is_digit c" using hd_str_nat_digit [of n] ct by simp
  then have "match_literal literals (c # t @ s) = None" and "c \<noteq> 45"
    by (auto intro!: match_literal_None simp: is_digit_def)
  with assms ct show ?thesis by (simp add: parse_atom_def)
qed

lemma parse_atom_negative:
  assumes "parse_unsigned True (str_nat n @ s) = Some r"
  shows "parse_atom (45 # str_nat n @ s) = Some r"
proof -
  obtain c t where ct: "str_nat n = c # t" by (cases "str_nat n") auto
  have "is_digit c" using hd_str_nat_digit [of n] ct by simp
  then have "match_literal literals (45 # c # t @ s) = None"
    by (intro match_literal_None) (simp add: is_digit_def)
  with assms ct show ?thesis by (simp add: parse_atom_def)
qed

lemma parse_atom_int:
  assumes "delimited s"
  shows "parse_atom (str_int i @ s) = Some (JInt i, s)"
proof (cases "i < 0")
  case True
  with assms show ?thesis
    by (simp add: str_int_def parse_atom_negative parse_unsigned_str_nat)
next
  case False
  with assms show ?thesis
    by (simp add: str_int_def parse_atom_unsigned parse_unsigned_str_nat)
qed

lemma frac_digits_props:
  "list_all is_digit (frac_digits k n)" "length (frac_digits k n) = k"
  "digits_val (frac_digits k n) = n mod 10 ^ k"
proof (induction k arbitrary: n)
  case (Suc k)
  {
    case 1
    show ?case using Suc(1) by (simp add: is_digit_def)
  next
    case 2
    show ?case using Suc(2) by simp
  next
    case 3
    have "n mod (10 * 10 ^ k) = 10 * (n div 10 mod 10 ^ k) + n mod 10"
      by (rule mod_mult2_eq)
    then show ?case using Suc(3) by simp
  }
qed simp_all

lemma digits_val_append: "digits_val (xs @ ys) = digits_val xs * 10 ^ length ys + digits_val ys"
proof (induction ys rule: rev_induct)
  case (snoc y ys)
  have "digits_val (xs @ ys @ [y]) = digits_val ((xs @ ys) @ [y])" by simp
  also have "\<dots> = 10 * digits_val (xs @ ys) + (y - 48)" by (simp only: digits_val_simps)
  finally show ?case using snoc by (simp add: algebra_simps)
qed simp

lemma normal_float_wf: "wf_float (Fin m k) \<Longrightarrow> normal_float m k = Fin m k"
  by (cases k) (auto simp: normal_float_def)

lemma parse_unsigned_float:
  assumes "delimited s" and wf: "wf_float (Fin (if neg then - int n else int n) k)"
  shows "parse_unsigned neg (str_nat (n div 10 ^ k) @ [46] @ frac_digits k n @ s)
       = Some (JFloat (Fin (if neg then - int n else int n) k), s)"
proof -
  let ?q = "n div 10 ^ k" and ?f = "frac_digits k n"
  have s: "s = [] \<or> \<not> is_digit (hd s)" using assms(1) by (cases s) (auto simp: is_digit_def)
  have "parse_int_part (str_nat ?q @ 46 # ?f @ s) = Some (str_nat ?q, 46 # ?f @ s)"
    by (rule parse_int_part_str_nat) (simp add: is_digit_def)
  moreover have "parse_frac (46 # ?f @ s) = (?f, s)"
  proof -
    have "?f \<noteq> []" using wf frac_digits_props(2) [of k n] by (cases k) auto
    then show ?thesis
      using takeWhile_digits [OF frac_digits_props(1) [of k n] s]
      by (simp add: parse_frac_def take_digits_def)
  qed
  moreover have "parse_exp s = (None, s)" using assms(1) by (cases s) (auto simp: parse_exp_def)
  moreover have "?f \<noteq> []" using wf frac_digits_props(2) [of k n] by (cases k) auto
  moreover have "digits_val (str_nat ?q @ ?f) = n"
    by (simp only: digits_val_append frac_digits_props digits_val_str_nat div_mult_mod_eq)
  moreover have "make_float neg n k 0 = Fin (if neg then - int n else int n) k"
    using wf normal_float_wf [OF wf] by (auto simp: make_float_def split: if_splits)
  ultimately show ?thesis by (simp add: parse_unsigned_def frac_digits_props)
qed

lemma parse_atom_float:
  assumes "delimited s" and "wf_float f"
  shows "parse_atom (repr_float f @ s) = Some (JFloat f, s)"
proof (cases f)
  case (Fin m k)
  show ?thesis
  proof (cases "m < 0")
    case True
    then have "parse_unsigned True (str_nat (nat (- m) div 10 ^ k) @ [46] @ frac_digits k (nat (- m)) @ s)
      = Some (JFloat f, s)"
      using parse_unsigned_float [of s True "nat (- m)" k] assms Fin by simp
    from parse_atom_negative [OF this] show ?thesis using Fin True by simp
  next
    case False
    then have "parse_unsigned False (str_nat (nat m div 10 ^ k) @ [46] @ frac_digits k (nat m) @ s)
      = Some (JFloat f, s)"
      using parse_unsigned_float [of s False "nat m" k] assms Fin by simp
    from parse_atom_unsigned [OF this] show ?thesis using Fin False by simp
  qed
qed (simp_all add: parse_atom_def literals_def u_def)

subsection \<open>Values\<close>

text \<open>The first character of a printed value: never white space, never a closing bracket.\<close>

lemma str_nat_Cons: "\<exists>c t. str_nat n = c # t \<and> is_digit c"
  using hd_str_nat_digit [of n] by (cases "str_nat n") auto

lemma str_int_Cons: "\<exists>c t. str_int i = c # t \<and> (c = 45 \<or> is_digit c)"
  using str_nat_Cons [of "nat i"] by (auto simp: str_int_def)

lemma repr_float_Cons: "\<exists>c t. repr_float f = c # t \<and> (c \<in> {45, 73, 78} \<or> is_digit c)"
proof (cases f)
  case (Fin m k)
  then show ?thesis using str_nat_Cons [of "nat \<bar>m\<bar> div 10 ^ k"] by (auto simp del: str_nat.simps)
qed (simp_all add: u_def)

lemma dumps_Cons: "\<exists>c t. dumps v = c # t \<and> \<not> json_space c \<and> c \<notin> {93, 125}"
proof (cases v)
  case (JInt i)
  then show ?thesis using str_int_Cons [of i] by (auto simp: json_space_def is_digit_def)
next
  case (JFloat f)
  then show ?thesis using repr_float_Cons [of f] by (auto simp: json_space_def is_digit_def)
next
  case (JBool b)
  then show ?thesis by (cases b) (simp_all add: u_def json_space_def)
qed (simp_all add: u_def json_space_def dumps_str_def)

lemma skip_ws_dumps: "skip_ws (dumps v @ s) = dumps v @ s"
  using dumps_Cons [of v] by (auto simp: skip_ws_def)

lemma skip_ws_nonspace: "\<not> json_space c \<Longrightarrow> skip_ws (c # s) = c # s"
  by (simp add: skip_ws_def)

lemma skip_ws_delims [simp]:
  "skip_ws (44 # s) = 44 # s" "skip_ws (93 # s) = 93 # s" "skip_ws (125 # s) = 125 # s"
  "skip_ws (58 # s) = 58 # s" "skip_ws (32 # s) = skip_ws s" "skip_ws (34 # s) = 34 # s"
  by (simp_all add: skip_ws_def json_space_def)

lemma parse_value_atom:
  assumes "s = c # t" and "c \<notin> {34, 123, 91}" and "0 < n" and "parse_atom s = Some r"
  shows "parse_value n s = Inr r"
  using assms by (cases n) simp_all

lemma dumps_elems_Cons: "xs \<noteq> [] \<Longrightarrow>
  dumps_elems (x # xs) = dumps x @ [44, 32] @ dumps_elems xs"
  by (cases xs) simp_all

lemma dumps_members_Cons: "d \<noteq> [] \<Longrightarrow>
  dumps_members ((k, v) # d) = dumps_str k @ [58, 32] @ dumps v @ [44, 32] @ dumps_members d"
  by (cases d) simp_all

lemma skip_ws_dumps_elems: "xs \<noteq> [] \<Longrightarrow> skip_ws (dumps_elems xs @ s) = dumps_elems xs @ s"
proof -
  assume "xs \<noteq> []"
  then obtain x ys where "xs = x # ys" by (cases xs) auto
  then show ?thesis
    using skip_ws_dumps [of x "[44, 32] @ dumps_elems ys @ s"] skip_ws_dumps [of x s]
    by (cases ys) simp_all
qed

lemma dumps_members_quote: "d \<noteq> [] \<Longrightarrow> \<exists>t. dumps_members d = 34 # t"
  by (cases d rule: dumps_members.cases) (auto simp: dumps_str_def)

lemma dict_of_members:
  "distinct (map fst (d @ ms)) \<Longrightarrow> foldl (\<lambda>d (k, v). dict_set k v d) d ms = d @ ms"
proof (induction ms arbitrary: d)
  case (Cons p ms)
  obtain k v where p: "p = (k, v)" by force
  have "k \<notin> fst ` set d" using Cons.prems p by auto
  then have "dict_set k v d = d @ [(k, v)]" by (rule dict_set_new)
  then show ?case using Cons.IH [of "d @ [(k, v)]"] Cons.prems p by simp
qed simp

lemma parse_value_scalar:
  assumes "dumps v = c # t" "c \<notin> {34, 123, 91}" "0 < n" "parse_atom (dumps v @ s) = Some (v, s)"
  shows "parse_value n (dumps v @ s) = Inr (v, s)"
  by (rule parse_value_atom [of _ c "t @ s"]) (use assms in simp_all)

text \<open>One step of the parser on printed text, for each shape of value, list and object.\<close>

lemma parse_value_str: "list_all scalar t \<Longrightarrow> 0 < n \<Longrightarrow> parse_value n (dumps_str t @ s) = Inr (JStr t, s)"
  using parse_chars_string [of t s] by (cases n) (simp_all add: dumps_str_def)

lemma parse_value_list:
  assumes "xs \<noteq> []" and "parse_elems n (dumps_elems xs @ [93] @ s) = Inr (xs, s)"
  shows "parse_value (Suc n) (dumps (JList xs) @ s) = Inr (JList xs, s)"
proof -
  obtain x ys where xs: "xs = x # ys" using assms(1) by (cases xs) auto
  obtain c t where "dumps_elems xs = c # t" "c \<noteq> 93" using dumps_Cons [of x] xs by (cases ys) auto
  then show ?thesis using assms(2) skip_ws_dumps_elems [OF assms(1), of "[93] @ s"] by simp
qed

lemma parse_value_obj:
  assumes "d \<noteq> []" and "distinct (map fst d)" and "parse_members n (dumps_members d @ [125] @ s) = Inr (d, s)"
  shows "parse_value (Suc n) (dumps (JObj d) @ s) = Inr (JObj d, s)"
proof -
  obtain t where "dumps_members d = 34 # t" using dumps_members_quote [OF assms(1)] by blast
  then show ?thesis using assms dict_of_members [of "[]" d] by simp
qed

lemma parse_elems_last:
  "parse_value n (dumps x @ 93 # s) = Inr (x, 93 # s) \<Longrightarrow> parse_elems (Suc n) (dumps_elems [x] @ [93] @ s) = Inr ([x], s)"
  by simp

lemma parse_elems_more:
  assumes "parse_value n (dumps x @ 44 # 32 # dumps_elems (y # ys) @ 93 # s)
      = Inr (x, 44 # 32 # dumps_elems (y # ys) @ 93 # s)"
    and "parse_elems n (dumps_elems (y # ys) @ [93] @ s) = Inr (y # ys, s)"
  shows "parse_elems (Suc n) (dumps_elems (x # y # ys) @ [93] @ s) = Inr (x # y # ys, s)"
  using assms skip_ws_dumps_elems [of "y # ys" "93 # s"] by simp

lemma parse_members_last:
  assumes "list_all scalar k" and "parse_value n (dumps v @ 125 # s) = Inr (v, 125 # s)"
  shows "parse_members (Suc n) (dumps_members [(k, v)] @ [125] @ s) = Inr ([(k, v)], s)"
  using assms parse_chars_string [of k "58 # 32 # dumps v @ 125 # s"] skip_ws_dumps [of v "125 # s"]
  by (simp add: dumps_str_def)

lemma parse_members_more:
  assumes "list_all scalar k"
    and "parse_value n (dumps v @ 44 # 32 # dumps_members (p # d) @ 125 # s)
      = Inr (v, 44 # 32 # dumps_members (p # d) @ 125 # s)"
    and "parse_members n (dumps_members (p # d) @ [125] @ s) = Inr (p # d, s)"
  shows "parse_members (Suc n) (dumps_members ((k, v) # p # d) @ [125] @ s) = Inr ((k, v) # p # d, s)"
proof -
  obtain t where "dumps_members (p # d) = 34 # t" using dumps_members_quote [of "p # d"] by blast
  then show ?thesis
    using assms skip_ws_dumps [of v "44 # 32 # dumps_members (p # d) @ 125 # s"]
      parse_chars_string [of k "58 # 32 # dumps v @ 44 # 32 # dumps_members (p # d) @ 125 # s"]
    by (simp add: dumps_str_def)
qed

lemma parse_dumps:
  "wf_json v \<Longrightarrow> delimited s \<Longrightarrow> 2 * length (dumps v) < n \<Longrightarrow>
     parse_value n (dumps v @ s) = Inr (v, s)"
  "wf_elems xs \<Longrightarrow> xs \<noteq> [] \<Longrightarrow> 2 * length (dumps_elems xs) + 1 < n \<Longrightarrow>
     parse_elems n (dumps_elems xs @ [93] @ s) = Inr (xs, s)"
  "wf_members d \<Longrightarrow> d \<noteq> [] \<Longrightarrow> 2 * length (dumps_members d) + 1 < n \<Longrightarrow>
     parse_members n (dumps_members d @ [125] @ s) = Inr (d, s)"
proof (induction v and xs and d arbitrary: n s and n s and n s
    rule: dumps_dumps_elems_dumps_members.induct)
  case 1
  then show ?case by (intro parse_value_scalar) (auto simp: u_def parse_atom_def literals_def)
next
  case (2 b)
  then show ?case
    by (cases b; intro parse_value_scalar) (auto simp: u_def parse_atom_def literals_def)
next
  case (3 i)
  obtain c t where "str_int i = c # t" "c = 45 \<or> is_digit c" using str_int_Cons by blast
  with 3 parse_atom_int [of s i] show ?case by (intro parse_value_scalar) (auto simp: is_digit_def)
next
  case (4 f)
  obtain c t where "repr_float f = c # t" "c \<in> {45, 73, 78} \<or> is_digit c" using repr_float_Cons by blast
  with 4 parse_atom_float [of s f] show ?case by (intro parse_value_scalar) (auto simp: is_digit_def)
next
  case (5 t)
  then show ?case using parse_value_str [of t n s] by simp
next
  case (6 xs)
  then show ?case using parse_value_list [of xs "n - 1" s] by (cases n; cases "xs = []") simp_all
next
  case (7 d)
  then show ?case using parse_value_obj [of d "n - 1" s] by (cases n; cases "d = []") simp_all
next
  case (9 x)
  then show ?case using parse_elems_last [of "n - 1" x s] by (cases n) simp_all
next
  case (10 x y xs)
  then show ?case using parse_elems_more [of "n - 1" x y xs s] by (cases n) simp_all
next
  case (12 k v)
  then show ?case using parse_members_last [of k "n - 1" v s] by (cases n) simp_all
next
  case (13 k v p d)
  then show ?case using parse_members_more [of k "n - 1" v p d s] by (cases n) simp_all
qed simp_all

lemma loads_dumps: "wf_json v \<Longrightarrow> loads (dumps v) = Inr v"
proof -
  assume "wf_json v"
  then have "parse_value (2 * length (dumps v) + 1) (dumps v @ []) = Inr (v, [])"
    by (intro parse_dumps) simp_all
  moreover have "take 1 (dumps v) \<noteq> [65279]"
  proof (cases v)
    case (JInt i)
    then show ?thesis using str_int_Cons [of i] by (auto simp: is_digit_def)
  next
    case (JFloat f)
    then show ?thesis using repr_float_Cons [of f] by (auto simp: is_digit_def)
  next
    case (JBool b)
    then show ?thesis by (cases b) (simp_all add: u_def)
  qed (simp_all add: u_def dumps_str_def)
  moreover have "skip_ws [] = []" by (simp add: skip_ws_def)
  ultimately show ?thesis
    using skip_ws_dumps [of v "[]"] by (simp add: loads_def)
qed

interpretation json_codec: codec dumps loads wf_json
  by unfold_locales (rule loads_dumps)

subsection \<open>Bytes\<close>

text \<open>
  \<open>json.dumps(v).encode("utf-8")\<close> and \<open>json.loads(b.decode("utf-8"))\<close>.  The printed text
  escapes everything outside ASCII, so encoding it cannot fail.
\<close>

definition dumps_bytes :: "json \<Rightarrow> bytes" where
  "dumps_bytes v = ascii_bytes (dumps v)"

definition loads_bytes :: "bytes \<Rightarrow> pyexn + json" where
  "loads_bytes b = bind_res (utf8_decode b) loads"

lemma is_ascii_u: "\<forall>c \<in> set s. of_char c < (128 :: nat) \<Longrightarrow> is_ascii (u s)"
  by (auto simp: is_ascii_def list_all_iff u_def)

lemma hex_digit_ascii: "n < 16 \<Longrightarrow> hex_digit n < 128"
  by (simp add: hex_digit_def)

lemma is_ascii_uescape: "n < 65536 \<Longrightarrow> is_ascii (uescape n)"
proof -
  assume "n < 65536"
  then have "n div 4096 < 16" by linarith
  then show ?thesis
    by (simp add: uescape_def hex4_def hex_digit_ascii)
qed

lemma is_ascii_escape_char: "scalar c \<Longrightarrow> is_ascii (escape_char c)"
proof -
  assume c: "scalar c"
  then have "(c - 65536) div 1024 < 1024" by (simp add: scalar_def) linarith
  then show ?thesis
    using is_ascii_uescape [of c] is_ascii_uescape [of "55296 + (c - 65536) div 1024"]
      is_ascii_uescape [of "56320 + (c - 65536) mod 1024"]
    by (simp add: escape_char_def)
qed

lemma is_ascii_dumps_str: "list_all scalar s \<Longrightarrow> is_ascii (dumps_str s)"
  by (induction s) (simp_all add: dumps_str_def is_ascii_escape_char)

lemma is_ascii_frac_digits: "is_ascii (frac_digits k n)"
  by (induction k arbitrary: n) simp_all

lemma is_ascii_repr_float: "is_ascii (repr_float f)"
  by (cases f) (simp_all add: is_ascii_frac_digits u_def)

lemma is_ascii_dumps:
  "wf_json v \<Longrightarrow> is_ascii (dumps v)"
  "wf_elems xs \<Longrightarrow> is_ascii (dumps_elems xs)"
  "wf_members d \<Longrightarrow> is_ascii (dumps_members d)"
  by (induction v and xs and d rule: dumps_dumps_elems_dumps_members.induct)
    (simp_all add: is_ascii_dumps_str is_ascii_repr_float str_int_def u_def)

interpretation json_bytes_codec: codec_chain dumps loads wf_json ascii_bytes utf8_decode is_ascii
  by unfold_locales (rule is_ascii_dumps)

lemma utf8_encode_dumps: "wf_json v \<Longrightarrow> utf8_encode (dumps v) = Inr (dumps_bytes v)"
  by (simp add: dumps_bytes_def utf8_encode_ascii is_ascii_dumps)

lemma loads_dumps_bytes [simp]: "wf_json v \<Longrightarrow> loads_bytes (dumps_bytes v) = Inr v"
  using json_bytes_codec.dec_enc_both [of v]
  by (simp add: json_bytes_codec.enc_both_def json_bytes_codec.dec_both_def
      loads_bytes_def dumps_bytes_def)

lemma dumps_bytes_inject:
  assumes "wf_json v" and "wf_json w" and "dumps_bytes v = dumps_bytes w"
  shows "v = w"
  by (rule json_bytes_codec.both.enc_inject [OF assms(1,2)])
    (use assms(3) in \<open>simp add: json_bytes_codec.enc_both_def dumps_bytes_def\<close>)

end
