(* ===== verification/Handshake.thy ===== *)
theory Handshake
  imports Frame_Link Py_Json_Roundtrip
begin

text \<open>
  \<open>auth/handshake.py\<close>: the mutual challenge-response handshake.  Both sides are modelled call
  by call as computations over their own connection: JSON payloads inside clear frames, the
  freshness check on the peer's clock, the signature and the challenge, and the session key
  under the client's RSA key.
\<close>

subsection \<open>Constants and payloads\<close>

definition MAX_TIMESTAMP_DRIFT :: nat where "MAX_TIMESTAMP_DRIFT = 300"
definition HANDSHAKE_TIMEOUT :: rat where "HANDSHAKE_TIMEOUT = 30"

definition CHALLENGE_HMAC_KEY :: bytes where
  "CHALLENGE_HMAC_KEY = ascii_bytes (u ''challenge'')"

definition NULL_SID :: bytes where
  "NULL_SID = replicate SESSION_ID_SIZE 0"

definition encode_hs :: "dict \<Rightarrow> bytes" where
  "encode_hs obj = dumps_bytes (JObj obj)"

definition decode_hs :: "bytes \<Rightarrow> pyexn + json" where
  "decode_hs data = loads_bytes data"

text \<open>\<open>obj[key]\<close> on a decoded payload: only a dictionary can be indexed by a string.\<close>

definition field :: "json \<Rightarrow> pystr \<Rightarrow> pyexn + json" where
  "field obj key =
     (case obj of JObj d \<Rightarrow> of_option (Lib KeyErrorC) (dict_get d key) | _ \<Rightarrow> Inl (Lib TypeErrorC))"

definition json_fromhex :: "json \<Rightarrow> pyexn + bytes" where
  "json_fromhex v = (case v of JStr s \<Rightarrow> fromhex s | _ \<Rightarrow> Inl (Lib TypeErrorC))"

definition hex_field :: "json \<Rightarrow> pystr \<Rightarrow> pyexn + bytes" where
  "hex_field obj key = bind_res (field obj key) json_fromhex"

subsection \<open>The freshness check\<close>

text \<open>\<open>abs(a - b) > d\<close> on floats; every comparison with a NaN is false.\<close>

fun abs_diff_exceeds :: "pyfloat \<Rightarrow> pyfloat \<Rightarrow> nat \<Rightarrow> bool" where
  "abs_diff_exceeds (Fin m k) (Fin n l) d \<longleftrightarrow>
     int d * 10 ^ (k + l) < \<bar>m * 10 ^ l - n * 10 ^ k\<bar>"
| "abs_diff_exceeds NaN _ d \<longleftrightarrow> False"
| "abs_diff_exceeds _ NaN d \<longleftrightarrow> False"
| "abs_diff_exceeds PInf PInf d \<longleftrightarrow> False"
| "abs_diff_exceeds NInf NInf d \<longleftrightarrow> False"
| "abs_diff_exceeds _ _ d \<longleftrightarrow> True"

text \<open>
  \<open>abs(time.time() - ts) > MAX_TIMESTAMP_DRIFT\<close> for whatever JSON value the peer sent: an
  integer is converted to a float (which may overflow), anything but a number raises.
\<close>

definition stale :: "pyfloat \<Rightarrow> json \<Rightarrow> pyexn + bool" where
  "stale now ts =
     (case ts of
        JFloat f \<Rightarrow> Inr (abs_diff_exceeds now f MAX_TIMESTAMP_DRIFT)
      | JInt i \<Rightarrow>
          (if int float_overflow \<le> \<bar>i\<bar> then Inl (Lib OverflowErrorC)
           else Inr (abs_diff_exceeds now (Fin (i * 10) 1) MAX_TIMESTAMP_DRIFT))
      | JBool b \<Rightarrow>
          Inr (abs_diff_exceeds now (Fin (if b then 10 else 0) 1) MAX_TIMESTAMP_DRIFT)
      | _ \<Rightarrow> Inl (Lib TypeErrorC))"

subsection \<open>Error frames\<close>

text \<open>\<open>_send_error\<close>: best effort, every exception is swallowed.\<close>

definition send_error :: "('sk, 'pk) crypto_lib \<Rightarrow> pystr \<Rightarrow> (world, unit) io" where
  "send_error L message =
     try_except
       (andThen (of_result (utf8_encode message)) (\<lambda>data.
          send_frame L ERROR NULL_SID data None None))
       (\<lambda>_. ret ())"

definition reject :: "('sk, 'pk) crypto_lib \<Rightarrow> string \<Rightarrow> string \<Rightarrow> (world, 'a) io" where
  "reject L message err =
     andThen (send_error L (u message)) (\<lambda>_. raise (Raised ValueErrorC (u err)))"

definition expected_error :: "string \<Rightarrow> message_type \<Rightarrow> pyexn" where
  "expected_error what got =
     Raised ValueErrorC (u ''Expected '' @ u what @ u '', got '' @ type_name got)"

subsection \<open>Client side\<close>

definition client_hello :: "bytes \<Rightarrow> pyfloat \<Rightarrow> bytes" where
  "client_hello nonce_c ts_c =
     encode_hs [(u ''nonce_c'', JStr (hex nonce_c)), (u ''timestamp'', JFloat ts_c)]"

definition client_response :: "bytes \<Rightarrow> bytes \<Rightarrow> bytes" where
  "client_response challenge_response sig_c =
     encode_hs [(u ''challenge_response'', JStr (hex challenge_response)),
                (u ''signature'', JStr (hex sig_c))]"

text \<open>
  Receiving and checking ServerHello; the result is the server's nonce.
\<close>

definition client_recv_server_hello ::
    "('sk, 'pk) crypto_lib \<Rightarrow> 'pk \<Rightarrow> bytes \<Rightarrow> (world, bytes) io" where
  "client_recv_server_hello L server_pk nonce_c =
     andThen (recv_frame L None None) (\<lambda>(msg_type, _, sh_payload).
     if msg_type \<noteq> HANDSHAKE_SERVER_HELLO then raise (expected_error ''ServerHello'' msg_type) else
     andThen (of_result (decode_hs sh_payload)) (\<lambda>sh.
     andThen (of_result (hex_field sh (u ''nonce_s''))) (\<lambda>nonce_s.
     andThen (of_result (field sh (u ''timestamp''))) (\<lambda>ts_s.
     andThen (of_result (hex_field sh (u ''challenge''))) (\<lambda>challenge_s.
     andThen (of_result (hex_field sh (u ''signature''))) (\<lambda>sig_s.
     andThen time_now (\<lambda>now.
     andThen (of_result (stale now ts_s)) (\<lambda>old.
     if old then
       raise (Raised ValueErrorC (u ''ServerHello timestamp outside acceptable window''))
     else if \<not> verify_signature L (nonce_c @ nonce_s) sig_s server_pk then
       raise (Raised ValueErrorC
         (u ''Server signature verification FAILED '' @ [8212] @ u '' aborting''))
     else if \<not> verify_hmac (nonce_c @ nonce_s) challenge_s CHALLENGE_HMAC_KEY then
       raise (Raised ValueErrorC (u ''Server challenge HMAC mismatch''))
     else ret nonce_s))))))))"

definition client_recv_server_done ::
    "('sk, 'pk) crypto_lib \<Rightarrow> 'sk \<Rightarrow> (world, bytes \<times> bytes \<times> bytes) io" where
  "client_recv_server_done L client_sk =
     andThen (recv_frame L None None) (\<lambda>(msg_type, _, sd_payload).
     if msg_type \<noteq> HANDSHAKE_SERVER_DONE then
       (if msg_type = ERROR then
          andThen (of_result (utf8_decode sd_payload)) (\<lambda>text.
            raise (Raised ValueErrorC (u ''Server rejected handshake: '' @ text)))
        else raise (expected_error ''ServerDone'' msg_type))
     else
     andThen (of_result (decode_hs sd_payload)) (\<lambda>sd.
     andThen (of_result (hex_field sd (u ''session_id''))) (\<lambda>session_id.
     andThen (of_result (hex_field sd (u ''encrypted_session_key''))) (\<lambda>encrypted.
     andThen (of_result (of_option (Lib ValueErrorC) (oaep_decrypt L client_sk encrypted)))
       (\<lambda>session_key.
         let (enc_key, mac_key) = derive_keys L session_key (Some session_id) derive_keys_info
         in ret (session_id, enc_key, mac_key))))))"

text \<open>The client's answer to a ServerHello it accepted, and the rest of the exchange.\<close>

definition client_respond ::
    "('sk, 'pk) crypto_lib \<Rightarrow> 'sk \<Rightarrow> bytes \<Rightarrow> bytes \<Rightarrow> (world, bytes \<times> bytes \<times> bytes) io" where
  "client_respond L client_sk nonce_c nonce_s =
     (let challenge_response = compute_hmac (nonce_s @ nonce_c) CHALLENGE_HMAC_KEY in
      andThen (sign_data L (nonce_s @ nonce_c) client_sk) (\<lambda>sig_c.
      andThen (send_frame L HANDSHAKE_CLIENT_RESPONSE NULL_SID
                 (client_response challenge_response sig_c) None None) (\<lambda>_.
      client_recv_server_done L client_sk)))"

definition client_handshake ::
    "('sk, 'pk) crypto_lib \<Rightarrow> 'sk \<Rightarrow> 'pk \<Rightarrow> (world, bytes \<times> bytes \<times> bytes) io" where
  "client_handshake L client_sk server_pk =
     andThen (settimeout (Some HANDSHAKE_TIMEOUT)) (\<lambda>_.
     andThen (urandom 16) (\<lambda>nonce_c.
     andThen time_now (\<lambda>ts_c.
     andThen (send_frame L HANDSHAKE_CLIENT_HELLO NULL_SID (client_hello nonce_c ts_c) None None) (\<lambda>_.
     andThen (client_recv_server_hello L server_pk nonce_c) (\<lambda>nonce_s.
     client_respond L client_sk nonce_c nonce_s)))))"

subsection \<open>Server side\<close>

definition server_hello :: "bytes \<Rightarrow> pyfloat \<Rightarrow> bytes \<Rightarrow> bytes \<Rightarrow> bytes" where
  "server_hello nonce_s ts_s challenge_s sig_s =
     encode_hs [(u ''nonce_s'', JStr (hex nonce_s)), (u ''timestamp'', JFloat ts_s),
                (u ''challenge'', JStr (hex challenge_s)), (u ''signature'', JStr (hex sig_s))]"

definition server_done :: "bytes \<Rightarrow> bytes \<Rightarrow> bytes" where
  "server_done session_id encrypted =
     encode_hs [(u ''session_id'', JStr (hex session_id)),
                (u ''encrypted_session_key'', JStr (hex encrypted))]"

definition server_recv_client_hello :: "('sk, 'pk) crypto_lib \<Rightarrow> (world, bytes) io" where
  "server_recv_client_hello L =
     andThen (recv_frame L None None) (\<lambda>(msg_type, _, ch_payload).
     if msg_type \<noteq> HANDSHAKE_CLIENT_HELLO then raise (expected_error ''ClientHello'' msg_type) else
     andThen (of_result (decode_hs ch_payload)) (\<lambda>ch.
     andThen (of_result (hex_field ch (u ''nonce_c''))) (\<lambda>nonce_c.
     andThen (of_result (field ch (u ''timestamp''))) (\<lambda>ts_c.
     andThen time_now (\<lambda>now.
     andThen (of_result (stale now ts_c)) (\<lambda>old.
     if old then
       reject L ''ClientHello timestamp outside acceptable window''
                ''ClientHello timestamp rejected''
     else ret nonce_c))))))"

definition server_recv_client_response ::
    "('sk, 'pk) crypto_lib \<Rightarrow> 'pk \<Rightarrow> bytes \<Rightarrow> bytes \<Rightarrow> (world, unit) io" where
  "server_recv_client_response L client_pk nonce_s nonce_c =
     andThen (recv_frame L None None) (\<lambda>(msg_type, _, cr_payload).
     if msg_type \<noteq> HANDSHAKE_CLIENT_RESPONSE then raise (expected_error ''ClientResponse'' msg_type)
     else
     andThen (of_result (decode_hs cr_payload)) (\<lambda>cr.
     andThen (of_result (hex_field cr (u ''challenge_response''))) (\<lambda>challenge_response.
     andThen (of_result (hex_field cr (u ''signature''))) (\<lambda>sig_c.
     if \<not> verify_hmac (nonce_s @ nonce_c) challenge_response CHALLENGE_HMAC_KEY then
       reject L ''Challenge response HMAC mismatch'' ''Client challenge response mismatch''
     else if \<not> verify_signature L (nonce_s @ nonce_c) sig_c client_pk then
       reject L ''Client signature verification failed'' ''Client signature verification FAILED''
     else ret ()))))"

text \<open>The server's nonce, sent with its challenge and its signature over both nonces.\<close>

definition server_challenge ::
    "('sk, 'pk) crypto_lib \<Rightarrow> 'sk \<Rightarrow> bytes \<Rightarrow> (world, bytes) io" where
  "server_challenge L server_sk nonce_c =
     andThen (urandom 16) (\<lambda>nonce_s.
     andThen time_now (\<lambda>ts_s.
     let challenge_s = compute_hmac (nonce_c @ nonce_s) CHALLENGE_HMAC_KEY in
     andThen (sign_data L (nonce_c @ nonce_s) server_sk) (\<lambda>sig_s.
     andThen (send_frame L HANDSHAKE_SERVER_HELLO NULL_SID
                (server_hello nonce_s ts_s challenge_s sig_s) None None) (\<lambda>_.
     ret nonce_s))))"

definition server_finish ::
    "('sk, 'pk) crypto_lib \<Rightarrow> 'pk \<Rightarrow> (world, bytes \<times> bytes \<times> bytes) io" where
  "server_finish L client_pk =
     andThen (urandom SESSION_ID_SIZE) (\<lambda>session_id.
     andThen generate_session_key (\<lambda>session_key.
     andThen next_salt (\<lambda>salt.
     let encrypted = oaep_encrypt L client_pk salt session_key in
     andThen (send_frame L HANDSHAKE_SERVER_DONE NULL_SID (server_done session_id encrypted) None None)
       (\<lambda>_.
         let (enc_key, mac_key) = derive_keys L session_key (Some session_id) derive_keys_info
         in ret (session_id, enc_key, mac_key)))))"

definition server_handshake ::
    "('sk, 'pk) crypto_lib \<Rightarrow> 'sk \<Rightarrow> 'pk \<Rightarrow> (world, bytes \<times> bytes \<times> bytes) io" where
  "server_handshake L server_sk client_pk =
     andThen (settimeout (Some HANDSHAKE_TIMEOUT)) (\<lambda>_.
     andThen (server_recv_client_hello L) (\<lambda>nonce_c.
     andThen (server_challenge L server_sk nonce_c) (\<lambda>nonce_s.
     andThen (server_recv_client_response L client_pk nonce_s nonce_c) (\<lambda>_.
     server_finish L client_pk))))"

end
