(* ===== verification/Handshake_Facts.thy ===== *)
theory Handshake_Facts
  imports Handshake
begin

text \<open>
  Lemmas on the handshake's steps: what each receiving step has checked when it returns
  (inversion), how each step runs on the message an honest peer sends (execution), and the
  parts of the connection each step leaves alone.
\<close>

subsection \<open>Payloads\<close>

lemma scalar_u [simp]: "list_all scalar (u s)"
proof -
  have "scalar c" if "c \<in> set (u s)" for c
    using u_less_256 [OF that] by (simp add: scalar_def is_surrogate_def)
  then show ?thesis by (simp add: list_all_iff)
qed

lemma scalar_hex [simp]: "list_all scalar (hex bs)"
proof -
  have "scalar c" if "c \<in> set (hex bs)" for c
    using hex_printable [OF that] by (auto simp: scalar_def is_surrogate_def is_digit_def)
  then show ?thesis by (simp add: list_all_iff)
qed

lemma escape_hex: "concat (map escape_char (hex bs)) = hex bs"
proof -
  have "concat (map escape_char s) = s" if "\<forall>c \<in> set s. is_digit c \<or> (97 \<le> c \<and> c \<le> 102)" for s
    using that by (induction s) (auto simp: escape_char_def is_digit_def)
  then show ?thesis using hex_printable by blast
qed

lemma length_dumps_hex: "length (dumps_str (hex bs)) = 2 * length bs + 2"
  by (simp add: dumps_str_def escape_hex)

lemma length_dumps_key: "length (dumps_str (u s)) \<le> 6 * length s + 2"
proof -
  have "length (concat (map escape_char cs)) \<le> 6 * length cs" if "\<forall>c \<in> set cs. c < 256" for cs
    using that by (induction cs) (auto simp: escape_char_def uescape_def hex4_def)
  moreover have "\<forall>c \<in> set (u s). c < 256" using u_less_256 by blast
  ultimately have "length (concat (map escape_char (u s))) \<le> 6 * length (u s)" by blast
  then show ?thesis by (simp add: dumps_str_def)
qed

text \<open>A reading of the clock: finite, and of ordinary printed length.\<close>

definition clock_ok :: "pyfloat \<Rightarrow> bool" where
  "clock_ok f \<longleftrightarrow> wf_float f \<and> length (repr_float f) \<le> 64 \<and> f \<notin> {NaN, PInf, NInf}"

lemma decode_client_hello:
  "clock_ok ts \<Longrightarrow> decode_hs (client_hello n ts) =
     Inr (JObj [(u ''nonce_c'', JStr (hex n)), (u ''timestamp'', JFloat ts)])"
  unfolding decode_hs_def client_hello_def encode_hs_def
  by (rule loads_dumps_bytes) (simp add: clock_ok_def)

lemma decode_server_hello:
  "clock_ok ts \<Longrightarrow> decode_hs (server_hello n ts c s) =
     Inr (JObj [(u ''nonce_s'', JStr (hex n)), (u ''timestamp'', JFloat ts),
                (u ''challenge'', JStr (hex c)), (u ''signature'', JStr (hex s))])"
  unfolding decode_hs_def server_hello_def encode_hs_def
  by (rule loads_dumps_bytes) (simp add: clock_ok_def)

lemma decode_client_response:
  "decode_hs (client_response c s) =
     Inr (JObj [(u ''challenge_response'', JStr (hex c)), (u ''signature'', JStr (hex s))])"
  unfolding decode_hs_def client_response_def encode_hs_def
  by (rule loads_dumps_bytes) simp

lemma decode_server_done:
  "decode_hs (server_done sid e) =
     Inr (JObj [(u ''session_id'', JStr (hex sid)), (u ''encrypted_session_key'', JStr (hex e))])"
  unfolding decode_hs_def server_done_def encode_hs_def
  by (rule loads_dumps_bytes) simp

lemma length_payloads:
  "clock_ok ts \<Longrightarrow> length (client_hello n ts) \<le> 2 * length n + 1000"
  "clock_ok ts \<Longrightarrow> length (server_hello n ts c s) \<le> 2 * (length n + length c + length s) + 1000"
  "length (client_response c s) \<le> 2 * (length c + length s) + 1000"
  "length (server_done c s) \<le> 2 * (length c + length s) + 1000"
  using length_dumps_key [of "''nonce_c''"] length_dumps_key [of "''nonce_s''"]
    length_dumps_key [of "''timestamp''"] length_dumps_key [of "''challenge''"]
    length_dumps_key [of "''signature''"] length_dumps_key [of "''challenge_response''"]
    length_dumps_key [of "''session_id''"] length_dumps_key [of "''encrypted_session_key''"]
  by (simp_all add: client_hello_def server_hello_def client_response_def server_done_def
      encode_hs_def dumps_bytes_def length_dumps_hex clock_ok_def)

subsection \<open>Sending in clear\<close>

definition clear_frame :: "message_type \<Rightarrow> bytes \<Rightarrow> bytes" where
  "clear_frame t p =
     (let body = [type_byte t] @ NULL_SID @ replicate GCM_NONCE_SIZE 0 @ p
      in frame_bytes body (compute_hmac body HANDSHAKE_HMAC_KEY))"

lemma length_NULL_SID [simp]: "length NULL_SID = SESSION_ID_SIZE"
  by (simp add: NULL_SID_def)

lemma send_clear:
  assumes "send_faults w = []" and "length p \<le> 100000"
  shows "send_frame L t NULL_SID p None None w = (Inr (), w\<lparr>sent := sent w @ clear_frame t p\<rparr>)"
proof -
  have "\<not> MAX_FRAME_SIZE < length ([type_byte t] @ NULL_SID @ replicate GCM_NONCE_SIZE 0 @ p)
      + HMAC_DIGEST_SIZE"
    using assms(2) by (simp add: wire_simps)
  then show ?thesis
    using assms(1)
    by (simp only: send_frame_def length_NULL_SID andThen_def ret_def option.case sum.case prod.case
        Let_def simp_thms if_False)
      (simp add: sendall_def clear_frame_def effective_mac_key_def Let_def)
qed

lemma carries_clear_frame:
  "length p \<le> 100000 \<Longrightarrow> carries L None None (t, NULL_SID, p) (clear_frame t p)"
proof -
  assume p: "length p \<le> 100000"
  let ?n = "replicate GCM_NONCE_SIZE 0"
  have "length ([type_byte t] @ NULL_SID @ ?n @ p) + HMAC_DIGEST_SIZE \<le> MAX_FRAME_SIZE"
    using p by (simp add: wire_simps)
  then show ?thesis
    unfolding carries_def clear_frame_def Let_def
    by (intro exI [of _ t] exI [of _ NULL_SID] exI [of _ p] exI [of _ ?n]
        exI [of _ "[type_byte t] @ NULL_SID @ ?n @ p"] conjI refl)
      (simp_all add: effective_mac_key_def)
qed

lemma recv_clear:
  assumes "arriving (inq w) = clear_frame t p @ rest" and "length p \<le> 100000"
  obtains q' where "recv_frame L None None w = (Inr (t, NULL_SID, p), w\<lparr>inq := q'\<rparr>)"
    and "arriving q' = rest"
  using carries_received [OF carries_clear_frame [OF assms(2)] assms(1)] by metis

lemma send_clear_Inr:
  assumes "send_frame L t sid p None mk w = (Inr (), w')"
  shows "\<exists>bs fs. w' = w\<lparr>sent := bs, send_faults := fs\<rparr>"
proof -
  have "\<exists>bs. sendall bs w = (Inr (), w')"
    using assms by (auto simp: send_frame_def raise_def andThen_def ret_def Let_def split: if_splits)
  then obtain bs where bs: "sendall bs w = (Inr (), w')" by blast
  show ?thesis
  proof (cases "send_faults w")
    case Nil
    then show ?thesis using bs
      by (intro exI [of _ "sent w @ bs"] exI [of _ "send_faults w"]) (auto simp: sendall_def)
  next
    case (Cons f fs)
    then show ?thesis using bs
      by (intro exI [of _ "sent w @ bs"] exI [of _ fs], cases f) (auto simp: sendall_def)
  qed
qed

subsection \<open>Receiving leaves the rest of the connection alone\<close>

lemma recv_frame_only_inq: "snd (recv_frame L ek mk w) = w\<lparr>inq := inq (snd (recv_frame L ek mk w))\<rparr>"
proof -
  have ex: "\<exists>q. recv_exact n w = (fst (recv_exact n w), w\<lparr>inq := q\<rparr>)" for n w
    by (cases "recv_exact_loop n [] (inq w)") (auto simp: recv_exact_def)
  obtain q1 where q1: "recv_exact HEADER_SIZE w = (fst (recv_exact HEADER_SIZE w), w\<lparr>inq := q1\<rparr>)"
    using ex by blast
  show ?thesis
  proof (cases "fst (recv_exact HEADER_SIZE w)")
    case (Inl e)
    then have "recv_frame L ek mk w = (Inl e, w\<lparr>inq := q1\<rparr>)"
      using q1 by (simp add: recv_frame_def andThen_def)
    then show ?thesis by simp
  next
    case (Inr h)
    obtain q2 where q2: "recv_exact (be_value h) (w\<lparr>inq := q1\<rparr>)
        = (fst (recv_exact (be_value h) (w\<lparr>inq := q1\<rparr>)), w\<lparr>inq := q2\<rparr>)"
      using ex [of "be_value h" "w\<lparr>inq := q1\<rparr>"] by auto
    have "\<exists>r q. recv_frame L ek mk w = (r, w\<lparr>inq := q\<rparr>)"
      using q1 q2 Inr
      by (cases "fst (recv_exact (be_value h) (w\<lparr>inq := q1\<rparr>))")
        (auto simp: recv_frame_def andThen_def Let_def raise_def of_result_def)
    then show ?thesis by auto
  qed
qed

lemma recv_frame_step:
  obtains r q where "recv_frame L ek mk w = (r, w\<lparr>inq := q\<rparr>)"
  using recv_frame_only_inq [of L ek mk w] by (metis prod.collapse)

subsection \<open>Inversion: what a step that returns has checked\<close>

lemma io_Inr_simps:
  "ret x w = (Inr y, w') \<longleftrightarrow> y = x \<and> w' = w"
  "raise e w = (Inr z, w'') \<longleftrightarrow> False"
  "of_result r w = (Inr y', w') \<longleftrightarrow> r = Inr y' \<and> w' = w"
  "time_now v = (Inr now, v') \<longleftrightarrow> now = clock v (clock_pos v) \<and> v' = v\<lparr>clock_pos := Suc (clock_pos v)\<rparr>"
  "settimeout t v = (Inr un, v') \<longleftrightarrow> v' = v\<lparr>sock_timeout := t\<rparr>"
  "next_salt v = (Inr salt, v') \<longleftrightarrow> salt = salt_pos v \<and> v' = v\<lparr>salt_pos := Suc (salt_pos v)\<rparr>"
  "urandom n v = (Inr bs, v') \<longleftrightarrow>
     bs = map (rnd v) [rnd_pos v ..< rnd_pos v + n] \<and> v' = v\<lparr>rnd_pos := rnd_pos v + n\<rparr>"
  by (auto simp: ret_def raise_def of_result_def time_now_def settimeout_def next_salt_def urandom_def)

lemma reject_never_returns [simp]: "reject L a b w \<noteq> (Inr y, w')"
  by (auto simp: reject_def andThen_eq_Inr_iff io_Inr_simps)

text \<open>What the two sides demand of the peer's messages.\<close>

definition hello_accepted :: "pyfloat \<Rightarrow> bytes \<Rightarrow> bytes \<Rightarrow> bool" where
  "hello_accepted now payload nonce_c \<longleftrightarrow>
     (\<exists>ch ts. decode_hs payload = Inr ch \<and> hex_field ch (u ''nonce_c'') = Inr nonce_c \<and>
        field ch (u ''timestamp'') = Inr ts \<and> stale now ts = Inr False)"

definition client_proved ::
    "('sk, 'pk) crypto_lib \<Rightarrow> 'pk \<Rightarrow> bytes \<Rightarrow> bytes \<Rightarrow> bytes \<Rightarrow> bool" where
  "client_proved L client_pk nonce_s nonce_c payload \<longleftrightarrow>
     (\<exists>cr sig. decode_hs payload = Inr cr \<and>
        hex_field cr (u ''challenge_response'')
          = Inr (compute_hmac (nonce_s @ nonce_c) CHALLENGE_HMAC_KEY) \<and>
        hex_field cr (u ''signature'') = Inr sig \<and>
        verify_signature L (nonce_s @ nonce_c) sig client_pk)"

definition server_proved ::
    "('sk, 'pk) crypto_lib \<Rightarrow> 'pk \<Rightarrow> pyfloat \<Rightarrow> bytes \<Rightarrow> bytes \<Rightarrow> bytes \<Rightarrow> bool" where
  "server_proved L server_pk now nonce_c nonce_s payload \<longleftrightarrow>
     (\<exists>sh ts sig. decode_hs payload = Inr sh \<and> hex_field sh (u ''nonce_s'') = Inr nonce_s \<and>
        field sh (u ''timestamp'') = Inr ts \<and> stale now ts = Inr False \<and>
        hex_field sh (u ''challenge'')
          = Inr (compute_hmac (nonce_c @ nonce_s) CHALLENGE_HMAC_KEY) \<and>
        hex_field sh (u ''signature'') = Inr sig \<and>
        verify_signature L (nonce_c @ nonce_s) sig server_pk)"

text \<open>One frame of the given type and payload has been taken off the stream.\<close>

definition took_frame ::
    "('sk, 'pk) crypto_lib \<Rightarrow> message_type \<Rightarrow> bytes \<Rightarrow> net_event list \<Rightarrow> net_event list \<Rightarrow> bool" where
  "took_frame L t p q q' \<longleftrightarrow>
     (\<exists>sid f. carries L None None (t, sid, p) f \<and> arriving q = f @ arriving q')"

lemma recv_frame_took:
  assumes "recv_frame L None None v = (Inr (t, sid, p), v')"
  shows "took_frame L t p (inq v) (inq v')" and "v' = v\<lparr>inq := inq v'\<rparr>"
  using assms unfolding took_frame_def by (blast elim: recv_frame_Inr)+

lemma server_recv_client_hello_Inr:
  assumes "server_recv_client_hello L v = (Inr nonce_c, v')"
  shows "\<exists>p. took_frame L HANDSHAKE_CLIENT_HELLO p (inq v) (inq v') \<and>
      hello_accepted (clock v (clock_pos v)) p nonce_c"
    and "v' = v\<lparr>inq := inq v', clock_pos := Suc (clock_pos v)\<rparr>"
proof -
  obtain sid p v1 ch ts where r: "recv_frame L None None v = (Inr (HANDSHAKE_CLIENT_HELLO, sid, p), v1)"
    and v': "v' = v1\<lparr>clock_pos := Suc (clock_pos v1)\<rparr>"
    and chk: "decode_hs p = Inr ch" "hex_field ch (u ''nonce_c'') = Inr nonce_c"
      "field ch (u ''timestamp'') = Inr ts" "stale (clock v1 (clock_pos v1)) ts = Inr False"
    using assms by (auto simp: server_recv_client_hello_def andThen_eq_Inr_iff io_Inr_simps split: if_splits)
  note t = recv_frame_took [OF r]
  have v1: "clock v1 = clock v" "clock_pos v1 = clock_pos v" by (subst t(2); simp)+
  have "took_frame L HANDSHAKE_CLIENT_HELLO p (inq v) (inq v')" using t(1) v' by simp
  moreover have "hello_accepted (clock v (clock_pos v)) p nonce_c"
    using chk v1 unfolding hello_accepted_def by auto
  ultimately show "\<exists>p. took_frame L HANDSHAKE_CLIENT_HELLO p (inq v) (inq v') \<and>
      hello_accepted (clock v (clock_pos v)) p nonce_c" by blast
  show "v' = v\<lparr>inq := inq v', clock_pos := Suc (clock_pos v)\<rparr>"
    using arg_cong [OF t(2), of "\<lambda>x. x\<lparr>clock_pos := Suc (clock_pos v)\<rparr>"] v1 by (simp add: v')
qed

lemma server_recv_client_response_Inr:
  assumes "server_recv_client_response L pk nonce_s nonce_c v = (Inr (), v')"
  shows "\<exists>p. took_frame L HANDSHAKE_CLIENT_RESPONSE p (inq v) (inq v') \<and>
      client_proved L pk nonce_s nonce_c p"
    and "v' = v\<lparr>inq := inq v'\<rparr>"
proof -
  obtain sid p cr ch sig where r: "recv_frame L None None v = (Inr (HANDSHAKE_CLIENT_RESPONSE, sid, p), v')"
    and chk: "decode_hs p = Inr cr" "hex_field cr (u ''challenge_response'') = Inr ch"
      "hex_field cr (u ''signature'') = Inr sig" "verify_hmac (nonce_s @ nonce_c) ch CHALLENGE_HMAC_KEY"
      "verify_signature L (nonce_s @ nonce_c) sig pk"
    using assms by (auto simp: server_recv_client_response_def andThen_eq_Inr_iff io_Inr_simps
        split: if_splits)
  show "\<exists>p. took_frame L HANDSHAKE_CLIENT_RESPONSE p (inq v) (inq v') \<and>
      client_proved L pk nonce_s nonce_c p"
    using recv_frame_took(1) [OF r] chk unfolding client_proved_def verify_hmac_def by blast
  show "v' = v\<lparr>inq := inq v'\<rparr>" by (rule recv_frame_took(2) [OF r])
qed

lemma client_recv_server_hello_Inr:
  assumes "client_recv_server_hello L pk nonce_c v = (Inr nonce_s, v')"
  shows "\<exists>p. took_frame L HANDSHAKE_SERVER_HELLO p (inq v) (inq v') \<and>
      server_proved L pk (clock v (clock_pos v)) nonce_c nonce_s p"
    and "v' = v\<lparr>inq := inq v', clock_pos := Suc (clock_pos v)\<rparr>"
proof -
  obtain sid p v1 sh ts ch sig where
      r: "recv_frame L None None v = (Inr (HANDSHAKE_SERVER_HELLO, sid, p), v1)"
    and v': "v' = v1\<lparr>clock_pos := Suc (clock_pos v1)\<rparr>"
    and chk: "decode_hs p = Inr sh" "hex_field sh (u ''nonce_s'') = Inr nonce_s"
      "field sh (u ''timestamp'') = Inr ts" "stale (clock v1 (clock_pos v1)) ts = Inr False"
      "hex_field sh (u ''challenge'') = Inr ch" "hex_field sh (u ''signature'') = Inr sig"
      "verify_signature L (nonce_c @ nonce_s) sig pk"
      "verify_hmac (nonce_c @ nonce_s) ch CHALLENGE_HMAC_KEY"
    using assms by (auto simp: client_recv_server_hello_def andThen_eq_Inr_iff io_Inr_simps
        split: if_splits)
  note t = recv_frame_took [OF r]
  have v1: "clock v1 = clock v" "clock_pos v1 = clock_pos v" by (subst t(2); simp)+
  have "took_frame L HANDSHAKE_SERVER_HELLO p (inq v) (inq v')" using t(1) v' by simp
  moreover have "server_proved L pk (clock v (clock_pos v)) nonce_c nonce_s p"
    using chk v1 unfolding server_proved_def verify_hmac_def by auto
  ultimately show "\<exists>p. took_frame L HANDSHAKE_SERVER_HELLO p (inq v) (inq v') \<and>
      server_proved L pk (clock v (clock_pos v)) nonce_c nonce_s p" by blast
  show "v' = v\<lparr>inq := inq v', clock_pos := Suc (clock_pos v)\<rparr>"
    using arg_cong [OF t(2), of "\<lambda>x. x\<lparr>clock_pos := Suc (clock_pos v)\<rparr>"] v1 by (simp add: v')
qed

text \<open>The sending steps: what goes out, and the randomness it is made from.\<close>

definition random_at :: "world \<Rightarrow> nat \<Rightarrow> nat \<Rightarrow> bytes" where
  "random_at w k n = map (rnd w) [rnd_pos w + k ..< rnd_pos w + k + n]"

lemma length_random_at [simp]: "length (random_at w k n) = n"
  by (simp add: random_at_def)

lemma server_challenge_Inr:
  assumes "server_challenge L sk nonce_c v = (Inr nonce_s, v')"
  shows "nonce_s = random_at v 0 16" and "inq v' = inq v" and "rnd v' = rnd v"
    and "rnd_pos v' = rnd_pos v + 16"
  using assms
  by (auto simp: server_challenge_def andThen_eq_Inr_iff io_Inr_simps sign_data_def Let_def
      random_at_def dest!: send_clear_Inr)

lemma server_finish_Inr:
  assumes "server_finish L pk v = (Inr (sid, ek, mk), v')"
  shows "sid = random_at v 0 16" and "inq v' = inq v"
    and "(ek, mk) = derive_keys L (random_at v 16 32) (Some sid) derive_keys_info"
  using assms
  by (auto simp: server_finish_def generate_session_key_def andThen_eq_Inr_iff io_Inr_simps
      Let_def random_at_def wire_simps split: prod.splits dest!: send_clear_Inr)

lemma client_recv_server_done_Inr:
  assumes "client_recv_server_done L sk v = (Inr (sid, ek, mk), v')"
  shows "\<exists>p sd enc key. took_frame L HANDSHAKE_SERVER_DONE p (inq v) (inq v') \<and>
    decode_hs p = Inr sd \<and> hex_field sd (u ''session_id'') = Inr sid \<and>
    hex_field sd (u ''encrypted_session_key'') = Inr enc \<and> oaep_decrypt L sk enc = Some key \<and>
    (ek, mk) = derive_keys L key (Some sid) derive_keys_info"
proof -
  obtain sid' p sd enc key where r: "recv_frame L None None v = (Inr (HANDSHAKE_SERVER_DONE, sid', p), v')"
    and "decode_hs p = Inr sd" "hex_field sd (u ''session_id'') = Inr sid"
      "hex_field sd (u ''encrypted_session_key'') = Inr enc" "oaep_decrypt L sk enc = Some key"
      "(ek, mk) = derive_keys L key (Some sid) derive_keys_info"
    using assms by (auto simp: client_recv_server_done_def andThen_eq_Inr_iff io_Inr_simps Let_def
        split: if_splits prod.splits)
  then show ?thesis using recv_frame_took(1) [OF r] by blast
qed

subsection \<open>Execution: how a step runs on an honest peer's message\<close>

text \<open>RSA outputs are as long as the modulus; the two clocks agree up to the tolerated drift.\<close>

definition rsa_ok :: "('sk, 'pk) crypto_lib \<Rightarrow> bool" where
  "rsa_ok L \<longleftrightarrow>
     (\<forall>k salt m. length (pss_sign L k salt m) \<le> 1024) \<and>
     (\<forall>k salt m. length m = AES_KEY_SIZE \<longrightarrow> length (oaep_encrypt L k salt m) \<le> 1024)"

definition clocks_agree :: "world \<Rightarrow> world \<Rightarrow> bool" where
  "clocks_agree v w \<longleftrightarrow>
     (\<forall>i j. clock_ok (clock v i) \<and> clock_ok (clock w j) \<and>
        \<not> abs_diff_exceeds (clock v i) (clock w j) MAX_TIMESTAMP_DRIFT)"

lemma abs_diff_exceeds_sym: "abs_diff_exceeds a b d = abs_diff_exceeds b a d"
  by (cases a; cases b) (simp_all add: abs_minus_commute add.commute)

lemma clocks_agreeD:
  assumes "clocks_agree v w"
  shows "clock_ok (clock v i)" and "clock_ok (clock w j)"
    and "stale (clock v i) (JFloat (clock w j)) = Inr False"
    and "stale (clock w j) (JFloat (clock v i)) = Inr False"
  using assms abs_diff_exceeds_sym by (auto simp: clocks_agree_def stale_def)

lemma length_CHALLENGE [simp]: "length (compute_hmac m k) = 32"
  by simp

lemma hex_field_simps [simp]:
  "hex_field (JObj ((k, JStr (hex b)) # d)) k = Inr b"
  "k \<noteq> k' \<Longrightarrow> hex_field (JObj ((k', v) # d)) k = hex_field (JObj d) k"
  "field (JObj ((k, v) # d)) k = Inr v"
  "k \<noteq> k' \<Longrightarrow> field (JObj ((k', v) # d)) k = field (JObj d) k"
  by (simp_all add: hex_field_def field_def json_fromhex_def dict_get_def)

lemma server_recv_client_hello_run:
  assumes "arriving (inq v) = clear_frame HANDSHAKE_CLIENT_HELLO (client_hello nonce_c ts) @ rest"
    and "length nonce_c = 16" and "clock_ok ts"
    and "stale (clock v (clock_pos v)) (JFloat ts) = Inr False"
  obtains q' where "arriving q' = rest"
    and "server_recv_client_hello L v = (Inr nonce_c, v\<lparr>inq := q', clock_pos := Suc (clock_pos v)\<rparr>)"
proof -
  have "length (client_hello nonce_c ts) \<le> 100000"
    using length_payloads(1) [OF assms(3), of nonce_c] assms(2) by simp
  then obtain q' where q': "recv_frame L None None v
        = (Inr (HANDSHAKE_CLIENT_HELLO, NULL_SID, client_hello nonce_c ts), v\<lparr>inq := q'\<rparr>)"
    and "arriving q' = rest"
    by (rule recv_clear [OF assms(1)])
  moreover have "server_recv_client_hello L v = (Inr nonce_c, v\<lparr>inq := q', clock_pos := Suc (clock_pos v)\<rparr>)"
    using q' assms(3,4)
    by (simp add: server_recv_client_hello_def andThen_def decode_client_hello of_result_def
        time_now_def ret_def)
  ultimately show ?thesis using that by blast
qed

lemma server_recv_client_response_run:
  assumes "arriving (inq v) = clear_frame HANDSHAKE_CLIENT_RESPONSE
      (client_response (compute_hmac (nonce_s @ nonce_c) CHALLENGE_HMAC_KEY) sig) @ rest"
    and "length sig \<le> 1024" and "verify_signature L (nonce_s @ nonce_c) sig pk"
  obtains q' where "arriving q' = rest"
    and "server_recv_client_response L pk nonce_s nonce_c v = (Inr (), v\<lparr>inq := q'\<rparr>)"
proof -
  let ?p = "client_response (compute_hmac (nonce_s @ nonce_c) CHALLENGE_HMAC_KEY) sig"
  have "length ?p \<le> 100000"
    using length_payloads(3) [of "compute_hmac (nonce_s @ nonce_c) CHALLENGE_HMAC_KEY" sig] assms(2)
    by simp
  then obtain q' where q': "recv_frame L None None v
        = (Inr (HANDSHAKE_CLIENT_RESPONSE, NULL_SID, ?p), v\<lparr>inq := q'\<rparr>)" and "arriving q' = rest"
    by (rule recv_clear [OF assms(1)])
  moreover have "server_recv_client_response L pk nonce_s nonce_c v = (Inr (), v\<lparr>inq := q'\<rparr>)"
    using q' assms(3)
    by (simp add: server_recv_client_response_def andThen_def decode_client_response of_result_def
        ret_def)
  ultimately show ?thesis using that by blast
qed

lemma client_recv_server_hello_run:
  assumes "arriving (inq v) = clear_frame HANDSHAKE_SERVER_HELLO
      (server_hello nonce_s ts (compute_hmac (nonce_c @ nonce_s) CHALLENGE_HMAC_KEY) sig) @ rest"
    and "length nonce_s = 16" and "clock_ok ts" and "length sig \<le> 1024"
    and "stale (clock v (clock_pos v)) (JFloat ts) = Inr False"
    and "verify_signature L (nonce_c @ nonce_s) sig pk"
  obtains q' where "arriving q' = rest"
    and "client_recv_server_hello L pk nonce_c v
        = (Inr nonce_s, v\<lparr>inq := q', clock_pos := Suc (clock_pos v)\<rparr>)"
proof -
  let ?c = "compute_hmac (nonce_c @ nonce_s) CHALLENGE_HMAC_KEY"
  let ?p = "server_hello nonce_s ts ?c sig"
  have "length ?p \<le> 100000"
    using length_payloads(2) [OF assms(3), of nonce_s ?c sig] assms(2,4) by simp
  then obtain q' where q': "recv_frame L None None v
        = (Inr (HANDSHAKE_SERVER_HELLO, NULL_SID, ?p), v\<lparr>inq := q'\<rparr>)" and "arriving q' = rest"
    by (rule recv_clear [OF assms(1)])
  moreover have "client_recv_server_hello L pk nonce_c v
        = (Inr nonce_s, v\<lparr>inq := q', clock_pos := Suc (clock_pos v)\<rparr>)"
    using q' assms(3,5,6)
    by (simp add: client_recv_server_hello_def andThen_def decode_server_hello of_result_def
        time_now_def ret_def)
  ultimately show ?thesis using that by blast
qed

lemma client_recv_server_done_run:
  assumes "arriving (inq v) = clear_frame HANDSHAKE_SERVER_DONE (server_done sid enc) @ rest"
    and "length sid = 16" and "length enc \<le> 1024" and "oaep_decrypt L sk enc = Some key"
  obtains q' where "arriving q' = rest"
    and "client_recv_server_done L sk v = (Inr (sid, derive_keys L key (Some sid) derive_keys_info), v\<lparr>inq := q'\<rparr>)"
proof -
  have "length (server_done sid enc) \<le> 100000"
    using length_payloads(4) [of sid enc] assms(2,3) by simp
  then obtain q' where q': "recv_frame L None None v
        = (Inr (HANDSHAKE_SERVER_DONE, NULL_SID, server_done sid enc), v\<lparr>inq := q'\<rparr>)"
    and "arriving q' = rest"
    by (rule recv_clear [OF assms(1)])
  moreover have "client_recv_server_done L sk v
      = (Inr (sid, derive_keys L key (Some sid) derive_keys_info), v\<lparr>inq := q'\<rparr>)"
    using q' assms(4)
    by (simp add: client_recv_server_done_def andThen_def decode_server_done of_result_def
        ret_def Let_def case_prod_beta)
  ultimately show ?thesis using that by blast
qed

end
