(* ===== verification/Handshake_Run.thy ===== *)
theory Handshake_Run
  imports Handshake_Facts
begin

text \<open>
  Whole runs of the handshake: the four messages as functions of the two sides' randomness,
  clocks and keys, the run of each side on the other's messages, and the properties of the
  handshake.
\<close>

subsection \<open>The four messages of a run\<close>

definition ch_frame :: "world \<Rightarrow> bytes" where
  "ch_frame cw = clear_frame HANDSHAKE_CLIENT_HELLO
     (client_hello (random_at cw 0 16) (clock cw (clock_pos cw)))"

definition sh_frame :: "('sk, 'pk) crypto_lib \<Rightarrow> 'sk \<Rightarrow> bytes \<Rightarrow> world \<Rightarrow> bytes" where
  "sh_frame L ssk nonce_c sw =
     (let nonce_s = random_at sw 0 16 in
      clear_frame HANDSHAKE_SERVER_HELLO
        (server_hello nonce_s (clock sw (Suc (clock_pos sw)))
           (compute_hmac (nonce_c @ nonce_s) CHALLENGE_HMAC_KEY)
           (pss_sign L ssk (salt_pos sw) (nonce_c @ nonce_s))))"

definition cr_frame :: "('sk, 'pk) crypto_lib \<Rightarrow> 'sk \<Rightarrow> bytes \<Rightarrow> world \<Rightarrow> bytes" where
  "cr_frame L csk nonce_s cw =
     (let nonce_c = random_at cw 0 16 in
      clear_frame HANDSHAKE_CLIENT_RESPONSE
        (client_response (compute_hmac (nonce_s @ nonce_c) CHALLENGE_HMAC_KEY)
           (pss_sign L csk (salt_pos cw) (nonce_s @ nonce_c))))"

definition sd_frame :: "('sk, 'pk) crypto_lib \<Rightarrow> 'pk \<Rightarrow> nat \<Rightarrow> bytes \<Rightarrow> bytes \<Rightarrow> bytes" where
  "sd_frame L cpk salt sid key =
     clear_frame HANDSHAKE_SERVER_DONE (server_done sid (oaep_encrypt L cpk salt key))"

lemma rsa_okD:
  assumes "rsa_ok L"
  shows "length (pss_sign L k salt m) \<le> 1024"
    and "length m = 32 \<Longrightarrow> length (oaep_encrypt L pk salt m) \<le> 1024"
  using assms by (simp_all add: rsa_ok_def wire_simps)

lemma pss_okD: "pss_ok L \<Longrightarrow> verify_signature L m (pss_sign L sk salt m) (public_key L sk)"
  by (simp add: pss_ok_def verify_signature_def)

lemma oaep_okD:
  "oaep_ok L \<Longrightarrow> length m = 32 \<Longrightarrow> oaep_decrypt L sk (oaep_encrypt L (public_key L sk) salt m) = Some m"
  by (simp add: oaep_ok_def wire_simps)

subsection \<open>Opening moves\<close>

lemma client_open:
  assumes "send_faults cw = []" and "clock_ok (clock cw (clock_pos cw))"
  shows "client_handshake L csk spk cw =
    andThen (client_recv_server_hello L spk (random_at cw 0 16)) (client_respond L csk (random_at cw 0 16))
      (cw\<lparr>sock_timeout := Some HANDSHAKE_TIMEOUT, rnd_pos := rnd_pos cw + 16,
          clock_pos := Suc (clock_pos cw), sent := sent cw @ ch_frame cw\<rparr>)"
proof -
  have "length (client_hello (random_at cw 0 16) (clock cw (clock_pos cw))) \<le> 100000"
    using length_payloads(1) [OF assms(2), of "random_at cw 0 16"] by simp
  then show ?thesis using assms(1)
    by (simp add: client_handshake_def andThen_def settimeout_def urandom_def time_now_def
        send_clear random_at_def ch_frame_def)
qed

lemma server_challenge_run:
  assumes "send_faults v = []" and "clock_ok (clock v (clock_pos v))" and "rsa_ok L"
    and "length nonce_c = 16"
  shows "server_challenge L ssk nonce_c v = (let nonce_s = random_at v 0 16 in
    (Inr nonce_s, v\<lparr>rnd_pos := rnd_pos v + 16, clock_pos := Suc (clock_pos v),
       salt_pos := Suc (salt_pos v),
       sent := sent v @ clear_frame HANDSHAKE_SERVER_HELLO
        (server_hello nonce_s (clock v (clock_pos v))
           (compute_hmac (nonce_c @ nonce_s) CHALLENGE_HMAC_KEY)
           (pss_sign L ssk (salt_pos v) (nonce_c @ nonce_s)))\<rparr>))"
proof -
  let ?ns = "random_at v 0 16"
  let ?c = "compute_hmac (nonce_c @ ?ns) CHALLENGE_HMAC_KEY"
  let ?s = "pss_sign L ssk (salt_pos v) (nonce_c @ ?ns)"
  have "length (server_hello ?ns (clock v (clock_pos v)) ?c ?s) \<le> 100000"
    using length_payloads(2) [OF assms(2), of ?ns ?c ?s] rsa_okD(1) [OF assms(3), of ssk "salt_pos v" "nonce_c @ ?ns"]
    by simp
  then show ?thesis using assms(1)
    by (simp add: server_challenge_def sign_data_def andThen_def urandom_def time_now_def
        next_salt_def ret_def send_clear random_at_def Let_def)
qed

lemma server_finish_run:
  assumes "send_faults v = []" and "rsa_ok L"
  shows "\<exists>v'. server_finish L cpk v = (let sid = random_at v 0 16; key = random_at v 16 32 in
    (Inr (sid, derive_keys L key (Some sid) derive_keys_info), v')) \<and> inq v' = inq v \<and>
    sent v' = sent v @ sd_frame L cpk (salt_pos v) (random_at v 0 16) (random_at v 16 32)"
proof -
  let ?sid = "random_at v 0 16" and ?key = "random_at v 16 32"
  let ?e = "oaep_encrypt L cpk (salt_pos v) ?key"
  have "length (server_done ?sid ?e) \<le> 100000"
    using length_payloads(4) [of ?sid ?e] rsa_okD(2) [OF assms(2), of ?key cpk "salt_pos v"] by simp
  then show ?thesis using assms(1)
    by (simp add: server_finish_def generate_session_key_def andThen_def urandom_def next_salt_def
        ret_def send_clear random_at_def Let_def wire_simps sd_frame_def case_prod_beta add.assoc)
qed

lemma client_respond_open:
  assumes "send_faults v = []" and "rsa_ok L"
  shows "client_respond L csk nonce_c nonce_s v = client_recv_server_done L csk
    (v\<lparr>salt_pos := Suc (salt_pos v),
       sent := sent v @ clear_frame HANDSHAKE_CLIENT_RESPONSE
        (client_response (compute_hmac (nonce_s @ nonce_c) CHALLENGE_HMAC_KEY)
           (pss_sign L csk (salt_pos v) (nonce_s @ nonce_c)))\<rparr>)"
proof -
  let ?c = "compute_hmac (nonce_s @ nonce_c) CHALLENGE_HMAC_KEY"
  let ?s = "pss_sign L csk (salt_pos v) (nonce_s @ nonce_c)"
  have "length (client_response ?c ?s) \<le> 100000"
    using length_payloads(3) [of ?c ?s] rsa_okD(1) [OF assms(2), of csk "salt_pos v" "nonce_s @ nonce_c"]
    by simp
  then show ?thesis using assms(1)
    by (simp add: client_respond_def sign_data_def andThen_def next_salt_def ret_def send_clear Let_def)
qed

lemma server_open:
  assumes "arriving (inq sw) = ch_frame cw @ rest" and "send_faults sw = []"
    and "clocks_agree cw sw" and "rsa_ok L"
  obtains q' where "arriving q' = rest" and
    "server_handshake L ssk cpk sw = (let nonce_c = random_at cw 0 16; nonce_s = random_at sw 0 16 in
      andThen (server_recv_client_response L cpk nonce_s nonce_c) (\<lambda>_. server_finish L cpk)
        (sw\<lparr>sock_timeout := Some HANDSHAKE_TIMEOUT, inq := q', clock_pos := Suc (Suc (clock_pos sw)),
            rnd_pos := rnd_pos sw + 16, salt_pos := Suc (salt_pos sw),
            sent := sent sw @ sh_frame L ssk nonce_c sw\<rparr>))"
proof -
  let ?w1 = "sw\<lparr>sock_timeout := Some HANDSHAKE_TIMEOUT\<rparr>" and ?nc = "random_at cw 0 16"
  let ?ns = "random_at sw 0 16"
  have ar: "arriving (inq ?w1) = clear_frame HANDSHAKE_CLIENT_HELLO
      (client_hello ?nc (clock cw (clock_pos cw))) @ rest"
    using assms(1) by (simp add: ch_frame_def)
  obtain q' where q': "arriving q' = rest" and
    recv: "server_recv_client_hello L ?w1 = (Inr ?nc, ?w1\<lparr>inq := q', clock_pos := Suc (clock_pos ?w1)\<rparr>)"
    by (rule server_recv_client_hello_run [OF ar])
      (simp_all add: clocks_agreeD [OF assms(3)])
  let ?w2 = "?w1\<lparr>inq := q', clock_pos := Suc (clock_pos ?w1)\<rparr>"
  have "server_challenge L ssk ?nc ?w2 = (let nonce_s = random_at ?w2 0 16 in
    (Inr nonce_s, ?w2\<lparr>rnd_pos := rnd_pos ?w2 + 16, clock_pos := Suc (clock_pos ?w2),
       salt_pos := Suc (salt_pos ?w2),
       sent := sent ?w2 @ clear_frame HANDSHAKE_SERVER_HELLO
        (server_hello nonce_s (clock ?w2 (clock_pos ?w2))
           (compute_hmac (?nc @ nonce_s) CHALLENGE_HMAC_KEY)
           (pss_sign L ssk (salt_pos ?w2) (?nc @ nonce_s)))\<rparr>))"
    by (rule server_challenge_run) (use assms in \<open>simp_all add: clocks_agreeD [OF assms(3)]\<close>)
  then have "server_challenge L ssk ?nc ?w2 =
    (Inr ?ns, sw\<lparr>sock_timeout := Some HANDSHAKE_TIMEOUT, inq := q', clock_pos := Suc (Suc (clock_pos sw)),
            rnd_pos := rnd_pos sw + 16, salt_pos := Suc (salt_pos sw),
            sent := sent sw @ sh_frame L ssk ?nc sw\<rparr>)"
    by (simp add: Let_def sh_frame_def random_at_def)
  then show ?thesis using recv
    by (intro that [OF q']) (simp add: server_handshake_def andThen_def settimeout_def Let_def)
qed

subsection \<open>Complete runs\<close>

definition agreed :: "('sk, 'pk) crypto_lib \<Rightarrow> world \<Rightarrow> bytes \<times> bytes \<times> bytes" where
  "agreed L sw = (let sid = random_at sw 16 16; key = random_at sw 32 32
     in (sid, derive_keys L key (Some sid) derive_keys_info))"

text \<open>The server's side of an honest run.\<close>

lemma server_run:
  assumes "arriving (inq sw) = ch_frame cw @ cr_frame L csk (random_at sw 0 16) cw @ rest"
    and "send_faults sw = []" and "clocks_agree cw sw" and "rsa_ok L" and "pss_ok L"
  shows "\<exists>sw'. server_handshake L ssk (public_key L csk) sw = (Inr (agreed L sw), sw') \<and>
    arriving (inq sw') = rest \<and>
    sent sw' = sent sw @ sh_frame L ssk (random_at cw 0 16) sw
      @ sd_frame L (public_key L csk) (Suc (salt_pos sw)) (random_at sw 16 16) (random_at sw 32 32)"
proof -
  let ?nc = "random_at cw 0 16" and ?ns = "random_at sw 0 16" and ?cpk = "public_key L csk"
  obtain q' where q': "arriving q' = cr_frame L csk ?ns cw @ rest"
    and run: "server_handshake L ssk ?cpk sw = (let nonce_c = ?nc; nonce_s = ?ns in
      andThen (server_recv_client_response L ?cpk nonce_s nonce_c) (\<lambda>_. server_finish L ?cpk)
        (sw\<lparr>sock_timeout := Some HANDSHAKE_TIMEOUT, inq := q', clock_pos := Suc (Suc (clock_pos sw)),
            rnd_pos := rnd_pos sw + 16, salt_pos := Suc (salt_pos sw),
            sent := sent sw @ sh_frame L ssk nonce_c sw\<rparr>))"
    by (rule server_open [OF assms(1-4)])
  let ?w1 = "sw\<lparr>sock_timeout := Some HANDSHAKE_TIMEOUT, inq := q', clock_pos := Suc (Suc (clock_pos sw)),
            rnd_pos := rnd_pos sw + 16, salt_pos := Suc (salt_pos sw),
            sent := sent sw @ sh_frame L ssk ?nc sw\<rparr>"
  have ar: "arriving (inq ?w1) = clear_frame HANDSHAKE_CLIENT_RESPONSE
      (client_response (compute_hmac (?ns @ ?nc) CHALLENGE_HMAC_KEY)
        (pss_sign L csk (salt_pos cw) (?ns @ ?nc))) @ rest"
    using q' by (simp add: cr_frame_def Let_def)
  obtain q'' where q'': "arriving q'' = rest"
    and resp: "server_recv_client_response L ?cpk ?ns ?nc ?w1 = (Inr (), ?w1\<lparr>inq := q''\<rparr>)"
    by (rule server_recv_client_response_run [OF ar rsa_okD(1) [OF assms(4)] pss_okD [OF assms(5)]])
  obtain v' where fin: "server_finish L ?cpk (?w1\<lparr>inq := q''\<rparr>) =
      (let sid = random_at (?w1\<lparr>inq := q''\<rparr>) 0 16; key = random_at (?w1\<lparr>inq := q''\<rparr>) 16 32 in
        (Inr (sid, derive_keys L key (Some sid) derive_keys_info), v'))"
    and v': "inq v' = q''" "sent v' = sent ?w1 @ sd_frame L ?cpk (Suc (salt_pos sw))
        (random_at (?w1\<lparr>inq := q''\<rparr>) 0 16) (random_at (?w1\<lparr>inq := q''\<rparr>) 16 32)"
    using server_finish_run [of "?w1\<lparr>inq := q''\<rparr>" L ?cpk] assms(2,4) by auto
  have rnd: "random_at (?w1\<lparr>inq := q''\<rparr>) 0 16 = random_at sw 16 16"
    "random_at (?w1\<lparr>inq := q''\<rparr>) 16 32 = random_at sw 32 32"
    by (simp_all add: random_at_def add.assoc)
  have "server_handshake L ssk ?cpk sw = (Inr (agreed L sw), v')"
    using run resp fin rnd by (simp add: andThen_def Let_def agreed_def)
  moreover have "sent v' = sent sw @ sh_frame L ssk ?nc sw
      @ sd_frame L ?cpk (Suc (salt_pos sw)) (random_at sw 16 16) (random_at sw 32 32)"
    using v'(2) rnd by simp
  ultimately show ?thesis using v'(1) q'' by blast
qed

text \<open>
  The client's side of a run in which the server's first message is honest: it has answered
  and waits for the last message, which may carry any session id and any key encrypted for it.
\<close>

lemma client_answer:
  assumes "arriving (inq cw) = sh_frame L ssk (random_at cw 0 16) sw @ rest"
    and "send_faults cw = []" and "clocks_agree cw sw" and "rsa_ok L" and "pss_ok L"
  obtains v where "client_handshake L csk (public_key L ssk) cw = client_recv_server_done L csk v"
    and "arriving (inq v) = rest"
    and "sent v = sent cw @ ch_frame cw @ cr_frame L csk (random_at sw 0 16) cw"
proof -
  let ?nc = "random_at cw 0 16" and ?ns = "random_at sw 0 16"
  let ?w1 = "cw\<lparr>sock_timeout := Some HANDSHAKE_TIMEOUT, rnd_pos := rnd_pos cw + 16,
          clock_pos := Suc (clock_pos cw), sent := sent cw @ ch_frame cw\<rparr>"
  have run: "client_handshake L csk (public_key L ssk) cw =
      andThen (client_recv_server_hello L (public_key L ssk) ?nc) (client_respond L csk ?nc) ?w1"
    by (rule client_open [OF assms(2) clocks_agreeD(1) [OF assms(3)]])
  have ar: "arriving (inq ?w1) = clear_frame HANDSHAKE_SERVER_HELLO
      (server_hello ?ns (clock sw (Suc (clock_pos sw))) (compute_hmac (?nc @ ?ns) CHALLENGE_HMAC_KEY)
        (pss_sign L ssk (salt_pos sw) (?nc @ ?ns))) @ rest"
    using assms(1) by (simp add: sh_frame_def Let_def)
  obtain q1 where q1: "arriving q1 = rest"
    and hello: "client_recv_server_hello L (public_key L ssk) ?nc ?w1
      = (Inr ?ns, ?w1\<lparr>inq := q1, clock_pos := Suc (clock_pos ?w1)\<rparr>)"
    by (rule client_recv_server_hello_run [OF ar _ _ rsa_okD(1) [OF assms(4)] _ pss_okD [OF assms(5)]])
      (simp_all add: clocks_agreeD [OF assms(3)])
  let ?w2 = "?w1\<lparr>inq := q1, clock_pos := Suc (clock_pos ?w1)\<rparr>"
  let ?w3 = "?w2\<lparr>salt_pos := Suc (salt_pos cw),
       sent := sent cw @ ch_frame cw @ cr_frame L csk ?ns cw\<rparr>"
  have "client_respond L csk ?nc ?ns ?w2 = client_recv_server_done L csk ?w3"
    using client_respond_open [of ?w2 L csk ?nc ?ns] assms(2,4) by (simp add: cr_frame_def Let_def)
  then show ?thesis using run hello q1 by (intro that [of ?w3]) (simp_all add: andThen_def)
qed

lemma client_run:
  assumes "arriving (inq cw) = sh_frame L ssk (random_at cw 0 16) sw
      @ sd_frame L (public_key L csk) salt sid key @ rest"
    and "send_faults cw = []" and "clocks_agree cw sw" and "rsa_ok L" and "pss_ok L" and "oaep_ok L"
    and "length sid = 16" and "length key = 32"
  shows "\<exists>cw'. client_handshake L csk (public_key L ssk) cw
      = (Inr (sid, derive_keys L key (Some sid) derive_keys_info), cw') \<and>
    arriving (inq cw') = rest \<and>
    sent cw' = sent cw @ ch_frame cw @ cr_frame L csk (random_at sw 0 16) cw"
proof -
  obtain v where run: "client_handshake L csk (public_key L ssk) cw = client_recv_server_done L csk v"
    and ar: "arriving (inq v) = sd_frame L (public_key L csk) salt sid key @ rest"
    and snt: "sent v = sent cw @ ch_frame cw @ cr_frame L csk (random_at sw 0 16) cw"
    by (rule client_answer [OF assms(1-5)])
  have ar': "arriving (inq v) = clear_frame HANDSHAKE_SERVER_DONE
      (server_done sid (oaep_encrypt L (public_key L csk) salt key)) @ rest"
    using ar by (simp add: sd_frame_def)
  obtain q2 where "arriving q2 = rest"
    and "client_recv_server_done L csk v
      = (Inr (sid, derive_keys L key (Some sid) derive_keys_info), v\<lparr>inq := q2\<rparr>)"
    by (rule client_recv_server_done_run [OF ar' assms(7) rsa_okD(2) [OF assms(4,8)]
          oaep_okD [OF assms(6,8)]])
  then show ?thesis using run snt by simp
qed

subsection \<open>Output only grows\<close>

definition grows :: "(world, 'a) io \<Rightarrow> bool" where
  "grows m \<longleftrightarrow> (\<forall>w. \<exists>bs. sent (snd (m w)) = sent w @ bs)"

lemma grows_andThen:
  assumes "grows m" and "\<And>x. grows (f x)"
  shows "grows (andThen m f)"
  unfolding grows_def
proof
  fix w
  obtain b1 where b1: "sent (snd (m w)) = sent w @ b1" using assms(1) grows_def by blast
  show "\<exists>bs. sent (snd (andThen m f w)) = sent w @ bs"
  proof (cases "m w")
    case (Pair r w1)
    show ?thesis
    proof (cases r)
      case (Inl e)
      then show ?thesis using Pair b1 by (simp add: andThen_def)
    next
      case (Inr x)
      obtain b2 where "sent (snd (f x w1)) = sent w1 @ b2" using assms(2) grows_def by blast
      then show ?thesis using Pair Inr b1 by (simp add: andThen_def)
    qed
  qed
qed

lemma grows_basic [simp]:
  "grows (ret x)" "grows (raise e)" "grows (of_result r)" "grows time_now" "grows (urandom n)"
  "grows next_salt" "grows (settimeout t)" "grows (sendall bs)" "grows (recv_frame L ek mk)"
proof -
  have "\<exists>b. sent (snd (recv_frame L ek mk w)) = sent w @ b" for w
    by (subst recv_frame_only_inq) simp
  then show "grows (recv_frame L ek mk)" by (simp add: grows_def)
qed (auto simp: grows_def ret_def raise_def of_result_def time_now_def urandom_def next_salt_def
  settimeout_def sendall_def split: list.splits option.splits)

lemma grows_send_clear [simp]: "grows (send_frame L t sid p None mk)"
  by (auto simp: send_frame_def Let_def intro!: grows_andThen)

lemma grows_try: "grows m \<Longrightarrow> grows (try_except m (\<lambda>_. ret x))"
  by (simp add: grows_def try_except_def ret_def split: prod.split sum.split) (metis snd_conv)

lemma grows_reject [simp]: "grows (reject L a b)"
  by (auto simp: reject_def send_error_def intro!: grows_andThen grows_try)

text \<open>Each half of the handshake only adds to what has been sent.\<close>

lemma grows_halves:
  "grows (client_recv_server_hello L spk nc)" "grows (client_respond L csk nc ns)"
  "grows (client_recv_server_done L csk)"
  "grows (server_recv_client_response L cpk ns nc)" "grows (server_finish L cpk)"
  by (auto simp: client_recv_server_hello_def client_respond_def client_recv_server_done_def
      server_recv_client_response_def server_finish_def generate_session_key_def sign_data_def
      Let_def case_prod_beta intro!: grows_andThen)

lemma grows_run:
  assumes "grows m"
  obtains bs where "sent (snd (m w)) = sent w @ bs"
  using assms unfolding grows_def by blast

lemma recv_server_done_keeps_sent: "sent (snd (client_recv_server_done L csk v)) = sent v"
proof -
  obtain r q where r: "recv_frame L None None v = (r, v\<lparr>inq := q\<rparr>)" by (rule recv_frame_step)
  show ?thesis
    unfolding client_recv_server_done_def
    by (auto simp: andThen_def r of_result_def raise_def ret_def Let_def case_prod_beta
        split: sum.split)
qed

lemma client_sends_hello:
  assumes "send_faults cw = []" and "clock_ok (clock cw (clock_pos cw))"
  obtains b where "sent (snd (client_handshake L csk spk cw)) = sent cw @ ch_frame cw @ b"
proof -
  have g: "grows (andThen (client_recv_server_hello L spk (random_at cw 0 16))
      (client_respond L csk (random_at cw 0 16)))"
    by (rule grows_andThen) (rule grows_halves)+
  let ?w = "cw\<lparr>sock_timeout := Some HANDSHAKE_TIMEOUT, rnd_pos := rnd_pos cw + 16,
          clock_pos := Suc (clock_pos cw), sent := sent cw @ ch_frame cw\<rparr>"
  obtain b where "sent (snd (andThen (client_recv_server_hello L spk (random_at cw 0 16))
      (client_respond L csk (random_at cw 0 16)) ?w)) = sent ?w @ b"
    by (rule grows_run [OF g])
  then show ?thesis using that by (simp add: client_open [OF assms])
qed

lemma server_sends_hello:
  assumes "arriving (inq sw) = ch_frame cw @ rest" and "send_faults sw = []"
    and "clocks_agree cw sw" and "rsa_ok L"
  obtains b where "sent (snd (server_handshake L ssk cpk sw))
      = sent sw @ sh_frame L ssk (random_at cw 0 16) sw @ b"
proof -
  have g: "grows (andThen (server_recv_client_response L cpk (random_at sw 0 16) (random_at cw 0 16))
      (\<lambda>_. server_finish L cpk))"
    by (rule grows_andThen) (rule grows_halves)+
  obtain q1 where run: "server_handshake L ssk cpk sw =
      (let nonce_c = random_at cw 0 16; nonce_s = random_at sw 0 16 in
      andThen (server_recv_client_response L cpk nonce_s nonce_c) (\<lambda>_. server_finish L cpk)
        (sw\<lparr>sock_timeout := Some HANDSHAKE_TIMEOUT, inq := q1, clock_pos := Suc (Suc (clock_pos sw)),
            rnd_pos := rnd_pos sw + 16, salt_pos := Suc (salt_pos sw),
            sent := sent sw @ sh_frame L ssk nonce_c sw\<rparr>))"
    by (rule server_open [OF assms])
  let ?w = "sw\<lparr>sock_timeout := Some HANDSHAKE_TIMEOUT, inq := q1, clock_pos := Suc (Suc (clock_pos sw)),
            rnd_pos := rnd_pos sw + 16, salt_pos := Suc (salt_pos sw),
            sent := sent sw @ sh_frame L ssk (random_at cw 0 16) sw\<rparr>"
  obtain b where "sent (snd (andThen (server_recv_client_response L cpk (random_at sw 0 16)
      (random_at cw 0 16)) (\<lambda>_. server_finish L cpk) ?w)) = sent ?w @ b"
    by (rule grows_run [OF g])
  then show ?thesis using that by (simp add: run Let_def)
qed

subsection \<open>Two connected ends\<close>

text \<open>
  Each end receives, as one stream cut up in any way, exactly what the other end's whole run
  sends.
\<close>

definition connected ::
    "world \<Rightarrow> (world, 'a) io \<Rightarrow> world \<Rightarrow> (world, 'b) io \<Rightarrow> bool" where
  "connected cw client sw server \<longleftrightarrow>
     sent cw = [] \<and> sent sw = [] \<and> send_faults cw = [] \<and> send_faults sw = [] \<and>
     arriving (inq cw) = sent (snd (server sw)) \<and> arriving (inq sw) = sent (snd (client cw))"

lemma ends_agree:
  assumes "connected cw (client_handshake L csk (public_key L ssk))
      sw (server_handshake L ssk (public_key L csk))"
    and "clocks_agree cw sw" and "rsa_ok L" and "pss_ok L" and "oaep_ok L" and "hkdf_ok L"
  shows "\<exists>sid ek mk cw' sw'.
    client_handshake L csk (public_key L ssk) cw = (Inr (sid, ek, mk), cw') \<and>
    server_handshake L ssk (public_key L csk) sw = (Inr (sid, ek, mk), sw') \<and>
    length sid = 16 \<and> length ek = 32 \<and> length mk = 32 \<and>
    arriving (inq cw') = [] \<and> arriving (inq sw') = []"
proof -
  let ?C = "client_handshake L csk (public_key L ssk)"
  let ?S = "server_handshake L ssk (public_key L csk)"
  let ?nc = "random_at cw 0 16" and ?ns = "random_at sw 0 16"
  let ?SH = "sh_frame L ssk ?nc sw" and ?CR = "cr_frame L csk ?ns cw"
  have s0: "sent cw = []" "sent sw = []" "send_faults cw = []" "send_faults sw = []"
    and toC: "arriving (inq cw) = sent (snd (?S sw))" and toS: "arriving (inq sw) = sent (snd (?C cw))"
    using assms(1) by (simp_all add: connected_def)
  obtain b1 where 1: "sent (snd (?C cw)) = sent cw @ ch_frame cw @ b1"
    by (rule client_sends_hello [OF s0(3) clocks_agreeD(1) [OF assms(2)]])
  have toS1: "arriving (inq sw) = ch_frame cw @ b1" using toS 1 s0 by simp
  obtain b2 where 2: "sent (snd (?S sw)) = sent sw @ ?SH @ b2"
    by (rule server_sends_hello [OF toS1 s0(4) assms(2,3)])
  have toC2: "arriving (inq cw) = ?SH @ b2" using toC 2 s0 by simp
  obtain v where v: "?C cw = client_recv_server_done L csk v" "sent v = sent cw @ ch_frame cw @ ?CR"
    by (rule client_answer [OF toC2 s0(3) assms(2,3,4)])
  have toS3: "arriving (inq sw) = ch_frame cw @ ?CR @ []"
    using toS v s0 by (simp add: recv_server_done_keeps_sent)
  obtain sw' where S: "?S sw = (Inr (agreed L sw), sw')" and "arriving (inq sw') = []"
    and "sent sw' = sent sw @ ?SH
      @ sd_frame L (public_key L csk) (Suc (salt_pos sw)) (random_at sw 16 16) (random_at sw 32 32)"
    using server_run [OF toS3 s0(4) assms(2,3,4)] by blast
  then have toC4: "arriving (inq cw) = ?SH
      @ sd_frame L (public_key L csk) (Suc (salt_pos sw)) (random_at sw 16 16) (random_at sw 32 32) @ []"
    using toC s0 by simp
  obtain cw' where C: "?C cw = (Inr (agreed L sw), cw')" and "arriving (inq cw') = []"
    using client_run [OF toC4 s0(3) assms(2,3,4,5) length_random_at length_random_at]
    by (auto simp: agreed_def Let_def)
  obtain ek mk where k: "derive_keys L (random_at sw 32 32) (Some (random_at sw 16 16)) derive_keys_info
      = (ek, mk)" by force
  have "agreed L sw = (random_at sw 16 16, ek, mk)" by (simp add: agreed_def k)
  moreover have "length ek = 32" "length mk = 32"
    using derive_keys_length [OF assms(6) k] by (simp_all add: wire_simps)
  ultimately show ?thesis
    using S C \<open>arriving (inq sw') = []\<close> \<open>arriving (inq cw') = []\<close> by auto
qed

text \<open>
  C4. Agreement: over any segmentation of the two streams, when the keys match, the clocks agree
  within the tolerated drift and no send fails, both sides of the handshake return the same
  session id and the same two keys, each of its proper length, and have consumed all of the
  other's bytes.
\<close>

theorem handshake_agreement:
  assumes "connected cw (client_handshake L csk (public_key L ssk))
      sw (server_handshake L ssk (public_key L csk))"
    and "clocks_agree cw sw" and "rsa_ok L" and "pss_ok L" and "oaep_ok L" and "hkdf_ok L"
  shows "\<exists>sid ek mk cw' sw'.
    client_handshake L csk (public_key L ssk) cw = (Inr (sid, ek, mk), cw') \<and>
    server_handshake L ssk (public_key L csk) sw = (Inr (sid, ek, mk), sw') \<and>
    length sid = 16 \<and> length ek = 32 \<and> length mk = 32 \<and>
    arriving (inq cw') = [] \<and> arriving (inq sw') = []"
  by (rule ends_agree [OF assms])

text \<open>Two concrete ends for the witnesses: the peer's frames arrive in one segment.\<close>

definition demo_cw :: world where
  "demo_cw = world0\<lparr>rnd := (\<lambda>n. of_nat (3 * n)), clock := (\<lambda>_. Fin 15 1)\<rparr>"

definition demo_sw :: world where
  "demo_sw = world0\<lparr>rnd := (\<lambda>n. of_nat (5 * n + 1)), clock := (\<lambda>_. Fin 18 1)\<rparr>"

definition demo_ck :: bytes where "demo_ck = [1, 2, 3]"
definition demo_sk :: bytes where "demo_sk = [4, 5, 6]"

lemma inq_irrelevant [simp]:
  "random_at (w\<lparr>inq := q\<rparr>) k n = random_at w k n"
  "ch_frame (w\<lparr>inq := q\<rparr>) = ch_frame w"
  "cr_frame L sk ns (w\<lparr>inq := q\<rparr>) = cr_frame L sk ns w"
  "sh_frame L sk nc (w\<lparr>inq := q\<rparr>) = sh_frame L sk nc w"
  "clocks_agree (v\<lparr>inq := q\<rparr>) w = clocks_agree v w"
  "clocks_agree v (w\<lparr>inq := q\<rparr>) = clocks_agree v w"
  by (simp_all add: random_at_def ch_frame_def cr_frame_def sh_frame_def clocks_agree_def Let_def)

lemma demo_simps [simp]:
  "sent demo_cw = []" "sent demo_sw = []" "send_faults demo_cw = []" "send_faults demo_sw = []"
  "salt_pos demo_sw = 0"
  by (simp_all add: demo_cw_def demo_sw_def world0_def)

lemma demo_clock: "clock_ok (Fin 15 1)" "clock_ok (Fin 18 1)"
  by (simp_all add: clock_ok_def float_overflow_def str_nat.simps)

lemma demo_clocks [simp]: "clocks_agree demo_cw demo_sw"
  unfolding clocks_agree_def demo_cw_def demo_sw_def MAX_TIMESTAMP_DRIFT_def
  using demo_clock by simp

lemma model_lib_rsa: "rsa_ok model_lib"
  by (simp add: rsa_ok_def model_lib_def wire_simps)

definition demo_to_client :: bytes where
  "demo_to_client = sh_frame model_lib demo_sk (random_at demo_cw 0 16) demo_sw
     @ sd_frame model_lib (public_key model_lib demo_ck) 1 (random_at demo_sw 16 16)
         (random_at demo_sw 32 32)"

definition demo_to_server :: bytes where
  "demo_to_server = ch_frame demo_cw @ cr_frame model_lib demo_ck (random_at demo_sw 0 16) demo_cw"

definition demo_client :: world where "demo_client = demo_cw\<lparr>inq := [Seg demo_to_client]\<rparr>"
definition demo_server :: world where "demo_server = demo_sw\<lparr>inq := [Seg demo_to_server]\<rparr>"

lemma demo_clocks' [simp]: "clocks_agree demo_client demo_server"
  by (simp add: demo_client_def demo_server_def)

lemma demo_world:
  "send_faults demo_client = []" "send_faults demo_server = []" "sent demo_client = []"
  "sent demo_server = []" "salt_pos demo_server = 0"
  "random_at demo_server = random_at demo_sw" "random_at demo_client = random_at demo_cw"
  by (simp_all add: demo_client_def demo_server_def fun_eq_iff)

lemma demo_runs:
  "\<exists>cw'. client_handshake model_lib demo_ck (public_key model_lib demo_sk) demo_client
      = (Inr (random_at demo_sw 16 16, derive_keys model_lib (random_at demo_sw 32 32)
          (Some (random_at demo_sw 16 16)) derive_keys_info), cw') \<and> sent cw' = arriving (inq demo_server)"
  "\<exists>sw'. server_handshake model_lib demo_sk (public_key model_lib demo_ck) demo_server
      = (Inr (agreed model_lib demo_server), sw') \<and> sent sw' = arriving (inq demo_client)"
proof -
  have 1: "arriving (inq demo_client)
      = sh_frame model_lib demo_sk (random_at demo_client 0 16) demo_server
        @ sd_frame model_lib (public_key model_lib demo_ck) 1 (random_at demo_sw 16 16)
            (random_at demo_sw 32 32) @ []"
    by (simp add: demo_to_client_def demo_client_def demo_server_def)
  have 2: "arriving (inq demo_server) = ch_frame demo_client
      @ cr_frame model_lib demo_ck (random_at demo_server 0 16) demo_client @ []"
    by (simp add: demo_to_server_def demo_client_def demo_server_def)
  show "\<exists>cw'. client_handshake model_lib demo_ck (public_key model_lib demo_sk) demo_client
      = (Inr (random_at demo_sw 16 16, derive_keys model_lib (random_at demo_sw 32 32)
          (Some (random_at demo_sw 16 16)) derive_keys_info), cw') \<and> sent cw' = arriving (inq demo_server)"
    using client_run [OF 1 demo_world(1) demo_clocks' model_lib_rsa model_lib_ok(3,4) length_random_at
        length_random_at] 2 by (auto simp: demo_world)
  show "\<exists>sw'. server_handshake model_lib demo_sk (public_key model_lib demo_ck) demo_server
      = (Inr (agreed model_lib demo_server), sw') \<and> sent sw' = arriving (inq demo_client)"
    using server_run [OF 2 demo_world(2) demo_clocks' model_lib_rsa model_lib_ok(3), of demo_sk] 1
    by (auto simp: demo_world)
qed

lemma demo_both_return:
  "\<exists>sid ek mk w'. client_handshake model_lib demo_ck (public_key model_lib demo_sk) demo_client
      = (Inr (sid, ek, mk), w')"
  "\<exists>sid ek mk w'. server_handshake model_lib demo_sk (public_key model_lib demo_ck) demo_server
      = (Inr (sid, ek, mk), w')"
  using demo_runs by (metis prod_cases3)+

lemma demo_connected:
  "connected demo_client (client_handshake model_lib demo_ck (public_key model_lib demo_sk))
     demo_server (server_handshake model_lib demo_sk (public_key model_lib demo_ck))"
  using demo_runs by (auto simp: connected_def demo_world)

theorem handshake_agreement_witness:
  "\<exists>sid ek mk cw' sw'.
    client_handshake model_lib demo_ck (public_key model_lib demo_sk) demo_client
      = (Inr (sid, ek, mk), cw') \<and>
    server_handshake model_lib demo_sk (public_key model_lib demo_ck) demo_server
      = (Inr (sid, ek, mk), sw') \<and> length sid = 16 \<and> length ek = 32 \<and> length mk = 32"
  using handshake_agreement [OF demo_connected demo_clocks' model_lib_rsa model_lib_ok(3,4,2)]
  by blast

subsection \<open>Authentication\<close>

lemma took_frame_arriving: "took_frame L t p q q' \<Longrightarrow> \<exists>f. arriving q = f @ arriving q'"
  by (auto simp: took_frame_def)

text \<open>
  C6. What the server knows of a client it accepts: the client's stream was a fresh ClientHello
  followed by a ClientResponse whose challenge answer and whose signature, under the client's
  public key, cover this run's server nonce (16 random bytes the server drew after the hello)
  and the client's nonce.  The session id and the session key are the server's next 16 and 32
  random bytes.
\<close>

theorem server_authenticates_client:
  assumes "server_handshake L ssk client_pk w = (Inr (sid, ek, mk), w')"
  shows "\<exists>nonce_c p1 p2 q. took_frame L HANDSHAKE_CLIENT_HELLO p1 (inq w) q \<and>
    hello_accepted (clock w (clock_pos w)) p1 nonce_c \<and>
    took_frame L HANDSHAKE_CLIENT_RESPONSE p2 q (inq w') \<and>
    client_proved L client_pk (random_at w 0 16) nonce_c p2 \<and>
    sid = random_at w 16 16 \<and>
    (ek, mk) = derive_keys L (random_at w 32 32) (Some sid) derive_keys_info"
proof -
  let ?w0 = "w\<lparr>sock_timeout := Some HANDSHAKE_TIMEOUT\<rparr>"
  obtain nonce_c w1 nonce_s w2 w3
    where 1: "server_recv_client_hello L ?w0 = (Inr nonce_c, w1)"
      and 2: "server_challenge L ssk nonce_c w1 = (Inr nonce_s, w2)"
      and 3: "server_recv_client_response L client_pk nonce_s nonce_c w2 = (Inr (), w3)"
      and 4: "server_finish L client_pk w3 = (Inr (sid, ek, mk), w')"
    using assms by (auto simp: server_handshake_def andThen_eq_Inr_iff io_Inr_simps)
  note i1 = server_recv_client_hello_Inr [OF 1] and i2 = server_challenge_Inr [OF 2]
    and i3 = server_recv_client_response_Inr [OF 3] and i4 = server_finish_Inr [OF 4]
  have r1: "rnd w1 = rnd w" "rnd_pos w1 = rnd_pos w" by (subst i1(2); simp)+
  have r3: "rnd w3 = rnd w" "rnd_pos w3 = rnd_pos w + 16"
    using i2(3,4) r1 by (subst i3(2); simp)+
  have rand: "random_at w1 k n = random_at w k n" "random_at w3 k n = random_at w (16 + k) n" for k n
    using r1 r3 by (simp_all add: random_at_def add.assoc)
  obtain p1 p2 where p: "took_frame L HANDSHAKE_CLIENT_HELLO p1 (inq w) (inq w1)"
      "hello_accepted (clock w (clock_pos w)) p1 nonce_c"
      "took_frame L HANDSHAKE_CLIENT_RESPONSE p2 (inq w1) (inq w')"
      "client_proved L client_pk (random_at w 0 16) nonce_c p2"
    using i1(1) i3(1) i2(1,2) i4(2) rand by auto
  have "sid = random_at w 16 16" using i4(1) rand(2) [of 0 16] by simp
  moreover have "(ek, mk) = derive_keys L (random_at w 32 32) (Some sid) derive_keys_info"
    using i4(3) rand(2) [of 16 32] by simp
  ultimately show ?thesis using p by blast
qed

theorem server_authenticates_client_witness:
  "\<exists>sid ek mk w' nonce_c p1 p2 q.
    server_handshake model_lib demo_sk (public_key model_lib demo_ck) demo_server = (Inr (sid, ek, mk), w') \<and>
    took_frame model_lib HANDSHAKE_CLIENT_HELLO p1 (inq demo_server) q \<and>
    hello_accepted (clock demo_server (clock_pos demo_server)) p1 nonce_c \<and>
    took_frame model_lib HANDSHAKE_CLIENT_RESPONSE p2 q (inq w') \<and>
    client_proved model_lib (public_key model_lib demo_ck) (random_at demo_server 0 16) nonce_c p2"
proof -
  obtain sid ek mk w' where
    r: "server_handshake model_lib demo_sk (public_key model_lib demo_ck) demo_server = (Inr (sid, ek, mk), w')"
    using demo_both_return by blast
  show ?thesis using server_authenticates_client [OF r] r by blast
qed

lemma client_respond_Inr:
  assumes "client_respond L csk nc ns v = (Inr r, v')"
  obtains v1 where "inq v1 = inq v" and "client_recv_server_done L csk v1 = (Inr r, v')"
proof -
  obtain bs fs where "client_recv_server_done L csk
      (v\<lparr>salt_pos := Suc (salt_pos v), sent := bs, send_faults := fs\<rparr>) = (Inr r, v')"
    using assms by (auto simp: client_respond_def sign_data_def andThen_eq_Inr_iff
        io_Inr_simps Let_def dest!: send_clear_Inr)
  then show ?thesis by (intro that) simp_all
qed

text \<open>
  C7. What the client knows of a server it accepts: the ServerHello is fresh and carries an
  answer and a signature, under the pinned server key, over this run's client nonce (16 random
  bytes) and the server's nonce.  Nothing ties the ServerDone to them: any payload with a
  session id and a ciphertext that the client's key opens decides the session.
\<close>

theorem client_authenticates_server:
  assumes "client_handshake L csk server_pk w = (Inr (sid, ek, mk), w')"
  shows "\<exists>nonce_s p1 p2 q sd enc key. took_frame L HANDSHAKE_SERVER_HELLO p1 (inq w) q \<and>
    server_proved L server_pk (clock w (Suc (clock_pos w))) (random_at w 0 16) nonce_s p1 \<and>
    took_frame L HANDSHAKE_SERVER_DONE p2 q (inq w') \<and>
    decode_hs p2 = Inr sd \<and> hex_field sd (u ''session_id'') = Inr sid \<and>
    hex_field sd (u ''encrypted_session_key'') = Inr enc \<and> oaep_decrypt L csk enc = Some key \<and>
    (ek, mk) = derive_keys L key (Some sid) derive_keys_info"
proof -
  obtain w2 nonce_s bs fs
    where 1: "client_recv_server_hello L server_pk (random_at w 0 16)
        (w\<lparr>sock_timeout := Some HANDSHAKE_TIMEOUT, rnd_pos := rnd_pos w + 16,
          clock_pos := Suc (clock_pos w), sent := bs, send_faults := fs\<rparr>) = (Inr nonce_s, w2)"
      and 2: "client_respond L csk (random_at w 0 16) nonce_s w2 = (Inr (sid, ek, mk), w')"
    using assms by (auto simp: client_handshake_def andThen_eq_Inr_iff
        io_Inr_simps random_at_def dest!: send_clear_Inr)
  obtain w3 where 3: "inq w3 = inq w2" "client_recv_server_done L csk w3 = (Inr (sid, ek, mk), w')"
    by (rule client_respond_Inr [OF 2])
  obtain p1 where "took_frame L HANDSHAKE_SERVER_HELLO p1 (inq w) (inq w2)"
      "server_proved L server_pk (clock w (Suc (clock_pos w))) (random_at w 0 16) nonce_s p1"
    using client_recv_server_hello_Inr(1) [OF 1] by auto
  then show ?thesis using client_recv_server_done_Inr [OF 3(2)] 3(1) by metis
qed

theorem client_authenticates_server_witness:
  "\<exists>sid ek mk w' nonce_s p1 q.
    client_handshake model_lib demo_ck (public_key model_lib demo_sk) demo_client = (Inr (sid, ek, mk), w') \<and>
    took_frame model_lib HANDSHAKE_SERVER_HELLO p1 (inq demo_client) q \<and>
    server_proved model_lib (public_key model_lib demo_sk) (clock demo_client (Suc (clock_pos demo_client)))
      (random_at demo_client 0 16) nonce_s p1"
proof -
  obtain sid ek mk w' where
    r: "client_handshake model_lib demo_ck (public_key model_lib demo_sk) demo_client = (Inr (sid, ek, mk), w')"
    using demo_both_return by blast
  show ?thesis using client_authenticates_server [OF r] r by blast
qed

text \<open>
  C38. The session key is not authenticated: on a connection where the server's hello is
  genuine, a ServerDone made by anyone who knows the client's public key (the HMAC key of
  handshake frames is a public constant) is accepted, and the client's session id and keys are
  the ones its author chose.
\<close>

theorem session_key_not_authenticated:
  assumes "arriving (inq cw) = sh_frame L ssk (random_at cw 0 16) sw
      @ sd_frame L (public_key L csk) salt attacker_sid attacker_key"
    and "length attacker_sid = 16" and "length attacker_key = 32"
    and "send_faults cw = []" and "clocks_agree cw sw" and "rsa_ok L" and "pss_ok L" and "oaep_ok L"
  shows "fst (client_handshake L csk (public_key L ssk) cw)
    = Inr (attacker_sid, derive_keys L attacker_key (Some attacker_sid) derive_keys_info)"
proof -
  have ar: "arriving (inq cw) = sh_frame L ssk (random_at cw 0 16) sw
      @ sd_frame L (public_key L csk) salt attacker_sid attacker_key @ []"
    using assms(1) by simp
  show ?thesis using client_run [OF ar assms(4-8,2,3)] by auto
qed

theorem session_key_not_authenticated_witness:
  "fst (client_handshake model_lib demo_ck (public_key model_lib demo_sk)
      (demo_cw\<lparr>inq := [Seg (sh_frame model_lib demo_sk (random_at demo_cw 0 16) demo_sw
        @ sd_frame model_lib (public_key model_lib demo_ck) 0 (replicate 16 66) (replicate 32 77))]\<rparr>))
    = Inr (replicate 16 66,
        derive_keys model_lib (replicate 32 77) (Some (replicate 16 66)) derive_keys_info)"
  by (rule session_key_not_authenticated [where sw = demo_sw and salt = 0])
    (simp_all add: model_lib_rsa model_lib_ok)

subsection \<open>Rejections\<close>

lemma reject_run:
  assumes "send_faults w = []" and "is_ascii (u msg)" and "length msg \<le> 1000"
  shows "reject L msg err w
    = (Inl (Raised ValueErrorC (u err)), w\<lparr>sent := sent w @ clear_frame ERROR (ascii_bytes (u msg))\<rparr>)"
  using assms
  by (simp add: reject_def send_error_def utf8_encode_ascii andThen_def of_result_def try_except_def
      send_clear raise_def)

lemma carries_clear_payload:
  "carries L None None (t, sid, p) f \<Longrightarrow> arriving (inq v) = f @ rest \<Longrightarrow>
    \<exists>q'. recv_frame L None None v = (Inr (t, sid, p), v\<lparr>inq := q'\<rparr>) \<and> arriving q' = rest"
  by (metis carries_received)

lemma server_refuses:
  assumes "arriving (inq sw) = ch_frame cw @ f @ rest"
    and "carries L None None (HANDSHAKE_CLIENT_RESPONSE, sid, p) f"
    and "decode_hs p = Inr cr" and "hex_field cr (u ''challenge_response'') = Inr answer"
    and "hex_field cr (u ''signature'') = Inr sig"
    and "answer \<noteq> compute_hmac (random_at sw 0 16 @ random_at cw 0 16) CHALLENGE_HMAC_KEY \<or>
      \<not> verify_signature L (random_at sw 0 16 @ random_at cw 0 16) sig client_pk"
    and "send_faults sw = []" and "clocks_agree cw sw" and "rsa_ok L"
  shows "\<exists>msg err sw'. server_handshake L ssk client_pk sw = (Inl (Raised ValueErrorC err), sw') \<and>
    sent sw' = sent sw @ sh_frame L ssk (random_at cw 0 16) sw @ clear_frame ERROR msg"
proof -
  let ?nc = "random_at cw 0 16" and ?ns = "random_at sw 0 16"
  obtain q' where q': "arriving q' = f @ rest"
    and run: "server_handshake L ssk client_pk sw = (let nonce_c = ?nc; nonce_s = ?ns in
      andThen (server_recv_client_response L client_pk nonce_s nonce_c) (\<lambda>_. server_finish L client_pk)
        (sw\<lparr>sock_timeout := Some HANDSHAKE_TIMEOUT, inq := q', clock_pos := Suc (Suc (clock_pos sw)),
            rnd_pos := rnd_pos sw + 16, salt_pos := Suc (salt_pos sw),
            sent := sent sw @ sh_frame L ssk nonce_c sw\<rparr>))"
    by (rule server_open [OF assms(1,7-9)])
  let ?w = "sw\<lparr>sock_timeout := Some HANDSHAKE_TIMEOUT, inq := q', clock_pos := Suc (Suc (clock_pos sw)),
            rnd_pos := rnd_pos sw + 16, salt_pos := Suc (salt_pos sw),
            sent := sent sw @ sh_frame L ssk ?nc sw\<rparr>"
  obtain q'' where r: "recv_frame L None None ?w = (Inr (HANDSHAKE_CLIENT_RESPONSE, sid, p), ?w\<lparr>inq := q''\<rparr>)"
    using carries_clear_payload [OF assms(2), of ?w rest] q' by auto
  have "\<exists>msg err. server_recv_client_response L client_pk ?ns ?nc ?w =
      (Inl (Raised ValueErrorC err), ?w\<lparr>inq := q'', sent := sent ?w @ clear_frame ERROR msg\<rparr>)"
  proof (cases "verify_hmac (?ns @ ?nc) answer CHALLENGE_HMAC_KEY")
    case True
    then have "\<not> verify_signature L (?ns @ ?nc) sig client_pk"
      using assms(6) by (auto simp: verify_hmac_def)
    then have "server_recv_client_response L client_pk ?ns ?nc ?w =
      reject L ''Client signature verification failed'' ''Client signature verification FAILED''
        (?w\<lparr>inq := q''\<rparr>)"
      using r True assms(3-5)
      by (simp add: server_recv_client_response_def andThen_def of_result_def)
    then show ?thesis using assms(7) by (simp add: reject_run u_Cons) blast
  next
    case False
    then have "server_recv_client_response L client_pk ?ns ?nc ?w =
      reject L ''Challenge response HMAC mismatch'' ''Client challenge response mismatch''
        (?w\<lparr>inq := q''\<rparr>)"
      using r assms(3-5)
      by (simp add: server_recv_client_response_def andThen_def of_result_def)
    then show ?thesis using assms(7) by (simp add: reject_run u_Cons) blast
  qed
  then obtain msg err where "server_recv_client_response L client_pk ?ns ?nc ?w =
      (Inl (Raised ValueErrorC err), ?w\<lparr>inq := q'', sent := sent ?w @ clear_frame ERROR msg\<rparr>)"
    by blast
  then show ?thesis using run by (auto simp: andThen_def Let_def)
qed

text \<open>
  C16. A client that cannot prove itself is turned away: if, after an honest hello, the next frame
  is a well-formed ClientResponse whose challenge answer is wrong or whose signature does not
  verify under the configured client key, the server sends one ERROR frame, raises \<open>ValueError\<close>
  and generates no session: everything it has sent is its ServerHello and that ERROR frame.
\<close>

theorem impostor_client_rejected:
  assumes "arriving (inq sw) = ch_frame cw @ f @ rest"
    and "carries L None None (HANDSHAKE_CLIENT_RESPONSE, sid, p) f"
    and "decode_hs p = Inr cr" and "hex_field cr (u ''challenge_response'') = Inr answer"
    and "hex_field cr (u ''signature'') = Inr sig"
    and "answer \<noteq> compute_hmac (random_at sw 0 16 @ random_at cw 0 16) CHALLENGE_HMAC_KEY \<or>
      \<not> verify_signature L (random_at sw 0 16 @ random_at cw 0 16) sig client_pk"
    and "send_faults sw = []" and "clocks_agree cw sw" and "rsa_ok L"
  shows "\<exists>msg err sw'. server_handshake L ssk client_pk sw = (Inl (Raised ValueErrorC err), sw') \<and>
    sent sw' = sent sw @ sh_frame L ssk (random_at cw 0 16) sw @ clear_frame ERROR msg"
  by (rule server_refuses [OF assms])

theorem impostor_client_rejected_witness:
  "\<exists>msg err sw'. server_handshake model_lib demo_sk demo_ck
      (demo_sw\<lparr>inq := [Seg (ch_frame demo_cw @
         clear_frame HANDSHAKE_CLIENT_RESPONSE (client_response [] []))]\<rparr>)
      = (Inl (Raised ValueErrorC err), sw') \<and>
    sent sw' = sh_frame model_lib demo_sk (random_at demo_cw 0 16) demo_sw @ clear_frame ERROR msg"
proof -
  let ?f = "clear_frame HANDSHAKE_CLIENT_RESPONSE (client_response [] [])"
  let ?sw = "demo_sw\<lparr>inq := [Seg (ch_frame demo_cw @ ?f)]\<rparr>"
  have 1: "arriving (inq ?sw) = ch_frame demo_cw @ ?f @ []" by simp
  have 2: "carries model_lib None None (HANDSHAKE_CLIENT_RESPONSE, NULL_SID, client_response [] []) ?f"
    by (rule carries_clear_frame) (use length_payloads(3) [of "[]" "[]"] in simp)
  have ne: "[] \<noteq> compute_hmac m k" for m k using length_compute_hmac [of m k] by fastforce
  have "\<exists>msg err sw'. server_handshake model_lib demo_sk demo_ck ?sw
      = (Inl (Raised ValueErrorC err), sw') \<and>
    sent sw' = sent ?sw @ sh_frame model_lib demo_sk (random_at demo_cw 0 16) ?sw @ clear_frame ERROR msg"
    by (intro impostor_client_rejected [OF 1 2 decode_client_response, where answer = "[]" and sig = "[]"]
        disjI1 ne) (simp_all add: model_lib_rsa flip: hex_Nil)
  then show ?thesis by simp
qed

lemma client_refuses:
  assumes "arriving (inq cw) = f @ rest" and "carries L None None (HANDSHAKE_SERVER_HELLO, sid, p) f"
    and "decode_hs p = Inr sh" and "hex_field sh (u ''nonce_s'') = Inr nonce_s"
    and "field sh (u ''timestamp'') = Inr ts" and "hex_field sh (u ''challenge'') = Inr ch"
    and "hex_field sh (u ''signature'') = Inr sig"
    and "stale (clock cw (Suc (clock_pos cw))) ts = Inr old"
    and "\<not> verify_signature L (random_at cw 0 16 @ nonce_s) sig server_pk"
    and "send_faults cw = []" and "clock_ok (clock cw (clock_pos cw))"
  shows "\<exists>err cw'. client_handshake L csk server_pk cw = (Inl (Raised ValueErrorC err), cw') \<and>
    sent cw' = sent cw @ ch_frame cw"
proof -
  let ?w = "cw\<lparr>sock_timeout := Some HANDSHAKE_TIMEOUT, rnd_pos := rnd_pos cw + 16,
          clock_pos := Suc (clock_pos cw), sent := sent cw @ ch_frame cw\<rparr>"
  obtain q' where r: "recv_frame L None None ?w = (Inr (HANDSHAKE_SERVER_HELLO, sid, p), ?w\<lparr>inq := q'\<rparr>)"
    using carries_clear_payload [OF assms(2), of ?w rest] assms(1) by auto
  have "\<exists>err. client_recv_server_hello L server_pk (random_at cw 0 16) ?w =
      (Inl (Raised ValueErrorC err), ?w\<lparr>inq := q', clock_pos := Suc (Suc (clock_pos cw))\<rparr>)"
    using r assms(3-9)
    by (cases old)
      (simp_all add: client_recv_server_hello_def andThen_def of_result_def time_now_def raise_def)
  then show ?thesis by (auto simp: client_open [OF assms(10,11)] andThen_def)
qed

text \<open>
  C17. A server without the pinned key is turned away: the client raises \<open>ValueError\<close> and has sent
  nothing but its hello, in particular no signature of its own.
\<close>

theorem impostor_server_rejected:
  assumes "arriving (inq cw) = f @ rest" and "carries L None None (HANDSHAKE_SERVER_HELLO, sid, p) f"
    and "decode_hs p = Inr sh" and "hex_field sh (u ''nonce_s'') = Inr nonce_s"
    and "field sh (u ''timestamp'') = Inr ts" and "hex_field sh (u ''challenge'') = Inr ch"
    and "hex_field sh (u ''signature'') = Inr sig"
    and "stale (clock cw (Suc (clock_pos cw))) ts = Inr old"
    and "\<not> verify_signature L (random_at cw 0 16 @ nonce_s) sig server_pk"
    and "send_faults cw = []" and "clock_ok (clock cw (clock_pos cw))"
  shows "\<exists>err cw'. client_handshake L csk server_pk cw = (Inl (Raised ValueErrorC err), cw') \<and>
    sent cw' = sent cw @ ch_frame cw"
  by (rule client_refuses [OF assms])

theorem impostor_server_rejected_witness:
  "\<exists>err cw'. client_handshake model_lib demo_ck demo_sk (demo_cw\<lparr>inq := [Seg (clear_frame
      HANDSHAKE_SERVER_HELLO (server_hello (replicate 16 0) (Fin 18 1) [] []))]\<rparr>)
      = (Inl (Raised ValueErrorC err), cw') \<and> sent cw' = ch_frame demo_cw"
proof -
  let ?p = "server_hello (replicate 16 0) (Fin 18 1) [] []"
  let ?f = "clear_frame HANDSHAKE_SERVER_HELLO ?p"
  let ?cw = "demo_cw\<lparr>inq := [Seg ?f]\<rparr>"
  have 1: "arriving (inq ?cw) = ?f @ []" by simp
  have 2: "carries model_lib None None (HANDSHAKE_SERVER_HELLO, NULL_SID, ?p) ?f"
    by (rule carries_clear_frame)
      (use length_payloads(2) [OF demo_clock(2), of "replicate 16 0" "[]" "[]"] in simp)
  have "[] \<noteq> hmac_sha256 k m" for m k
    using length_compute_hmac [of m k] by (metis compute_hmac_def list.size(3) zero_neq_numeral)
  then have "\<exists>err cw'. client_handshake model_lib demo_ck demo_sk ?cw
      = (Inl (Raised ValueErrorC err), cw') \<and> sent cw' = sent ?cw @ ch_frame ?cw"
    by (intro impostor_server_rejected [OF 1 2 decode_server_hello [OF demo_clock(2)],
          where nonce_s = "replicate 16 0" and ts = "JFloat (Fin 18 1)" and sig = "[]" and ch = "[]"
            and old = False])
      (simp_all add: demo_clock flip: hex_Nil,
       simp_all add: demo_cw_def stale_def demo_clock [simplified One_nat_def] verify_signature_def model_lib_def MAX_TIMESTAMP_DRIFT_def)
  then show ?thesis by simp
qed

text \<open>
  C18. A replayed or badly clocked hello is turned away: the server answers with one ERROR frame,
  raises \<open>ValueError\<close>, and draws no nonce.
\<close>

theorem stale_hello_rejected:
  assumes "arriving (inq sw) = f @ rest" and "carries L None None (HANDSHAKE_CLIENT_HELLO, sid, p) f"
    and "decode_hs p = Inr ch" and "hex_field ch (u ''nonce_c'') = Inr nonce_c"
    and "field ch (u ''timestamp'') = Inr ts" and "stale (clock sw (clock_pos sw)) ts = Inr True"
    and "send_faults sw = []"
  shows "\<exists>msg sw'. server_handshake L ssk client_pk sw
      = (Inl (Raised ValueErrorC (u ''ClientHello timestamp rejected'')), sw') \<and>
    sent sw' = sent sw @ clear_frame ERROR msg \<and> rnd_pos sw' = rnd_pos sw"
proof -
  let ?w = "sw\<lparr>sock_timeout := Some HANDSHAKE_TIMEOUT\<rparr>"
  obtain q' where r: "recv_frame L None None ?w = (Inr (HANDSHAKE_CLIENT_HELLO, sid, p), ?w\<lparr>inq := q'\<rparr>)"
    using carries_clear_payload [OF assms(2), of ?w rest] assms(1) by auto
  have "server_recv_client_hello L ?w = reject L ''ClientHello timestamp outside acceptable window''
      ''ClientHello timestamp rejected'' (?w\<lparr>inq := q', clock_pos := Suc (clock_pos sw)\<rparr>)"
    using r assms(3-6)
    by (simp add: server_recv_client_hello_def andThen_def of_result_def time_now_def)
  then show ?thesis using assms(7)
    by (auto simp: reject_run u_Cons server_handshake_def andThen_def settimeout_def)
qed

theorem stale_hello_rejected_witness:
  "\<exists>msg sw'. server_handshake model_lib demo_sk demo_ck (demo_sw\<lparr>inq := [Seg (clear_frame
      HANDSHAKE_CLIENT_HELLO (client_hello (replicate 16 0) (Fin 99999 1)))]\<rparr>)
      = (Inl (Raised ValueErrorC (u ''ClientHello timestamp rejected'')), sw') \<and>
    sent sw' = clear_frame ERROR msg \<and> rnd_pos sw' = rnd_pos demo_sw"
proof -
  let ?p = "client_hello (replicate 16 0) (Fin 99999 1)"
  let ?f = "clear_frame HANDSHAKE_CLIENT_HELLO ?p"
  let ?sw = "demo_sw\<lparr>inq := [Seg ?f]\<rparr>"
  have ok: "clock_ok (Fin 99999 1)"
    by (simp add: clock_ok_def float_overflow_def str_nat.simps)
  have 1: "arriving (inq ?sw) = ?f @ []" by simp
  have 2: "carries model_lib None None (HANDSHAKE_CLIENT_HELLO, NULL_SID, ?p) ?f"
    by (rule carries_clear_frame) (use length_payloads(1) [OF ok, of "replicate 16 0"] in simp)
  have "\<exists>msg sw'. server_handshake model_lib demo_sk demo_ck ?sw
      = (Inl (Raised ValueErrorC (u ''ClientHello timestamp rejected'')), sw') \<and>
    sent sw' = sent ?sw @ clear_frame ERROR msg \<and> rnd_pos sw' = rnd_pos ?sw"
    by (rule stale_hello_rejected [OF 1 2 decode_client_hello [OF ok],
          where nonce_c = "replicate 16 0" and ts = "JFloat (Fin 99999 1)"])
      (simp_all, simp_all add: demo_sw_def stale_def MAX_TIMESTAMP_DRIFT_def)
  then show ?thesis by simp
qed

text \<open>
  C39. The freshness check does not bound the age of every hello: JSON as Python reads it has
  \<open>NaN\<close>, no comparison with it is true, and a hello whose timestamp is \<open>NaN\<close> is accepted at any
  time.
\<close>

theorem nan_hello_always_fresh:
  assumes "arriving (inq v) = clear_frame HANDSHAKE_CLIENT_HELLO (client_hello nonce_c NaN) @ rest"
    and "length nonce_c = 16"
  shows "fst (server_recv_client_hello L v) = Inr nonce_c"
proof -
  have len: "length (client_hello nonce_c NaN) \<le> 100000"
    using assms(2) length_dumps_key [of "''nonce_c''"] length_dumps_key [of "''timestamp''"]
    by (simp add: client_hello_def encode_hs_def dumps_bytes_def length_dumps_hex)
  have dec: "decode_hs (client_hello nonce_c NaN)
      = Inr (JObj [(u ''nonce_c'', JStr (hex nonce_c)), (u ''timestamp'', JFloat NaN)])"
    unfolding decode_hs_def client_hello_def encode_hs_def by (rule loads_dumps_bytes) simp
  obtain q' where "recv_frame L None None v
        = (Inr (HANDSHAKE_CLIENT_HELLO, NULL_SID, client_hello nonce_c NaN), v\<lparr>inq := q'\<rparr>)"
    by (rule recv_clear [OF assms(1) len])
  moreover have "stale now (JFloat NaN) = Inr False" for now
    by (cases now) (simp_all add: stale_def)
  ultimately show ?thesis
    by (simp add: server_recv_client_hello_def andThen_def dec of_result_def time_now_def ret_def)
qed

theorem nan_hello_always_fresh_witness:
  "fst (server_recv_client_hello model_lib (world0\<lparr>inq := [Seg (clear_frame HANDSHAKE_CLIENT_HELLO
      (client_hello (replicate 16 9) NaN))]\<rparr>)) = Inr (replicate 16 9)"
  by (rule nan_hello_always_fresh [where rest = "[]"]) simp_all

end
