(* ===== verification/Tunnel_Client.thy ===== *)
theory Tunnel_Client
  imports Handshake_Run
begin

text \<open>
  \<open>client/tunnel_client.py\<close>: the class \<open>TunnelClient\<close>, one authenticated tunnel that is
  re-established when a request fails.  The record holds the attributes of the object.  Its
  socket is the \<open>link\<close>, which carries the process's random source and clock on from one socket
  to the next; \<open>dial_outcome\<close> is what the \<open>n\<close>-th TCP connection meets, \<open>past\<close> the sockets the
  client had before and \<open>slept\<close> the delays it slept.  Every method holds the object's lock
  for one exchange, so each is one atomic operation.
\<close>

record tunnel =
  connect_timeout :: rat
  io_timeout :: rat
  max_retries :: int
  retry_backoff :: rat
  link :: world
  has_sock :: bool
  session_id_of :: "bytes option"
  enc_key_of :: "bytes option"
  mac_key_of :: "bytes option"
  is_connected :: bool
  dials :: nat
  dial_outcome :: "nat \<Rightarrow> pyexn + (net_event list \<times> (pyexn \<times> nat) option list)"
  past :: "world list"
  slept :: "rat list"
  exc_str :: "exc_class \<Rightarrow> pystr"

definition new_tunnel ::
    "rat \<Rightarrow> rat \<Rightarrow> int \<Rightarrow> rat \<Rightarrow> world \<Rightarrow> (nat \<Rightarrow> pyexn + (net_event list \<times> (pyexn \<times> nat) option list))
      \<Rightarrow> (exc_class \<Rightarrow> pystr) \<Rightarrow> tunnel" where
  "new_tunnel connect_t io_t retries backoff w outcome texts =
     \<lparr>connect_timeout = connect_t, io_timeout = io_t, max_retries = retries, retry_backoff = backoff,
      link = w, has_sock = False, session_id_of = None, enc_key_of = None, mac_key_of = None,
      is_connected = False, dials = 0, dial_outcome = outcome, past = [], slept = [], exc_str = texts\<rparr>"

definition on_link :: "(world, 'a) io \<Rightarrow> (tunnel, 'a) io" where
  "on_link m T = (let (r, w) = m (link T) in (r, T\<lparr>link := w\<rparr>))"

subsection \<open>Connecting\<close>

definition close_socket :: "(tunnel, unit) io" where
  "close_socket T =
     (let T1 = (if has_sock T then snd (on_link sock_close T) else T)
      in (Inr (), T1\<lparr>has_sock := False, is_connected := False\<rparr>))"

text \<open>A new socket with its connect timeout, and \<open>sock.connect\<close>.\<close>

definition dial_server :: "(tunnel, unit) io" where
  "dial_server T =
     (let n = dials T; T1 = T\<lparr>dials := Suc n\<rparr> in
      case dial_outcome T n of
        Inl e \<Rightarrow> (Inl e, T1)
      | Inr (q, faults) \<Rightarrow>
          (Inr (), T1\<lparr>past := link T # past T,
             link := (link T)\<lparr>inq := q, sent := [], send_faults := faults,
               sock_timeout := Some (connect_timeout T), sock_open := True\<rparr>\<rparr>))"

definition keep_session :: "bytes \<times> bytes \<times> bytes \<Rightarrow> (tunnel, unit) io" where
  "keep_session keys T =
     (let (sid, enc, mac) = keys in
      (Inr (), T\<lparr>has_sock := True, session_id_of := Some sid, enc_key_of := Some enc,
                 mac_key_of := Some mac, is_connected := True\<rparr>))"

definition do_connect :: "('sk, 'pk) crypto_lib \<Rightarrow> 'sk \<Rightarrow> 'pk \<Rightarrow> (tunnel, unit) io" where
  "do_connect L client_sk server_pk T =
     andThen close_socket (\<lambda>_.
     andThen dial_server (\<lambda>_.
     andThen (on_link (settimeout (Some (io_timeout T)))) (\<lambda>_.
     andThen (on_link (client_handshake L client_sk server_pk)) keep_session))) T"

text \<open>The public methods; the lock makes each one operation.\<close>

definition tunnel_connect :: "('sk, 'pk) crypto_lib \<Rightarrow> 'sk \<Rightarrow> 'pk \<Rightarrow> (tunnel, unit) io" where
  [simp]: "tunnel_connect = do_connect"

definition tunnel_close :: "(tunnel, unit) io" where
  [simp]: "tunnel_close = close_socket"

definition tunnel_connected :: "tunnel \<Rightarrow> bool" where
  "tunnel_connected T = is_connected T"

subsection \<open>One request\<close>

definition unexpected_reply :: "message_type \<Rightarrow> bytes \<Rightarrow> pyexn" where
  "unexpected_reply t response =
     (if t = ERROR then Raised RuntimeErrorC (u ''Server error: '' @ utf8_decode_replace response)
      else Raised ValueErrorC (u ''Unexpected message type: '' @ type_name t))"

text \<open>
  Sending the request and reading the reply on the link, with the session's id and keys.
\<close>

definition exchange ::
    "('sk, 'pk) crypto_lib \<Rightarrow> bytes \<Rightarrow> bytes option \<Rightarrow> bytes option \<Rightarrow> bytes \<Rightarrow> (world, bytes) io" where
  "exchange L sid ek mk request_data =
     andThen (send_frame L DATA_REQUEST sid request_data ek mk) (\<lambda>_.
     andThen (recv_frame L ek mk) (\<lambda>(msg_type, _, response).
     if msg_type = DATA_RESPONSE then ret response else raise (unexpected_reply msg_type response)))"

definition do_request ::
    "('sk, 'pk) crypto_lib \<Rightarrow> 'sk \<Rightarrow> 'pk \<Rightarrow> bytes \<Rightarrow> (tunnel, bytes) io" where
  "do_request L client_sk server_pk request_data T =
     andThen (if \<not> is_connected T \<or> \<not> has_sock T then do_connect L client_sk server_pk else ret ())
       (\<lambda>_ T1. case session_id_of T1 of
            None \<Rightarrow> raise (Lib TypeErrorC) T1
          | Some sid \<Rightarrow> on_link (exchange L sid (enc_key_of T1) (mac_key_of T1) request_data) T1) T"

subsection \<open>Retries\<close>

text \<open>\<open>time.sleep(d)\<close>, which refuses a negative delay.\<close>

definition sleep_for :: "rat \<Rightarrow> (tunnel, unit) io" where
  "sleep_for d T = (if d < 0 then (Inl (Lib ValueErrorC), T) else (Inr (), T\<lparr>slept := slept T @ [d]\<rparr>))"

definition error_text :: "tunnel \<Rightarrow> pyexn option \<Rightarrow> pystr" where
  "error_text T e =
     (case e of None \<Rightarrow> u ''None'' | Some (Raised _ m) \<Rightarrow> m | Some (Lib c) \<Rightarrow> exc_str T c)"

definition gave_up :: "tunnel \<Rightarrow> pyexn option \<Rightarrow> pyexn" where
  "gave_up T last_err = Raised ConnectionErrorC
     (u ''Tunnel request failed after '' @ str_int (max_retries T) @ u '' attempts: '' @ error_text T last_err)"

text \<open>The attempts still to be made, in order; a failed reconnection is only logged.\<close>

fun attempts_loop ::
    "('sk, 'pk) crypto_lib \<Rightarrow> 'sk \<Rightarrow> 'pk \<Rightarrow> bytes \<Rightarrow> pyexn option \<Rightarrow> int list \<Rightarrow> (tunnel, bytes) io" where
  "attempts_loop L client_sk server_pk req last_err [] T = (Inl (gave_up T last_err), T)"
| "attempts_loop L client_sk server_pk req last_err (attempt # rest) T =
     try_except (do_request L client_sk server_pk req)
       (\<lambda>e. andThen (try_except (do_connect L client_sk server_pk) (\<lambda>_. ret ())) (\<lambda>_.
            andThen (if attempt < max_retries T then sleep_for (retry_backoff T * of_int attempt) else ret ())
              (\<lambda>_. attempts_loop L client_sk server_pk req (Some e) rest))) T"

definition send_request ::
    "('sk, 'pk) crypto_lib \<Rightarrow> 'sk \<Rightarrow> 'pk \<Rightarrow> bytes \<Rightarrow> (tunnel, bytes) io" where
  "send_request L client_sk server_pk req T =
     attempts_loop L client_sk server_pk req None [1 .. max_retries T] T"

end
