(* ===== verification/Tunnel_Props.thy ===== *)
theory Tunnel_Props
  imports Tunnel_Client
begin

text \<open>
  What the methods of \<open>TunnelClient\<close> change and how its requests end: the frame conditions of
  connecting and of one attempt, the outcome of the retry loop, resending, and the timeout the
  handshake leaves behind.
\<close>

subsection \<open>What connecting and requesting leave alone\<close>

definition same_config :: "tunnel \<Rightarrow> tunnel \<Rightarrow> bool" where
  "same_config T T' \<longleftrightarrow> max_retries T' = max_retries T \<and> retry_backoff T' = retry_backoff T \<and>
     exc_str T' = exc_str T \<and> io_timeout T' = io_timeout T \<and> connect_timeout T' = connect_timeout T \<and>
     dial_outcome T' = dial_outcome T"

lemma same_config_refl [simp]: "same_config T T"
  by (simp add: same_config_def)

lemma same_config_trans: "same_config T U \<Longrightarrow> same_config U V \<Longrightarrow> same_config T V"
  by (simp add: same_config_def)

lemma on_link_eq: "on_link m T = (r, T') \<longleftrightarrow> (\<exists>w. m (link T) = (r, w) \<and> T' = T\<lparr>link := w\<rparr>)"
  by (auto simp: on_link_def split: prod.splits)

lemma close_socket_run:
  "\<exists>w. close_socket T = (Inr (), T\<lparr>link := w, has_sock := False, is_connected := False\<rparr>) \<and>
       (w = link T \<or> w = (link T)\<lparr>sock_open := False\<rparr>)"
  by (rule exI [of _ "if has_sock T then (link T)\<lparr>sock_open := False\<rparr> else link T"])
    (cases T, simp add: close_socket_def on_link_def sock_close_def)

text \<open>One connection attempt, whatever comes of it.\<close>

lemma do_connect_frame:
  assumes "do_connect L csk spk T = (r, T')"
  shows "same_config T T'" and "slept T' = slept T" and "dials T' = Suc (dials T)"
proof -
  obtain w where c: "close_socket T = (Inr (), T\<lparr>link := w, has_sock := False, is_connected := False\<rparr>)"
    using close_socket_run by blast
  have "same_config T T' \<and> slept T' = slept T \<and> dials T' = Suc (dials T)"
    using assms c
    by (auto simp: do_connect_def andThen_def dial_server_def on_link_def keep_session_def settimeout_def
        same_config_def Let_def split: sum.splits prod.splits)
  then show "same_config T T'" "slept T' = slept T" "dials T' = Suc (dials T)" by simp_all
qed

text \<open>A connection that stands: the handshake ran on the new socket and its keys are kept.\<close>

lemma do_connect_Inr:
  assumes "do_connect L csk spk T = (Inr y, T')"
  obtains w0 w1 sid ek mk q faults where "dial_outcome T (dials T) = Inr (q, faults)"
    and "client_handshake L csk spk (w0\<lparr>inq := q, sent := [], send_faults := faults,
           sock_open := True, sock_timeout := Some (io_timeout T)\<rparr>) = (Inr (sid, ek, mk), w1)"
    and "link T' = w1" "has_sock T'" "is_connected T'"
    and "session_id_of T' = Some sid" "enc_key_of T' = Some ek" "mac_key_of T' = Some mk"
    and "past T' = w0 # past T" and "w0 = link T \<or> w0 = (link T)\<lparr>sock_open := False\<rparr>"
proof -
  obtain v where c: "close_socket T = (Inr (), T\<lparr>link := v, has_sock := False, is_connected := False\<rparr>)"
    and v: "v = link T \<or> v = (link T)\<lparr>sock_open := False\<rparr>"
    using close_socket_run by blast
  obtain q faults where d: "dial_outcome T (dials T) = Inr (q, faults)"
    using assms c by (auto simp: do_connect_def andThen_def dial_server_def Let_def split: sum.splits)
  show ?thesis
    using assms c d
    by (auto simp: do_connect_def andThen_def dial_server_def on_link_def keep_session_def settimeout_def
        Let_def split: sum.splits prod.splits intro!: that [of q faults v] v)
qed

lemma do_request_frame:
  assumes "do_request L csk spk req T = (r, T')"
  shows "same_config T T'" and "slept T' = slept T" and "dials T \<le> dials T'" and "dials T' \<le> Suc (dials T)"
proof -
  have "same_config T T' \<and> slept T' = slept T \<and> dials T \<le> dials T' \<and> dials T' \<le> Suc (dials T)"
  proof (cases "is_connected T \<and> has_sock T")
    case True
    then show ?thesis using assms
      by (auto simp: do_request_def andThen_def ret_def raise_def on_link_def same_config_def Let_def
          split: option.splits prod.splits)
  next
    case False
    obtain rc T1 where c: "do_connect L csk spk T = (rc, T1)" by force
    show ?thesis using assms False do_connect_frame [OF c] c
      by (auto simp: do_request_def andThen_def ret_def raise_def on_link_def same_config_def Let_def
          split: option.splits prod.splits sum.splits)
  qed
  then show "same_config T T'" "slept T' = slept T" "dials T \<le> dials T'" "dials T' \<le> Suc (dials T)"
    by simp_all
qed

subsection \<open>The outcome of the retry loop\<close>

text \<open>A failed attempt with its reconnection.\<close>

lemma reconnect_frame:
  assumes "try_except (do_connect L csk spk) (\<lambda>_. ret ()) T = (r, T')"
  shows "r = Inr ()" and "same_config T T'" and "slept T' = slept T" and "dials T' = Suc (dials T)"
proof -
  obtain rc T1 where c: "do_connect L csk spk T = (rc, T1)" by force
  then have "r = Inr ()" "T' = T1"
    using assms by (auto simp: try_except_def ret_def split: sum.splits)
  with do_connect_frame [OF c] show "r = Inr ()" "same_config T T'" "slept T' = slept T"
    "dials T' = Suc (dials T)" by simp_all
qed

lemma attempts_loop_Cons:
  assumes "do_request L csk spk req T = (r, T1)"
  shows "attempts_loop L csk spk req le (a # rest) T =
    (case r of Inr resp \<Rightarrow> (Inr resp, T1)
     | Inl e \<Rightarrow>
         let T2 = snd (do_connect L csk spk T1) in
         if a < max_retries T \<and> retry_backoff T * of_int a < 0 then (Inl (Lib ValueErrorC), T2)
         else attempts_loop L csk spk req (Some e) rest
           (if a < max_retries T then T2\<lparr>slept := slept T2 @ [retry_backoff T * of_int a]\<rparr> else T2))"
proof (cases r)
  case (Inl e)
  obtain rc T2 where c: "do_connect L csk spk T1 = (rc, T2)" by force
  then have "try_except (do_connect L csk spk) (\<lambda>_. ret ()) T1 = (Inr (), T2)"
    by (auto simp: try_except_def ret_def split: sum.splits)
  then show ?thesis using assms Inl c
    by (simp add: try_except_def andThen_def ret_def sleep_for_def)
qed (use assms in \<open>simp add: try_except_def\<close>)

lemma same_config_sleep: "same_config T (U\<lparr>slept := s\<rparr>) = same_config T U"
  by (simp add: same_config_def)

lemma gave_up_cong: "same_config T U \<Longrightarrow> gave_up U e = gave_up T e"
  by (auto simp: same_config_def gave_up_def error_text_def split: option.splits pyexn.splits)

lemma failed_attempt:
  assumes "do_request L csk spk req T = (Inl e, T1)" and "0 \<le> retry_backoff T" and "1 \<le> a"
  obtains T3 where "attempts_loop L csk spk req le (a # rest) T = attempts_loop L csk spk req (Some e) rest T3"
    and "same_config T T3" and "dials T3 \<le> dials T + 2"
    and "slept T3 = slept T @ (if a < max_retries T then [retry_backoff T * of_int a] else [])"
proof -
  obtain rc T2 where c: "do_connect L csk spk T1 = (rc, T2)" by force
  note f1 = do_request_frame [OF assms(1)] and f2 = do_connect_frame [OF c]
  let ?T3 = "if a < max_retries T then T2\<lparr>slept := slept T2 @ [retry_backoff T * of_int a]\<rparr> else T2"
  have "\<not> retry_backoff T * of_int a < 0" using assms(2,3) by (simp add: not_less)
  then have "attempts_loop L csk spk req le (a # rest) T = attempts_loop L csk spk req (Some e) rest ?T3"
    using attempts_loop_Cons [OF assms(1), of le a rest] c by simp
  moreover have "same_config T ?T3"
    using same_config_trans [OF f1(1) f2(1)] by (simp add: same_config_sleep)
  ultimately show ?thesis by (rule that) (use f1 f2 in auto)
qed

text \<open>The delays after the failed attempts from \<open>a\<close> to \<open>k - 1\<close>.\<close>

definition delays :: "tunnel \<Rightarrow> int \<Rightarrow> int \<Rightarrow> rat list" where
  "delays T a k = map (\<lambda>i. retry_backoff T * of_int i) [a .. k - 1]"

lemma delays_step: "a < k \<Longrightarrow> delays T a k = (retry_backoff T * of_int a) # delays T (a + 1) k"
  by (simp add: delays_def upto_rec1)

lemma delays_none: "k \<le> a \<Longrightarrow> delays T a k = []"
  by (simp add: delays_def)

lemma delays_cong: "same_config T U \<Longrightarrow> delays U = delays T"
  by (simp add: fun_eq_iff delays_def same_config_def)

text \<open>
  From attempt \<open>a\<close> on: either an attempt succeeds after the delays of the failed ones, or all
  fail and the loop gives up after the delays between them.
\<close>

lemma attempts_loop_outcome:
  assumes "0 \<le> retry_backoff T" and "1 \<le> a" and "a \<le> max_retries T + 1"
    and "attempts_loop L csk spk req le [a .. max_retries T] T = (r, T')"
  shows "same_config T T' \<and> dials T' \<le> dials T + 2 * nat (max_retries T + 1 - a) \<and>
    ((\<exists>resp k. r = Inr resp \<and> a \<le> k \<and> k \<le> max_retries T \<and> slept T' = slept T @ delays T a k) \<or>
     (\<exists>e. r = Inl (gave_up T e) \<and> slept T' = slept T @ delays T a (max_retries T)))"
  using assms
proof (induction "nat (max_retries T + 1 - a)" arbitrary: a le T)
  case 0
  then have "[a .. max_retries T] = []" "delays T a (max_retries T) = []" by (simp_all add: delays_none)
  then show ?case using 0 by auto
next
  case (Suc n)
  have le: "a \<le> max_retries T" using Suc.hyps(2) by simp
  have list: "[a .. max_retries T] = a # [a + 1 .. max_retries T]" by (rule upto_rec1 [OF le])
  obtain r1 T1 where q: "do_request L csk spk req T = (r1, T1)" by force
  show ?case
  proof (cases r1)
    case (Inr resp)
    then have "r = Inr resp" "T' = T1" using Suc.prems(4) attempts_loop_Cons [OF q] list by simp_all
    then show ?thesis using do_request_frame [OF q] le Suc.prems(2)
      by (auto intro!: exI [of _ resp] exI [of _ a] simp: delays_none)
  next
    case (Inl e)
    obtain T3 where loop: "attempts_loop L csk spk req le (a # [a + 1 .. max_retries T]) T
        = attempts_loop L csk spk req (Some e) [a + 1 .. max_retries T] T3"
      and s3: "same_config T T3" and d3: "dials T3 \<le> dials T + 2"
      and sl3: "slept T3 = slept T @ (if a < max_retries T then [retry_backoff T * of_int a] else [])"
      by (rule failed_attempt [OF q [unfolded Inl] Suc.prems(1,2)])
    have m3: "max_retries T3 = max_retries T" "retry_backoff T3 = retry_backoff T"
      using s3 by (simp_all add: same_config_def)
    have "same_config T3 T' \<and> dials T' \<le> dials T3 + 2 * nat (max_retries T3 + 1 - (a + 1)) \<and>
      ((\<exists>resp k. r = Inr resp \<and> a + 1 \<le> k \<and> k \<le> max_retries T3 \<and> slept T' = slept T3 @ delays T3 (a + 1) k) \<or>
       (\<exists>e. r = Inl (gave_up T3 e) \<and> slept T' = slept T3 @ delays T3 (a + 1) (max_retries T3)))"
      by (rule Suc.hyps(1)) (use Suc.prems Suc.hyps(2) le loop list m3 in auto)
    note ih = this [unfolded m3 gave_up_cong [OF s3] delays_cong [OF s3]]
    have step: "slept T3 @ delays T (a + 1) k = slept T @ delays T a k" if "a + 1 \<le> k" "k \<le> max_retries T" for k
      using that by (simp add: sl3 delays_step)
    have stop: "slept T3 @ delays T (a + 1) (max_retries T) = slept T @ delays T a (max_retries T)"
      by (cases "a < max_retries T") (simp_all add: sl3 delays_step delays_none)
    have "nat (max_retries T + 1 - a) = Suc (nat (max_retries T + 1 - (a + 1)))" using le by simp
    then have "same_config T T' \<and> dials T' \<le> dials T + 2 * nat (max_retries T + 1 - a)"
      using ih d3 same_config_trans [OF s3] by auto
    moreover have "a \<le> k" if "a + 1 \<le> k" for k using that by simp
    ultimately show ?thesis using ih step unfolding stop by metis
  qed
qed

text \<open>
  C19. A request always ends, and in one of two ways: it returns the payload of a reply, having
  slept after the failed attempts for growing multiples of the backoff, or after exactly
  \<open>max_retries\<close> attempts it raises the one \<open>ConnectionError\<close> of the code, whatever went wrong below
  (handshake, decryption, timeouts, an ERROR frame).  It opens at most two connections per
  attempt and leaves the configuration alone.
\<close>

theorem send_request_outcome:
  assumes "0 \<le> retry_backoff T" and "send_request L csk spk req T = (r, T')"
  shows "same_config T T' \<and> dials T' \<le> dials T + 2 * nat (max_retries T) \<and>
    ((\<exists>resp k. r = Inr resp \<and> 1 \<le> k \<and> k \<le> max_retries T \<and>
        slept T' = slept T @ map (\<lambda>i. retry_backoff T * of_int i) [1 .. k - 1]) \<or>
     (\<exists>e. r = Inl (gave_up T e) \<and>
        slept T' = slept T @ map (\<lambda>i. retry_backoff T * of_int i) [1 .. max_retries T - 1]))"
proof (cases "0 \<le> max_retries T")
  case True
  then show ?thesis
    using attempts_loop_outcome [of T 1 L csk spk req None r T'] assms
    by (simp add: send_request_def delays_def)
next
  case False
  then have r: "r = Inl (gave_up T None)" and T': "T' = T"
    using assms(2) by (auto simp: send_request_def)
  show ?thesis unfolding r T' using False by auto
qed

text \<open>A server that refuses every connection.\<close>

definition demo_down :: tunnel where
  "demo_down = new_tunnel 10 60 3 2 world0 (\<lambda>_. Inl (Lib ConnectionErrorC)) (\<lambda>_. u ''refused'')"

lemma do_request_down:
  assumes "dial_outcome T = (\<lambda>_. Inl e)" and "\<not> is_connected T"
  shows "fst (do_request L csk spk req T) = Inl e"
proof -
  obtain w where "close_socket T = (Inr (), T\<lparr>link := w, has_sock := False, is_connected := False\<rparr>)"
    using close_socket_run by blast
  then show ?thesis using assms by (simp add: do_request_def do_connect_def andThen_def dial_server_def Let_def)
qed

lemma not_connected_down:
  assumes "dial_outcome T = (\<lambda>_. Inl e)"
  shows "\<not> is_connected (snd (do_connect L csk spk T))"
proof -
  obtain w where "close_socket T = (Inr (), T\<lparr>link := w, has_sock := False, is_connected := False\<rparr>)"
    using close_socket_run by blast
  then show ?thesis using assms by (simp add: do_connect_def andThen_def dial_server_def Let_def)
qed

lemma attempts_loop_down:
  assumes "dial_outcome T = (\<lambda>_. Inl e)" and "\<not> is_connected T"
  shows "\<exists>x. fst (attempts_loop L csk spk req le as T) = Inl x"
  using assms
proof (induction "as" arbitrary: T le)
  case (Cons a rest)
  obtain r T1 where q: "do_request L csk spk req T = (r, T1)" by force
  have r: "r = Inl e" using do_request_down [OF Cons.prems, of L csk spk req] q by simp
  have d1: "dial_outcome T1 = (\<lambda>_. Inl e)"
    using do_request_frame(1) [OF q] Cons.prems(1) by (simp add: same_config_def)
  obtain rc T2 where c: "do_connect L csk spk T1 = (rc, T2)" by force
  have d2: "dial_outcome T2 = (\<lambda>_. Inl e)"
    using do_connect_frame(1) [OF c] d1 by (simp add: same_config_def)
  have n2: "\<not> is_connected T2" using not_connected_down [OF d1, of L csk spk] c by simp
  show ?case
    using attempts_loop_Cons [OF q, of le a rest] r c Cons.IH [of T2]
      Cons.IH [of "T2\<lparr>slept := slept T2 @ [retry_backoff T * of_int a]\<rparr>"] d2 n2
    by (auto simp: Let_def)
qed simp

theorem send_request_outcome_witness:
  "\<exists>e T'. send_request model_lib [1] [2] [3] demo_down = (Inl (gave_up demo_down e), T') \<and> slept T' = [2, 4]"
proof -
  obtain r T' where run: "send_request model_lib [1] [2] [3] demo_down = (r, T')" by force
  have "0 \<le> retry_backoff demo_down" by (simp add: demo_down_def new_tunnel_def)
  note out = send_request_outcome [OF this run]
  have "\<exists>x. fst (send_request model_lib [1] [2] [3] demo_down) = Inl x"
    unfolding send_request_def
    by (rule attempts_loop_down [of _ "Lib ConnectionErrorC"]) (simp_all add: demo_down_def new_tunnel_def)
  then obtain x where "r = Inl x" using run by auto
  with out have "\<exists>e. r = Inl (gave_up demo_down e) \<and>
      slept T' = slept demo_down @ map (\<lambda>i. retry_backoff demo_down * of_int i) [1 .. max_retries demo_down - 1]"
    by blast
  moreover have "[1 .. (2 :: int)] = [1, 2]" by (simp add: upto_rec1)
  ultimately show ?thesis using run by (auto simp: demo_down_def new_tunnel_def)
qed

subsection \<open>Properties of the socket that the handshake keeps\<close>

definition stable :: "(world \<Rightarrow> bool) \<Rightarrow> (world, 'a) io \<Rightarrow> bool" where
  "stable P m \<longleftrightarrow> (\<forall>w. P w \<longrightarrow> P (snd (m w)))"

lemma stable_andThen: "stable P m \<Longrightarrow> (\<And>x. stable P (f x)) \<Longrightarrow> stable P (andThen m f)"
  by (simp add: stable_def andThen_def split: prod.split sum.split) (metis snd_conv)

definition link_timeout :: "rat option \<Rightarrow> world \<Rightarrow> bool" where
  "link_timeout t w \<longleftrightarrow> sock_timeout w = t"

definition fault_free :: "world \<Rightarrow> bool" where
  "fault_free w \<longleftrightarrow> send_faults w = []"

lemma stable_recv_frame:
  assumes "\<And>w q. P w \<Longrightarrow> P (w\<lparr>inq := q\<rparr>)"
  shows "stable P (recv_frame L ek mk)"
  unfolding stable_def using assms recv_frame_only_inq by metis

lemma stable_timeout [simp]:
  "stable (link_timeout t) (ret x)" "stable (link_timeout t) (raise e)" "stable (link_timeout t) (of_result r)"
  "stable (link_timeout t) time_now" "stable (link_timeout t) (urandom n)" "stable (link_timeout t) next_salt"
  "stable (link_timeout t) (sendall bs)" "stable (link_timeout t) (recv_frame L ek mk)"
  by (auto simp: stable_def link_timeout_def ret_def raise_def of_result_def time_now_def urandom_def
      next_salt_def sendall_def split: list.splits option.splits)
    (subst recv_frame_only_inq, simp)

lemma stable_fault_free [simp]:
  "stable fault_free (ret x)" "stable fault_free (raise e)" "stable fault_free (of_result r)"
  "stable fault_free time_now" "stable fault_free (urandom n)" "stable fault_free next_salt"
  "stable fault_free (sendall bs)" "stable fault_free (recv_frame L ek mk)"
  "stable fault_free (settimeout t)"
  by (auto simp: stable_def fault_free_def ret_def raise_def of_result_def time_now_def urandom_def
      next_salt_def sendall_def settimeout_def split: list.splits option.splits)
    (subst recv_frame_only_inq, simp)

lemma stable_send_frame:
  "stable (link_timeout t) (send_frame L ty sid p ek mk)"
  "stable fault_free (send_frame L ty sid p ek mk)"
  by (auto simp: send_frame_def encrypt_payload_def Let_def intro!: stable_andThen split: option.split)

lemma stable_client_parts:
  "stable (link_timeout t) (client_recv_server_hello L spk nc)" "stable (link_timeout t) (client_respond L csk nc ns)"
  "stable fault_free (client_recv_server_hello L spk nc)" "stable fault_free (client_respond L csk nc ns)"
  by (auto simp: client_recv_server_hello_def client_respond_def client_recv_server_done_def sign_data_def
      Let_def case_prod_beta intro!: stable_andThen stable_send_frame)

lemma client_handshake_fault_free: "stable fault_free (client_handshake L csk spk)"
  unfolding client_handshake_def
  by (auto intro!: stable_andThen stable_send_frame stable_client_parts)

lemma client_handshake_timeout: "sock_timeout (snd (client_handshake L csk spk w)) = Some HANDSHAKE_TIMEOUT"
proof -
  let ?m = "andThen (urandom 16) (\<lambda>nonce_c.
     andThen time_now (\<lambda>ts_c.
     andThen (send_frame L HANDSHAKE_CLIENT_HELLO NULL_SID (client_hello nonce_c ts_c) None None) (\<lambda>_.
     andThen (client_recv_server_hello L spk nonce_c) (\<lambda>nonce_s.
     client_respond L csk nonce_c nonce_s))))"
  have "stable (link_timeout (Some HANDSHAKE_TIMEOUT)) ?m"
    by (auto intro!: stable_andThen stable_send_frame stable_client_parts)
  then have "link_timeout (Some HANDSHAKE_TIMEOUT) (snd (?m (w\<lparr>sock_timeout := Some HANDSHAKE_TIMEOUT\<rparr>)))"
    by (simp add: stable_def link_timeout_def)
  then show ?thesis by (simp add: client_handshake_def andThen_def settimeout_def link_timeout_def)
qed

text \<open>
  The \<open>io_timeout\<close> a client is constructed with has no effect: whatever it is, once the tunnel is
  connected every read and write on its socket runs under the 30 seconds of the handshake, which
  nothing restores.
\<close>

lemma io_timeout_ineffective:
  assumes "do_connect L csk spk T = (Inr (), T')"
  shows "sock_timeout (link T') = Some 30 \<and> is_connected T' \<and> io_timeout T' = io_timeout T"
proof -
  obtain w sid ek mk w1 where "client_handshake L csk spk w = (Inr (sid, ek, mk), w1)" "link T' = w1"
    "is_connected T'"
    using assms by (blast elim: do_connect_Inr)
  then show ?thesis
    using client_handshake_timeout [of L csk spk w] do_connect_frame(1) [OF assms]
    by (simp add: HANDSHAKE_TIMEOUT_def same_config_def)
qed

text \<open>A tunnel whose every connection meets an honest server, with \<open>extra\<close> bytes after the handshake.\<close>

definition honest_stream :: "world \<Rightarrow> bytes \<Rightarrow> net_event list" where
  "honest_stream w extra =
     [Seg (sh_frame model_lib demo_sk (random_at w 0 16) demo_sw
       @ sd_frame model_lib (public_key model_lib demo_ck) 1 (replicate 16 7) (replicate 32 9) @ extra)]"

lemma same_environment [simp]:
  "random_at (w\<lparr>sent := b, send_faults := f, sock_timeout := t, sock_open := p\<rparr>) = random_at w"
  "random_at (w\<lparr>sent := b, send_faults := f, sock_open := p, sock_timeout := t\<rparr>) = random_at w"
  "random_at (w\<lparr>sock_open := p\<rparr>) = random_at w"
  "clocks_agree (w\<lparr>sent := b, send_faults := f, sock_timeout := t, sock_open := p\<rparr>) v = clocks_agree w v"
  "clocks_agree (w\<lparr>sent := b, send_faults := f, sock_open := p, sock_timeout := t\<rparr>) v = clocks_agree w v"
  "clocks_agree (w\<lparr>sock_open := p\<rparr>) v = clocks_agree w v"
  by (simp_all add: random_at_def clocks_agree_def fun_eq_iff)

text \<open>Connecting to an honest server succeeds.\<close>

lemma do_connect_honest:
  assumes d: "dial_outcome T (dials T) = Inr (honest_stream (link T) extra, [])"
    and clocks: "clocks_agree (link T) demo_sw"
  obtains T' where "do_connect model_lib demo_ck (public_key model_lib demo_sk) T = (Inr (), T')"
    and "session_id_of T' = Some (replicate 16 7)"
    and "\<exists>ek mk. (ek, mk) = derive_keys model_lib (replicate 32 9) (Some (replicate 16 7)) derive_keys_info \<and>
          enc_key_of T' = Some ek \<and> mac_key_of T' = Some mk"
    and "has_sock T'" "is_connected T'" "fault_free (link T')" "arriving (inq (link T')) = extra"
    and "\<exists>w. past T' = w # past T \<and> (w = link T \<or> w = (link T)\<lparr>sock_open := False\<rparr>)"
proof -
  let ?L = model_lib and ?sid = "replicate 16 7 :: bytes" and ?key = "replicate 32 9 :: bytes"
  obtain v where c: "close_socket T = (Inr (), T\<lparr>link := v, has_sock := False, is_connected := False\<rparr>)"
    and v: "v = link T \<or> v = (link T)\<lparr>sock_open := False\<rparr>" using close_socket_run by blast
  let ?w = "v\<lparr>inq := honest_stream (link T) extra, sent := [], send_faults := [],
      sock_open := True, sock_timeout := Some (io_timeout T)\<rparr>"
  have env: "random_at v = random_at (link T)" "clocks_agree v demo_sw" using v clocks by auto
  have "random_at ?w = random_at v" "clocks_agree ?w demo_sw"
    using env(2) by (simp_all add: random_at_def clocks_agree_def fun_eq_iff)
  then have a: "arriving (inq ?w) = sh_frame ?L demo_sk (random_at ?w 0 16) demo_sw
      @ sd_frame ?L (public_key ?L demo_ck) 1 ?sid ?key @ extra"
    by (simp add: honest_stream_def env(1))
  obtain w' where h: "client_handshake ?L demo_ck (public_key ?L demo_sk) ?w
      = (Inr (?sid, derive_keys ?L ?key (Some ?sid) derive_keys_info), w')" and e: "arriving (inq w') = extra"
    using client_run [OF a _ \<open>clocks_agree ?w demo_sw\<close> model_lib_rsa model_lib_ok(3,4)] by auto
  have "fault_free ?w" by (simp add: fault_free_def)
  then have ff: "fault_free w'" using client_handshake_fault_free [of ?L demo_ck "public_key ?L demo_sk"] h
    unfolding stable_def by (metis snd_conv)
  obtain ek mk where keys: "derive_keys ?L ?key (Some ?sid) derive_keys_info = (ek, mk)" by force
  let ?T = "T\<lparr>dials := Suc (dials T), past := v # past T, link := w', has_sock := True,
     session_id_of := Some ?sid, enc_key_of := Some ek, mac_key_of := Some mk, is_connected := True\<rparr>"
  have "do_connect ?L demo_ck (public_key ?L demo_sk) T = (Inr (), ?T)"
    using c d h keys
    by (simp add: do_connect_def andThen_def dial_server_def on_link_def keep_session_def settimeout_def Let_def)
  then show ?thesis by (rule that) (use keys ff e v in auto)
qed

definition demo_up :: "bytes \<Rightarrow> tunnel" where
  "demo_up extra = new_tunnel 10 60 3 2 demo_cw (\<lambda>_. Inr (honest_stream demo_cw extra, [])) (\<lambda>_. [])"

lemma io_timeout_ineffective_instance:
  "\<exists>T'. do_connect model_lib demo_ck (public_key model_lib demo_sk) (demo_up []) = (Inr (), T') \<and>
     sock_timeout (link T') = Some 30 \<and> io_timeout T' = 60"
proof -
  obtain T' where "do_connect model_lib demo_ck (public_key model_lib demo_sk) (demo_up []) = (Inr (), T')"
    by (rule do_connect_honest [of "demo_up []" "[]"]) (simp_all add: demo_up_def new_tunnel_def)
  with io_timeout_ineffective [OF this] show ?thesis by (simp add: demo_up_def new_tunnel_def)
qed

subsection \<open>One exchange\<close>

lemma exchange_run:
  assumes "aead_ok L" and "fault_free w" and "length sid = SESSION_ID_SIZE" and "length ek = AES_KEY_SIZE"
    and "payload_fits req" and "carries L (Some ek) (Some mk) (DATA_RESPONSE, rsid, resp) g"
    and "arriving (inq w) = g @ rest"
  obtains q where "exchange L sid (Some ek) (Some mk) req w
      = (Inr resp, w\<lparr>rnd_pos := rnd_pos w + GCM_NONCE_SIZE,
           sent := sent w @ sealed_frame L ek mk w (DATA_REQUEST, sid, req), inq := q\<rparr>)"
    and "arriving q = rest"
proof -
  let ?w1 = "w\<lparr>rnd_pos := rnd_pos w + GCM_NONCE_SIZE,
      sent := sent w @ sealed_frame L ek mk w (DATA_REQUEST, sid, req)\<rparr>"
  have s: "send_frame L DATA_REQUEST sid req (Some ek) (Some mk) w = (Inr (), ?w1)"
    by (rule sealed_frame_sent(1)) (use assms in \<open>simp_all add: fault_free_def\<close>)
  have "arriving (inq ?w1) = g @ rest" using assms(7) by simp
  from carries_received [OF assms(6) this] obtain q where
    "recv_frame L (Some ek) (Some mk) ?w1 = (Inr (DATA_RESPONSE, rsid, resp), ?w1\<lparr>inq := q\<rparr>)"
    and q: "arriving q = rest" by metis
  then have "exchange L sid (Some ek) (Some mk) req w = (Inr resp, ?w1\<lparr>inq := q\<rparr>)"
    using s by (simp add: exchange_def andThen_def ret_def)
  then show ?thesis by (rule that) (rule q)
qed

lemma do_request_connected:
  assumes "is_connected T" and "has_sock T" and "session_id_of T = Some sid"
  shows "do_request L csk spk req T = on_link (exchange L sid (enc_key_of T) (mac_key_of T) req) T"
  using assms by (simp add: do_request_def andThen_def ret_def)

lemma send_request_first:
  assumes "do_request L csk spk req T = (Inr resp, T')" and "1 \<le> max_retries T"
  shows "send_request L csk spk req T = (Inr resp, T')"
  using attempts_loop_Cons [OF assms(1), of None 1 "[2 .. max_retries T]"] assms(2)
  by (simp add: send_request_def upto_rec1)

text \<open>
  C35. Delivery is at least once: when the reply to a request is lost (here the exchange fails after
  the request went out) and the server can be reached again, \<open>send_request\<close> returns the reply of
  the second attempt, and the same request has then been sent twice, once on each connection,
  whether or not the first copy was acted on.
\<close>

theorem lost_reply_resends:
  assumes "aead_ok L" and "is_connected T" and "has_sock T" and "session_id_of T = Some sid"
    and "send_frame L DATA_REQUEST sid req (enc_key_of T) (mac_key_of T) (link T) = (Inr (), w0)"
    and "recv_frame L (enc_key_of T) (mac_key_of T) w0 = (Inl e, w1)"
    and "do_connect L csk spk (T\<lparr>link := w1\<rparr>) = (Inr (), T2)"
    and "session_id_of T2 = Some sid2"
    and "exchange L sid2 (enc_key_of T2) (mac_key_of T2) req (link T2) = (Inr resp, w2)"
    and "2 \<le> max_retries T" and "0 \<le> retry_backoff T"
  shows "\<exists>T' f f2. send_request L csk spk req T = (Inr resp, T') \<and>
    carries L (enc_key_of T) (mac_key_of T) (DATA_REQUEST, sid, req) f \<and>
    sent (hd (past T')) = sent (link T) @ f \<and>
    carries L (enc_key_of T2) (mac_key_of T2) (DATA_REQUEST, sid2, req) f2 \<and>
    sent (link T') = sent (link T2) @ f2"
proof -
  have "exchange L sid (enc_key_of T) (mac_key_of T) req (link T) = (Inl e, w1)"
    using assms(5,6) by (simp add: exchange_def andThen_def)
  then have q1: "do_request L csk spk req T = (Inl e, T\<lparr>link := w1\<rparr>)"
    using do_request_connected [OF assms(2-4), of L csk spk req] by (simp add: on_link_def)
  let ?T3 = "T2\<lparr>slept := slept T2 @ [retry_backoff T]\<rparr>"
  from do_connect_Inr [OF assms(7)] obtain v where up: "has_sock T2" "is_connected T2"
    and v: "past T2 = v # past T" "v = w1 \<or> v = w1\<lparr>sock_open := False\<rparr>" by simp metis
  have q2: "do_request L csk spk req ?T3 = (Inr resp, ?T3\<lparr>link := w2\<rparr>)"
    using do_request_connected [of ?T3 sid2 L csk spk req] up assms(8,9) by (simp add: on_link_def)
  have m: "[1 .. max_retries T] = 1 # 2 # [3 .. max_retries T]"
    using assms(10) by (simp add: upto_rec1)
  have run: "send_request L csk spk req T = (Inr resp, ?T3\<lparr>link := w2\<rparr>)"
    unfolding send_request_def m
    using attempts_loop_Cons [OF q1, of None 1] attempts_loop_Cons [OF q2, of "Some e" 2] assms(7,10,11)
    by simp
  obtain f where f: "carries L (enc_key_of T) (mac_key_of T) (DATA_REQUEST, sid, req) f"
    "sent w0 = sent (link T) @ f" using send_frame_carries [OF disjI2 [OF assms(1)] assms(5)] .
  obtain q where "w1 = w0\<lparr>inq := q\<rparr>" using recv_frame_step [of L _ _ w0] assms(6) by (metis prod.inject)
  then have s1: "sent v = sent (link T) @ f" using f(2) v(2) by auto
  obtain w3 where s2: "send_frame L DATA_REQUEST sid2 req (enc_key_of T2) (mac_key_of T2) (link T2) = (Inr (), w3)"
    and rest: "andThen (recv_frame L (enc_key_of T2) (mac_key_of T2)) (\<lambda>(t, _, p).
        if t = DATA_RESPONSE then ret p else raise (unexpected_reply t p)) w3 = (Inr resp, w2)"
    using assms(9) by (auto simp: exchange_def elim: andThen_InrE)
  obtain f2 where f2: "carries L (enc_key_of T2) (mac_key_of T2) (DATA_REQUEST, sid2, req) f2"
    "sent w3 = sent (link T2) @ f2" using send_frame_carries [OF disjI2 [OF assms(1)] s2] .
  obtain r3 q3 where "recv_frame L (enc_key_of T2) (mac_key_of T2) w3 = (r3, w3\<lparr>inq := q3\<rparr>)"
    by (rule recv_frame_step)
  then have "w2 = w3\<lparr>inq := q3\<rparr>"
    using rest by (auto simp: andThen_def ret_def raise_def split: sum.splits if_splits)
  then show ?thesis using run f s1 f2 v(1) by auto
qed

text \<open>The concrete keys of \<open>honest_stream\<close>, a reply under them, and a tunnel whose reply never comes.\<close>

definition demo_keys :: "bytes \<times> bytes" where
  "demo_keys = derive_keys model_lib (replicate 32 9) (Some (replicate 16 7)) derive_keys_info"

definition demo_reply :: bytes where
  "demo_reply = sealed_frame model_lib (fst demo_keys) (snd demo_keys) world0 (DATA_RESPONSE, replicate 16 7, [42])"

definition demo_lost :: tunnel where
  "demo_lost = (new_tunnel 10 60 3 2 (demo_cw\<lparr>inq := [Stall]\<rparr>)
       (\<lambda>_. Inr (honest_stream (demo_cw\<lparr>rnd_pos := GCM_NONCE_SIZE\<rparr>) demo_reply, [])) (\<lambda>_. []))
     \<lparr>has_sock := True, session_id_of := Some (replicate 16 1), enc_key_of := Some (replicate 32 2),
      mac_key_of := Some (replicate 32 3), is_connected := True\<rparr>"

lemma demo_keys_length: "length (fst demo_keys) = AES_KEY_SIZE"
  using derive_keys_length [OF model_lib_ok(2)] by (metis demo_keys_def prod.collapse wire_simps(2))

lemma small_fits: "length p \<le> 1000 \<Longrightarrow> payload_fits p"
  by (simp add: payload_fits_def wire_simps)

lemma demo_reply_carries:
  "carries model_lib (Some (fst demo_keys)) (Some (snd demo_keys)) (DATA_RESPONSE, replicate 16 7, [42]) demo_reply"
  unfolding demo_reply_def
  by (rule sealed_frame_sent(2))
    (simp_all add: model_lib_ok demo_keys_length small_fits world0_def SESSION_ID_SIZE_def)

lemma honest_stream_cong: "random_at v 0 16 = random_at w 0 16 \<Longrightarrow> honest_stream v x = honest_stream w x"
  by (simp add: honest_stream_def)

theorem lost_reply_resends_witness:
  "\<exists>T' f. send_request model_lib demo_ck (public_key model_lib demo_sk) [5] demo_lost = (Inr [42], T') \<and>
    carries model_lib (Some (replicate 32 2)) (Some (replicate 32 3)) (DATA_REQUEST, replicate 16 1, [5]) f \<and>
    sent (hd (past T')) = f"
proof -
  let ?L = model_lib and ?ek = "replicate 32 2 :: bytes" and ?mk = "replicate 32 3 :: bytes"
  let ?sid = "replicate 16 1 :: bytes"
  let ?w = "link demo_lost" and ?spk = "public_key model_lib demo_sk"
  have w: "?w = demo_cw\<lparr>inq := [Stall]\<rparr>" by (simp add: demo_lost_def new_tunnel_def)
  let ?wa = "?w\<lparr>rnd_pos := rnd_pos ?w + GCM_NONCE_SIZE,
      sent := sent ?w @ sealed_frame ?L ?ek ?mk ?w (DATA_REQUEST, ?sid, [5])\<rparr>"
  have keys: "enc_key_of demo_lost = Some ?ek" "mac_key_of demo_lost = Some ?mk"
    "session_id_of demo_lost = Some ?sid" "is_connected demo_lost" "has_sock demo_lost"
    "max_retries demo_lost = 3" "retry_backoff demo_lost = 2"
    by (simp_all add: demo_lost_def new_tunnel_def)
  have s: "send_frame ?L DATA_REQUEST ?sid [5] (Some ?ek) (Some ?mk) ?w = (Inr (), ?wa)"
    by (rule sealed_frame_sent(1))
      (simp_all add: model_lib_ok w demo_cw_def world0_def small_fits SESSION_ID_SIZE_def AES_KEY_SIZE_def)
  have "inq ?wa = [Stall]" by (simp add: w)
  then have r: "recv_frame ?L (Some ?ek) (Some ?mk) ?wa = (Inl (Lib TimeoutErrorC), ?wa\<lparr>inq := []\<rparr>)"
    by (simp add: recv_frame_def recv_exact_def recv_exact_loop.simps wire_simps andThen_def)
  let ?wb = "?wa\<lparr>inq := []\<rparr>"
  have "random_at ?wb 0 16 = random_at (demo_cw\<lparr>rnd_pos := GCM_NONCE_SIZE\<rparr>) 0 16"
    by (simp add: random_at_def w demo_cw_def world0_def)
  from honest_stream_cong [OF this] have d: "dial_outcome (demo_lost\<lparr>link := ?wb\<rparr>) (dials (demo_lost\<lparr>link := ?wb\<rparr>))
      = Inr (honest_stream (link (demo_lost\<lparr>link := ?wb\<rparr>)) demo_reply, [])"
    by (simp add: demo_lost_def new_tunnel_def)
  have ca: "clocks_agree (link (demo_lost\<lparr>link := ?wb\<rparr>)) demo_sw"
    using demo_clocks by (simp add: clocks_agree_def w)
  obtain T2 where T2: "do_connect ?L demo_ck ?spk (demo_lost\<lparr>link := ?wb\<rparr>) = (Inr (), T2)"
    and sid2: "session_id_of T2 = Some (replicate 16 7)"
    and k2: "\<exists>ek mk. (ek, mk) = demo_keys \<and> enc_key_of T2 = Some ek \<and> mac_key_of T2 = Some mk"
    and ff: "fault_free (link T2)" and arr: "arriving (inq (link T2)) = demo_reply"
    by (rule do_connect_honest [OF d ca]) (auto simp: demo_keys_def)
  have k2': "enc_key_of T2 = Some (fst demo_keys)" "mac_key_of T2 = Some (snd demo_keys)"
    using k2 by (metis fst_conv, metis snd_conv)
  have sid16: "length (replicate 16 (7 :: byte)) = SESSION_ID_SIZE" by (simp add: SESSION_ID_SIZE_def)
  have fits5: "payload_fits [5]" by (simp add: small_fits)
  have arr': "arriving (inq (link T2)) = demo_reply @ []" using arr by simp
  obtain q where x: "exchange ?L (replicate 16 7) (Some (fst demo_keys)) (Some (snd demo_keys)) [5] (link T2)
      = (Inr [42], (link T2)\<lparr>rnd_pos := rnd_pos (link T2) + GCM_NONCE_SIZE,
           sent := sent (link T2) @ sealed_frame ?L (fst demo_keys) (snd demo_keys) (link T2)
             (DATA_REQUEST, replicate 16 7, [5]), inq := q\<rparr>)"
    by (rule exchange_run [OF model_lib_ok(1) ff sid16 demo_keys_length fits5 demo_reply_carries arr'])
  show ?thesis
    using lost_reply_resends [OF model_lib_ok(1) keys(4,5,3), unfolded keys k2', OF s r T2 sid2 _ _ _, unfolded k2', OF x]
    by (simp add: keys w demo_cw_def world0_def) blast
qed

end
