(* ===== verification/Py_Str.thy ===== *)
theory Py_Str
  imports Py_Text
begin

text \<open>
  The methods of \<open>str\<close> the program uses: \<open>strip\<close>, \<open>split\<close>, \<open>rsplit\<close>, \<open>partition\<close>,
  \<open>splitlines\<close>, \<open>upper\<close>, \<open>lower\<close> and \<open>int()\<close> of a string.  Case mapping and \<open>int()\<close> are
  those of ASCII text; other letters are mapped to themselves and other decimal digits
  are refused.
\<close>

subsection \<open>White space\<close>

definition py_space :: "nat \<Rightarrow> bool" where
  "py_space c \<longleftrightarrow> (9 \<le> c \<and> c \<le> 13) \<or> (28 \<le> c \<and> c \<le> 32) \<or> c = 133 \<or> c = 160 \<or> c = 5760 \<or>
     (8192 \<le> c \<and> c \<le> 8202) \<or> c = 8232 \<or> c = 8233 \<or> c = 8239 \<or> c = 8287 \<or> c = 12288"

definition strip :: "pystr \<Rightarrow> pystr" where
  "strip s = rev (dropWhile py_space (rev (dropWhile py_space s)))"

lemma strip_trimmed:
  assumes "s = [] \<or> (\<not> py_space (hd s) \<and> \<not> py_space (last s))"
  shows "strip s = s"
proof (cases s rule: rev_cases)
  case (snoc t c)
  have "dropWhile py_space s = s" using assms by (cases s) auto
  then show ?thesis using assms snoc by (simp add: strip_def)
qed (simp add: strip_def)

subsection \<open>Splitting\<close>

text \<open>\<open>s.split(c)\<close> for a single character: always at least one piece.\<close>

fun split_on :: "nat \<Rightarrow> pystr \<Rightarrow> pystr list" where
  "split_on c [] = [[]]"
| "split_on c (x # xs) =
     (if x = c then [] # split_on c xs
      else case split_on c xs of [] \<Rightarrow> [[x]] | p # ps \<Rightarrow> (x # p) # ps)"

fun join_with :: "pystr \<Rightarrow> pystr list \<Rightarrow> pystr" where
  "join_with sep [] = []"
| "join_with sep [p] = p"
| "join_with sep (p # q # ps) = p @ sep @ join_with sep (q # ps)"

lemma split_on_ne_Nil [simp]: "split_on c s \<noteq> []"
  by (induction s) (auto split: list.split)

lemma split_on_absent: "c \<notin> set s \<Longrightarrow> split_on c s = [s]"
  by (induction s) auto

lemma split_on_append: "c \<notin> set p \<Longrightarrow> split_on c (p @ c # s) = p # split_on c s"
  by (induction p) auto

lemma split_join:
  "ps \<noteq> [] \<Longrightarrow> \<forall>p \<in> set ps. c \<notin> set p \<Longrightarrow> split_on c (join_with [c] ps) = ps"
proof (induction "[c]" ps rule: join_with.induct)
  case (2 p)
  then show ?case by (simp add: split_on_absent)
next
  case (3 p q ps)
  then show ?case by (simp add: split_on_append)
qed simp

lemma join_with_Cons: "join_with sep ((x # a) # ps) = x # join_with sep (a # ps)"
  by (cases ps) simp_all

lemma join_split: "join_with [c] (split_on c s) = s"
proof (induction s)
  case (Cons x xs)
  obtain p ps where p: "split_on c xs = p # ps" by (cases "split_on c xs") simp_all
  show ?case using Cons p by (simp add: join_with_Cons)
qed simp

text \<open>\<open>s.split(sep)\<close> and \<open>s.split(sep, 1)\<close> for a separator of several characters.\<close>

fun find_sub :: "pystr \<Rightarrow> pystr \<Rightarrow> (pystr \<times> pystr) option" where
  "find_sub sep [] = (if sep = [] then Some ([], []) else None)"
| "find_sub sep (x # xs) =
     (if take (length sep) (x # xs) = sep then Some ([], drop (length sep) (x # xs))
      else map_option (\<lambda>(a, b). (x # a, b)) (find_sub sep xs))"

lemma find_sub_Some: "find_sub sep s = Some (a, b) \<Longrightarrow> s = a @ sep @ b"
proof (induction s arbitrary: a)
  case (Cons x xs)
  show ?case
  proof (cases "take (length sep) (x # xs) = sep")
    case True
    then have "a = []" "b = drop (length sep) (x # xs)" using Cons.prems by simp_all
    then show ?thesis using True by (metis append_Nil append_take_drop_id)
  next
    case False
    then obtain a' where "find_sub sep xs = Some (a', b)" "a = x # a'"
      using Cons.prems by auto
    then show ?thesis using Cons.IH by simp
  qed
qed (simp split: if_splits)

lemma find_sub_length: "find_sub sep s = Some (a, b) \<Longrightarrow> length s = length a + length sep + length b"
  by (drule find_sub_Some) simp

function split_str :: "pystr \<Rightarrow> pystr \<Rightarrow> pystr list" where
  "split_str sep s =
     (if sep = [] then [s]
      else case find_sub sep s of None \<Rightarrow> [s] | Some (a, b) \<Rightarrow> a # split_str sep b)"
  by pat_completeness auto
termination
  by (relation "measure (\<lambda>(sep, s). length s)") (auto dest: find_sub_length)

declare split_str.simps [simp del]

definition split_once :: "pystr \<Rightarrow> pystr \<Rightarrow> pystr list" where
  "split_once sep s = (case find_sub sep s of None \<Rightarrow> [s] | Some (a, b) \<Rightarrow> [a, b])"

text \<open>\<open>s.rsplit(c, 1)\<close> when \<open>c\<close> occurs in \<open>s\<close>.\<close>

definition rsplit_once :: "nat \<Rightarrow> pystr \<Rightarrow> pystr \<times> pystr" where
  "rsplit_once c s =
     (let r = rev s in (rev (drop 1 (dropWhile (\<lambda>x. x \<noteq> c) r)), rev (takeWhile (\<lambda>x. x \<noteq> c) r)))"

lemma rsplit_once_append:
  assumes "c \<notin> set t"
  shows "rsplit_once c (s @ c # t) = (s, t)"
proof -
  have "takeWhile (\<lambda>x. x \<noteq> c) (rev t @ c # rev s) = rev t"
    "dropWhile (\<lambda>x. x \<noteq> c) (rev t @ c # rev s) = c # rev s"
    using assms by (induction t rule: rev_induct) auto
  then show ?thesis by (simp add: rsplit_once_def Let_def)
qed

subsection \<open>Lines\<close>

definition line_break :: "nat \<Rightarrow> bool" where
  "line_break c \<longleftrightarrow> c = 10 \<or> c = 11 \<or> c = 12 \<or> c = 13 \<or> c = 28 \<or> c = 29 \<or> c = 30 \<or> c = 133 \<or>
     c = 8232 \<or> c = 8233"

text \<open>
  \<open>splitlines()\<close>: the break \<open>\r\n\<close> is one (the flag says that the last character was \<open>\r\<close>);
  no empty line after the last break.
\<close>

fun splitlines_aux :: "bool \<Rightarrow> pystr \<Rightarrow> pystr \<Rightarrow> pystr list" where
  "splitlines_aux cr cur [] = (if cur = [] then [] else [rev cur])"
| "splitlines_aux cr cur (c # cs) =
     (if cr \<and> c = 10 then splitlines_aux False cur cs
      else if line_break c then rev cur # splitlines_aux (c = 13) [] cs
      else splitlines_aux False (c # cur) cs)"

definition splitlines :: "pystr \<Rightarrow> pystr list" where
  "splitlines s = splitlines_aux False [] s"

lemma splitlines_aux_line:
  "\<forall>c \<in> set l. \<not> line_break c \<Longrightarrow>
     splitlines_aux False cur (l @ 10 # s) = (rev cur @ l) # splitlines_aux False [] s"
  by (induction l arbitrary: cur) (auto simp: line_break_def)

lemma splitlines_lines:
  "\<forall>l \<in> set ls. \<forall>c \<in> set l. \<not> line_break c \<Longrightarrow>
     splitlines (concat (map (\<lambda>l. l @ [10]) ls)) = ls"
proof (induction ls)
  case (Cons l ls)
  then show ?case using splitlines_aux_line [of l "[]"] by (simp add: splitlines_def)
qed (simp add: splitlines_def)

subsection \<open>Case and numbers\<close>

definition upper :: "pystr \<Rightarrow> pystr" where
  "upper s = map (\<lambda>c. if 97 \<le> c \<and> c \<le> 122 then c - 32 else c) s"

definition lower :: "pystr \<Rightarrow> pystr" where
  "lower s = map (\<lambda>c. if 65 \<le> c \<and> c \<le> 90 then c + 32 else c) s"

text \<open>Digits with single underscores between them.\<close>

fun int_digits :: "pystr \<Rightarrow> pystr option" where
  "int_digits [] = None"
| "int_digits [c] = (if is_digit c then Some [c] else None)"
| "int_digits (c # d # s) =
     (if is_digit c
      then map_option (\<lambda>ds. c # ds) (if d = 95 then int_digits s else int_digits (d # s))
      else None)"

text \<open>\<open>int(s)\<close>; CPython refuses more than 4300 digits.\<close>

definition py_int :: "pystr \<Rightarrow> int option" where
  "py_int s =
     (let t = strip s;
          (sgn, ds) = (case t of [] \<Rightarrow> (1, []) | c # r \<Rightarrow>
             if c = 45 then (- 1, r) else if c = 43 then (1, r) else (1, t))
      in case int_digits ds of None \<Rightarrow> None
         | Some n \<Rightarrow> if length n \<le> 4300 then Some (sgn * int (digits_val n)) else None)"

lemma int_digits_all: "s \<noteq> [] \<Longrightarrow> list_all is_digit s \<Longrightarrow> int_digits s = Some s"
  by (induction s rule: int_digits.induct) (auto simp: is_digit_def)

lemma digit_not_space: "is_digit c \<Longrightarrow> \<not> py_space c"
  by (auto simp: is_digit_def py_space_def)

lemma list_all_str_nat: "list_all is_digit (str_nat n)"
  using str_nat_digits by (auto simp: list_all_iff)

lemma py_int_str_nat:
  assumes "length (str_nat n) \<le> 4300"
  shows "py_int (str_nat n) = Some (int n)"
proof -
  have d: "is_digit c" if "c \<in> set (str_nat n)" for c using str_nat_digits [OF that] .
  have "strip (str_nat n) = str_nat n"
    by (rule strip_trimmed) (simp add: d digit_not_space)
  moreover obtain c r where c: "str_nat n = c # r" by (metis list.exhaust str_nat_ne_Nil)
  moreover have "is_digit c" using d c by simp
  moreover have "int_digits (str_nat n) = Some (str_nat n)"
    by (rule int_digits_all) (simp_all add: list_all_str_nat)
  ultimately show ?thesis using assms digits_val_str_nat [of n]
    by (auto simp: py_int_def Let_def is_digit_def simp del: digits_val_str_nat)
qed

end
