(* ===== verification/Forwarder.thy ===== *)
theory Forwarder
  imports Network Py_Str Py_Json_Roundtrip
begin

text \<open>
  \<open>server/forwarder.py\<close>: requests in the canonical JSON format are forwarded to web servers
  with the \<open>requests\<close> package, or relayed byte by byte over the sockets that CONNECT opened.
  The state is the module's table of CONNECT sessions, its sockets, and what the outside
  world will answer: the outcome of the \<open>n\<close>-th TCP connection (\<open>fw_dial\<close>) and of the \<open>n\<close>-th
  call of \<open>requests\<close> (\<open>fw_http\<close>), both arbitrary.  \<open>lib_text\<close> is the text of exceptions
  raised inside libraries, which error pages quote.
\<close>

subsection \<open>State\<close>

record tsock =
  peer :: "pystr \<times> int"
  t_inq :: "net_event list"
  t_sent :: bytes
  t_faults :: "(pyexn \<times> nat) option list"
  t_timeout :: "rat option"
  t_open :: bool

record http_reply =
  status :: int
  reply_headers :: "(pystr \<times> pystr) list"
  chunks :: "bytes list"
  stream_error :: "pyexn option"

type_synonym http_call = "pystr \<times> pystr \<times> dict \<times> bytes option"

record forwarder =
  fw_sessions :: "pystr \<Rightarrow> nat option"
  fw_socks :: "nat \<Rightarrow> tsock option"
  fw_dialled :: nat
  fw_dial :: "nat \<Rightarrow> pystr \<Rightarrow> int \<Rightarrow> pyexn + (net_event list \<times> (pyexn \<times> nat) option list)"
  fw_calls :: "http_call list"
  fw_http :: "nat \<Rightarrow> http_call \<Rightarrow> pyexn + http_reply"
  lib_text :: "exc_class \<Rightarrow> pystr"

definition DEFAULT_TIMEOUT :: rat where "DEFAULT_TIMEOUT = 15"

definition USER_AGENT :: pystr where
  "USER_AGENT = u ''Mozilla/5.0 (Windows NT 10.0; Win64; x64) '' @
     u ''AppleWebKit/537.36 (KHTML, like Gecko) '' @ u ''Chrome/120.0.0.0 Safari/537.36''"

text \<open>\<open>str(e)\<close> inside an f-string.\<close>

definition exn_text :: "pyexn \<Rightarrow> (forwarder, pystr) io" where
  "exn_text e F = (Inr (case e of Raised _ m \<Rightarrow> m | Lib c \<Rightarrow> lib_text F c), F)"

subsection \<open>Responses\<close>

definition build_response :: "int \<Rightarrow> dict \<Rightarrow> bytes \<Rightarrow> bytes" where
  "build_response status_code headers body =
     dumps_bytes (JObj [(u ''status_code'', JInt status_code), (u ''headers'', JObj headers),
       (u ''body'', JStr (hex body))])"

definition error_page :: "int \<Rightarrow> pystr \<Rightarrow> pystr" where
  "error_page status_code message =
     u ''<html><body><h1>'' @ str_int status_code @ u ''</h1><p>'' @ message @ u ''</p></body></html>''"

definition error_response :: "int \<Rightarrow> pystr \<Rightarrow> pyexn + bytes" where
  "error_response status_code message =
     bind_res (utf8_encode (error_page status_code message)) (\<lambda>body.
       Inr (build_response status_code [(u ''Content-Type'', JStr (u ''text/html''))] body))"

subsection \<open>Plain HTTP\<close>

definition starts_with :: "pystr \<Rightarrow> pystr \<Rightarrow> bool" where
  "starts_with p s \<longleftrightarrow> take (length p) s = p"

definition with_scheme :: "pystr \<Rightarrow> pystr" where
  "with_scheme url =
     (if \<not> starts_with (u ''http://'') url \<and> \<not> starts_with (u ''https://'') url
      then u ''http://'' @ url else url)"

text \<open>
  The header dictionary handed on.  The request's \<open>headers\<close> may be any JSON value; what is not
  a dictionary fails at the item assignment or at \<open>pop\<close>.
\<close>

definition forward_headers :: "json \<Rightarrow> pyexn + dict" where
  "forward_headers headers =
     (case headers of
        JObj h \<Rightarrow>
          let h1 = (if dict_get h (u ''User-Agent'') = None
                    then dict_set (u ''User-Agent'') (JStr USER_AGENT) h else h)
          in Inr (dict_del (u ''Proxy-Authorization'') (dict_del (u ''Proxy-Connection'') h1))
      | JStr s \<Rightarrow> Inl (Lib (if find_sub (u ''User-Agent'') s = None then TypeErrorC else AttributeErrorC))
      | _ \<Rightarrow> Inl (Lib TypeErrorC))"

definition http_request :: "http_call \<Rightarrow> (forwarder, http_reply) io" where
  "http_request call F =
     (fw_http F (length (fw_calls F)) call, F\<lparr>fw_calls := fw_calls F @ [call]\<rparr>)"

text \<open>\<open>resp.iter_content\<close>: all chunks, unless the stream breaks.\<close>

definition read_content :: "http_reply \<Rightarrow> pyexn + bytes" where
  "read_content r =
     (case stream_error r of None \<Rightarrow> Inr (concat (chunks r)) | Some e \<Rightarrow> Inl e)"

definition http_failure :: "pystr \<Rightarrow> pyexn \<Rightarrow> (forwarder, bytes) io" where
  "http_failure url e =
     andThen (exn_text e) (\<lambda>text. of_result (
       if catches RequestTimeoutC e then error_response 504 (u ''Timeout connecting to '' @ url)
       else if catches RequestConnectionErrorC e then error_response 502 (u ''Connection error: '' @ text)
       else if catches RequestExceptionC e then error_response 502 (u ''Request error: '' @ text)
       else error_response 500 (u ''Server error: '' @ text)))"

definition fw_handle_http :: "pystr \<Rightarrow> json \<Rightarrow> json \<Rightarrow> bytes \<Rightarrow> (forwarder, bytes) io" where
  "fw_handle_http method url headers body =
     (case url of
        JStr given \<Rightarrow>
          let url' = with_scheme given in
          andThen (of_result (forward_headers headers)) (\<lambda>h.
          try_except
            (andThen (http_request (method, url', h, if body = [] then None else Some body)) (\<lambda>resp.
             andThen (of_result (read_content resp)) (\<lambda>content.
             ret (build_response (status resp)
                    (map (\<lambda>(k, v). (k, JStr v)) (reply_headers resp)) content))))
            (http_failure url'))
      | _ \<Rightarrow> raise (Lib AttributeErrorC))"

subsection \<open>CONNECT\<close>

text \<open>
  A target that is no string fails at \<open>in\<close>, at \<open>rsplit\<close>, or as the address of \<open>connect\<close>.
\<close>

definition connect_target :: "json \<Rightarrow> pyexn + pystr \<times> pystr \<times> int" where
  "connect_target target =
     (case target of
        JStr s \<Rightarrow>
          if 58 \<in> set s then
            (let (host, port_str) = rsplit_once 58 s in
             case py_int port_str of None \<Rightarrow> Inl (Lib ValueErrorC) | Some port \<Rightarrow> Inr (s, host, port))
          else Inr (s, s, 443)
      | JList xs \<Rightarrow> Inl (Lib (if JStr [58] \<in> set xs then AttributeErrorC else TypeErrorC))
      | JObj d \<Rightarrow> Inl (Lib (if dict_get d [58] \<noteq> None then AttributeErrorC else TypeErrorC))
      | _ \<Rightarrow> Inl (Lib TypeErrorC))"

text \<open>A new socket, connected; its number is that of the attempt.\<close>

definition dial :: "pystr \<Rightarrow> int \<Rightarrow> (forwarder, nat) io" where
  "dial host port F =
     (let n = fw_dialled F; F1 = F\<lparr>fw_dialled := Suc n\<rparr> in
      case fw_dial F n host port of
        Inl e \<Rightarrow> (Inl e, F1)
      | Inr (q, faults) \<Rightarrow>
          (Inr n, F1\<lparr>fw_socks := (fw_socks F)(n \<mapsto>
             \<lparr>peer = (host, port), t_inq = q, t_sent = [], t_faults = faults,
              t_timeout = Some 5, t_open = True\<rparr>)\<rparr>))"

definition register :: "pystr \<Rightarrow> nat \<Rightarrow> (forwarder, unit) io" where
  "register target n F = (Inr (), F\<lparr>fw_sessions := (fw_sessions F)(target \<mapsto> n)\<rparr>)"

definition unregister :: "pystr \<Rightarrow> (forwarder, unit) io" where
  "unregister target F = (Inr (), F\<lparr>fw_sessions := (fw_sessions F)(target := None)\<rparr>)"

definition fw_handle_connect :: "json \<Rightarrow> (forwarder, bytes) io" where
  "fw_handle_connect target =
     try_except
       (andThen (of_result (connect_target target)) (\<lambda>(key, host, port).
        andThen (dial host port) (\<lambda>n.
        andThen (register key n) (\<lambda>_.
        ret (build_response 200 [] [])))))
       (\<lambda>e. andThen (exn_text e) (\<lambda>text. of_result (error_response 502 (u ''CONNECT failed: '' @ text))))"

subsection \<open>RELAY\<close>

definition RELAY_CHUNK :: nat where "RELAY_CHUNK = 65536"

text \<open>The bytes not yet read, over all segments.\<close>

fun stream_size :: "net_event list \<Rightarrow> nat" where
  "stream_size [] = 0"
| "stream_size (Seg bs # q) = length bs + stream_size q"
| "stream_size (_ # q) = stream_size q"

lemma recv_event_size: "recv_event n q = (Inr c, q') \<Longrightarrow> stream_size q = length c + stream_size q'"
  by (induction n q rule: recv_event.induct) (auto split: if_splits)

text \<open>
  The reading loop: whether the target closed, and what was read.  A chunk shorter than asked
  for, a timeout and any other exception end it.
\<close>

function relay_loop :: "bytes \<Rightarrow> net_event list \<Rightarrow> (bool \<times> bytes) \<times> net_event list" where
  "relay_loop acc q =
     (case recv_event RELAY_CHUNK q of
        (Inl e, q') \<Rightarrow> ((False, acc), q')
      | (Inr chunk, q') \<Rightarrow>
          if chunk = [] then ((True, acc), q')
          else if length chunk < RELAY_CHUNK then ((False, acc @ chunk), q')
          else relay_loop (acc @ chunk) q')"
  by pat_completeness auto
termination
  by (relation "measure (\<lambda>(acc, q). stream_size q)")
    (auto dest!: recv_event_size [OF sym] simp flip: length_greater_0_conv)

declare relay_loop.simps [simp del]

definition update_sock :: "nat \<Rightarrow> tsock \<Rightarrow> forwarder \<Rightarrow> forwarder" where
  "update_sock n s F = F\<lparr>fw_socks := (fw_socks F)(n \<mapsto> s)\<rparr>"

text \<open>\<open>target_sock.sendall(data)\<close> and the reading loop on the socket numbered \<open>n\<close>.\<close>

definition sock_send :: "nat \<Rightarrow> bytes \<Rightarrow> (forwarder, unit) io" where
  "sock_send n data F =
     (case fw_socks F n of
        None \<Rightarrow> (Inl (Lib OSErrorC), F)
      | Some s \<Rightarrow>
          if \<not> t_open s then (Inl (Lib OSErrorC), F)
          else (case t_faults s of
             Some (e, k) # fs \<Rightarrow>
               (Inl e, update_sock n (s\<lparr>t_sent := t_sent s @ take k data, t_faults := fs\<rparr>) F)
           | None # fs \<Rightarrow> (Inr (), update_sock n (s\<lparr>t_sent := t_sent s @ data, t_faults := fs\<rparr>) F)
           | [] \<Rightarrow> (Inr (), update_sock n (s\<lparr>t_sent := t_sent s @ data\<rparr>) F)))"

definition sock_read :: "nat \<Rightarrow> (forwarder, bool \<times> bytes) io" where
  "sock_read n F =
     (case fw_socks F n of
        None \<Rightarrow> (Inr (False, []), F)
      | Some s \<Rightarrow>
          if \<not> t_open s then (Inr (False, []), F)
          else (let (r, q) = relay_loop [] (t_inq s) in (Inr r, update_sock n (s\<lparr>t_inq := q\<rparr>) F)))"

definition tsock_close :: "nat \<Rightarrow> (forwarder, unit) io" where
  "tsock_close n F =
     (case fw_socks F n of None \<Rightarrow> (Inr (), F) | Some s \<Rightarrow> (Inr (), update_sock n (s\<lparr>t_open := False\<rparr>) F))"

definition relay_reply :: "bytes \<Rightarrow> bool \<Rightarrow> bytes" where
  "relay_reply data shut =
     dumps_bytes (JObj [(u ''status_code'', JInt 200), (u ''headers'', JObj []),
       (u ''body'', JStr (hex data)), (u ''closed'', JBool shut)])"

text \<open>\<open>_connect_sessions.get(target)\<close>, and \<open>str(target)\<close> where the target is no string.\<close>

definition session_key :: "json \<Rightarrow> pyexn + pystr option" where
  "session_key target =
     (case target of JStr s \<Rightarrow> Inr (Some s)
      | JList _ \<Rightarrow> Inl (Lib TypeErrorC) | JObj _ \<Rightarrow> Inl (Lib TypeErrorC) | _ \<Rightarrow> Inr None)"

definition str_scalar :: "json \<Rightarrow> pystr" where
  "str_scalar v =
     (case v of JStr s \<Rightarrow> s | JNull \<Rightarrow> u ''None'' | JBool b \<Rightarrow> (if b then u ''True'' else u ''False'')
      | JInt i \<Rightarrow> str_int i
      | JFloat f \<Rightarrow> (case f of NaN \<Rightarrow> u ''nan'' | PInf \<Rightarrow> u ''inf'' | NInf \<Rightarrow> u ''-inf'' | _ \<Rightarrow> repr_float f)
      | _ \<Rightarrow> [])"

definition fw_handle_relay :: "json \<Rightarrow> bytes \<Rightarrow> (forwarder, bytes) io" where
  "fw_handle_relay target data =
     andThen (of_result (session_key target)) (\<lambda>key F.
       case Option.bind key (fw_sessions F) of
         None \<Rightarrow> of_result (error_response 502 (u ''No CONNECT session for '' @ str_scalar target)) F
       | Some n \<Rightarrow>
           try_except
             (andThen (if data = [] then ret () else sock_send n data) (\<lambda>_.
              andThen (sock_read n) (\<lambda>(shut, response_data).
              andThen (if shut then unregister (the key) else ret ()) (\<lambda>_.
              ret (relay_reply response_data shut)))))
             (\<lambda>e. andThen (unregister (the key)) (\<lambda>_. andThen (tsock_close n) (\<lambda>_.
              andThen (exn_text e) (\<lambda>text. of_result (error_response 502 (u ''Relay error: '' @ text))))))
             F)"

subsection \<open>Dispatch\<close>

definition truthy :: "json \<Rightarrow> bool" where
  "truthy v =
     (case v of JNull \<Rightarrow> False | JBool b \<Rightarrow> b | JInt i \<Rightarrow> i \<noteq> 0
      | JFloat f \<Rightarrow> (case f of Fin m _ \<Rightarrow> m \<noteq> 0 | _ \<Rightarrow> True)
      | JStr s \<Rightarrow> s \<noteq> [] | JList xs \<Rightarrow> xs \<noteq> [] | JObj d \<Rightarrow> d \<noteq> [])"

definition get_default :: "dict \<Rightarrow> pystr \<Rightarrow> json \<Rightarrow> json" where
  "get_default d k v = (case dict_get d k of None \<Rightarrow> v | Some w \<Rightarrow> w)"

definition upper_json :: "json \<Rightarrow> pyexn + pystr" where
  "upper_json v = (case v of JStr s \<Rightarrow> Inr (upper s) | _ \<Rightarrow> Inl (Lib AttributeErrorC))"

definition body_bytes :: "json \<Rightarrow> pyexn + bytes" where
  "body_bytes v =
     (if truthy v then (case v of JStr s \<Rightarrow> fromhex s | _ \<Rightarrow> Inl (Lib TypeErrorC)) else Inr [])"

definition dispatch :: "pystr \<Rightarrow> json \<Rightarrow> json \<Rightarrow> bytes \<Rightarrow> (forwarder, bytes) io" where
  "dispatch method url headers body =
     (if method = u ''CONNECT'' then fw_handle_connect url
      else if method = u ''RELAY'' then fw_handle_relay url body
      else fw_handle_http method url headers body)"

definition forward_request :: "bytes \<Rightarrow> (forwarder, bytes) io" where
  "forward_request request_data =
     (case loads_bytes request_data of
        Inl e \<Rightarrow> andThen (exn_text e) (\<lambda>text. of_result (error_response 400 (u ''Bad request format: '' @ text)))
      | Inr (JObj req) \<Rightarrow>
          andThen (of_result (upper_json (get_default req (u ''method'') (JStr (u ''GET''))))) (\<lambda>method.
          andThen (of_result (body_bytes (get_default req (u ''body'') (JStr [])))) (\<lambda>body.
          dispatch method (get_default req (u ''url'') (JStr []))
            (get_default req (u ''headers'') (JObj [])) body))
      | Inr _ \<Rightarrow> raise (Lib AttributeErrorC))"

end
