(* ===== verification/Canonical.thy ===== *)
theory Canonical
  imports Forwarder Handshake
begin

text \<open>
  The canonical request and response format between \<open>client/client_proxy.py\<close>
  (\<open>_encode_request\<close>, \<open>_decode_response\<close>) and \<open>server/forwarder.py\<close>, and what the forwarder
  does with well-formed requests.
\<close>

definition encode_request :: "pystr \<Rightarrow> pystr \<Rightarrow> (pystr \<times> pystr) list \<Rightarrow> bytes \<Rightarrow> bytes" where
  "encode_request method url headers body =
     dumps_bytes (JObj [(u ''method'', JStr method), (u ''url'', JStr url),
       (u ''headers'', JObj (map (\<lambda>(k, v). (k, JStr v)) headers)),
       (u ''body'', JStr (if body = [] then [] else hex body))])"

definition decode_response :: "bytes \<Rightarrow> pyexn + json \<times> json \<times> bytes" where
  "decode_response data =
     bind_res (loads_bytes data) (\<lambda>obj.
     bind_res (field obj (u ''status_code'')) (\<lambda>status_code.
     (case obj of
        JObj d \<Rightarrow>
          bind_res (body_bytes (get_default d (u ''body'') JNull)) (\<lambda>body.
            Inr (status_code, get_default d (u ''headers'') (JObj []), body))
      | _ \<Rightarrow> Inl (Lib AttributeErrorC))))"

subsection \<open>Round trips\<close>

definition text_ok :: "pystr \<Rightarrow> bool" where
  "text_ok s \<longleftrightarrow> list_all scalar s"

definition headers_ok :: "(pystr \<times> pystr) list \<Rightarrow> bool" where
  "headers_ok h \<longleftrightarrow> distinct (map fst h) \<and> (\<forall>(k, v) \<in> set h. text_ok k \<and> text_ok v)"

lemma wf_members_iff: "wf_members d \<longleftrightarrow> (\<forall>(k, v) \<in> set d. list_all scalar k \<and> wf_json v)"
  by (induction d) auto

lemma wf_header_obj: "headers_ok h \<Longrightarrow> wf_json (JObj (map (\<lambda>(k, v). (k, JStr v)) h))"
proof -
  assume h: "headers_ok h"
  have "map fst (map (\<lambda>(k, v). (k, JStr v)) h) = map fst h" by (induction h) auto
  moreover have "wf_members (map (\<lambda>(k, v). (k, JStr v)) h)"
    using h by (auto simp: headers_ok_def text_ok_def wf_members_iff)
  ultimately show ?thesis using h by (simp only: wf_json.simps headers_ok_def)
qed

lemma scalar_hex' [simp]: "list_all scalar (hex bs)"
proof -
  have "scalar c" if "c \<in> set (hex bs)" for c
    using hex_printable [OF that] by (auto simp: scalar_def is_surrogate_def is_digit_def)
  then show ?thesis by (simp add: list_all_iff)
qed

lemma scalar_u' [simp]: "list_all scalar (u s)"
proof -
  have "scalar c" if "c \<in> set (u s)" for c
    using u_less_256 [OF that] by (simp add: scalar_def is_surrogate_def)
  then show ?thesis by (simp add: list_all_iff)
qed

lemma body_bytes_hex [simp]: "body_bytes (JStr (hex b)) = Inr b"
  by (simp add: body_bytes_def truthy_def)

lemma body_bytes_Nil [simp]: "body_bytes (JStr []) = Inr []"
  by (simp add: body_bytes_def truthy_def)

lemma decode_obj:
  assumes "wf_json (JObj [(u ''status_code'', JInt n), (u ''headers'', JObj h), (u ''body'', JStr (hex b))])"
  shows "decode_response (build_response n h b) = Inr (JInt n, JObj h, b)"
  using assms
  by (simp add: decode_response_def build_response_def field_def get_default_def del: wf_json.simps)

lemma decode_headers:
  assumes "headers_ok headers"
  shows "decode_response (build_response n (map (\<lambda>(k, v). (k, JStr v)) headers) body)
    = Inr (JInt n, JObj (map (\<lambda>(k, v). (k, JStr v)) headers), body)"
  by (rule decode_obj) (use wf_header_obj [OF assms] in simp)

lemma text_ok_u [simp]: "text_ok (u s)"
  by (simp add: text_ok_def)

text \<open>
  A response survives the tunnel: what the server's \<open>_build_response\<close> writes, the client's
  \<open>_decode_response\<close> reads back, status code, headers and body.
\<close>

lemma response_roundtrip:
  assumes "headers_ok headers"
  shows "decode_response (build_response n (map (\<lambda>(k, v). (k, JStr v)) headers) body)
    = Inr (JInt n, JObj (map (\<lambda>(k, v). (k, JStr v)) headers), body)"
  by (rule decode_headers [OF assms])

lemma response_roundtrip_instance:
  "decode_response (build_response 404 (map (\<lambda>(k, v). (k, JStr v)) [(u ''Server'', u ''x'')]) [1, 2])
    = Inr (JInt 404, JObj [(u ''Server'', JStr (u ''x''))], [1, 2])"
  using response_roundtrip [of "[(u ''Server'', u ''x'')]" 404 "[1, 2]"]
  by (simp add: headers_ok_def)

lemma loads_encode:
  assumes "text_ok method" and "text_ok url" and "headers_ok headers"
  shows "loads_bytes (encode_request method url headers body) = Inr (JObj
    [(u ''method'', JStr method), (u ''url'', JStr url), (u ''headers'', JObj (map (\<lambda>(k, v). (k, JStr v)) headers)),
     (u ''body'', JStr (if body = [] then [] else hex body))])"
  unfolding encode_request_def
  by (rule loads_dumps_bytes) (use assms wf_header_obj [OF assms(3)] in \<open>simp add: text_ok_def\<close>)

lemma forward_encode:
  assumes "text_ok method" and "text_ok url" and "headers_ok headers"
  shows "forward_request (encode_request method url headers body)
    = dispatch (upper method) (JStr url) (JObj (map (\<lambda>(k, v). (k, JStr v)) headers)) body"
  using loads_encode [OF assms, of body]
  by (intro ext) (simp add: forward_request_def get_default_def upper_json_def andThen_def of_result_def)

text \<open>
  C24. A request survives the tunnel: \<open>forward_request\<close> on what the client's \<open>_encode_request\<close>
  wrote dispatches on the upper-case method with exactly the URL, headers and body the client
  was given.
\<close>

theorem request_roundtrip:
  assumes "text_ok method" and "text_ok url" and "headers_ok headers"
  shows "forward_request (encode_request method url headers body)
    = dispatch (upper method) (JStr url) (JObj (map (\<lambda>(k, v). (k, JStr v)) headers)) body"
  by (rule forward_encode [OF assms])

theorem request_roundtrip_witness:
  "forward_request (encode_request (u ''relay'') (u ''h:1'') [] [7])
    = dispatch (u ''RELAY'') (JStr (u ''h:1'')) (JObj []) [7]"
proof -
  have "upper (u ''relay'') = u ''RELAY''" by (simp add: upper_def u_Cons)
  then show ?thesis
    using request_roundtrip [of "u ''relay''" "u ''h:1''" "[]" "[7]"] by (simp add: headers_ok_def)
qed

subsection \<open>Every reply of the forwarder decodes\<close>

definition http_replies_ok :: "forwarder \<Rightarrow> bool" where
  "http_replies_ok F \<longleftrightarrow> (\<forall>n call r. fw_http F n call = Inr r \<longrightarrow> headers_ok (reply_headers r))"

definition decodes :: "bytes \<Rightarrow> bool" where
  "decodes r \<longleftrightarrow> (\<exists>n h b. decode_response r = Inr (JInt n, JObj h, b))"

lemma decodes_build: "headers_ok h \<Longrightarrow> decodes (build_response n (map (\<lambda>(k, v). (k, JStr v)) h) b)"
  using decode_headers by (simp add: decodes_def)

lemma decodes_plain: "decodes (build_response n [] b)"
  using decodes_build [of "[]"] by (simp add: headers_ok_def)

lemma decodes_error: "error_response n m = Inr r \<Longrightarrow> decodes r"
proof -
  assume "error_response n m = Inr r"
  then obtain b where "r = build_response n [(u ''Content-Type'', JStr (u ''text/html''))] b"
    by (auto simp: error_response_def bind_res_eq_Inr_iff)
  then show ?thesis using decodes_build [of "[(u ''Content-Type'', u ''text/html'')]" n b]
    by (simp add: headers_ok_def)
qed

lemma decodes_relay: "decodes (relay_reply d s)"
proof -
  have "wf_json (JObj [(u ''status_code'', JInt 200), (u ''headers'', JObj []),
       (u ''body'', JStr (hex d)), (u ''closed'', JBool s)])" by simp
  then have "loads_bytes (relay_reply d s) = Inr (JObj [(u ''status_code'', JInt 200), (u ''headers'', JObj []),
       (u ''body'', JStr (hex d)), (u ''closed'', JBool s)])"
    unfolding relay_reply_def by (rule loads_dumps_bytes)
  then show ?thesis by (simp add: decodes_def decode_response_def field_def get_default_def)
qed

lemma exn_text_Inr: "\<exists>t. exn_text e F = (Inr t, F)"
  by (simp add: exn_text_def)

lemma error_io_Inr:
  assumes "andThen (exn_text e) (\<lambda>t. of_result (error_response n (m t))) F = (Inr r, F')"
  shows "decodes r"
  using assms exn_text_Inr [of e F]
  by (auto simp: andThen_eq_Inr_iff of_result_def dest: decodes_error)

lemma try_except_eq_Inr_iff:
  "try_except m h s = (Inr y, t) \<longleftrightarrow> m s = (Inr y, t) \<or> (\<exists>e s'. m s = (Inl e, s') \<and> h e s' = (Inr y, t))"
  by (auto simp: try_except_def split: prod.splits sum.splits)

lemma handle_connect_decodes: "fw_handle_connect v F = (Inr r, F') \<Longrightarrow> decodes r"
  unfolding fw_handle_connect_def try_except_eq_Inr_iff
  by (auto simp: andThen_eq_Inr_iff of_result_def ret_def decodes_plain case_prod_beta
      dest: decodes_error)

lemma handle_relay_decodes: "fw_handle_relay v d F = (Inr r, F') \<Longrightarrow> decodes r"
  unfolding fw_handle_relay_def
  by (auto simp: andThen_eq_Inr_iff try_except_eq_Inr_iff of_result_def ret_def decodes_relay
      case_prod_beta dest: decodes_error split: option.splits)

lemma handle_http_decodes:
  assumes "http_replies_ok F" and "fw_handle_http m v h b F = (Inr r, F')"
  shows "decodes r"
proof -
  obtain url h' where run: "try_except
      (andThen (http_request (m, with_scheme url, h', if b = [] then None else Some b)) (\<lambda>resp.
       andThen (of_result (read_content resp)) (\<lambda>content.
       ret (build_response (status resp) (map (\<lambda>(k, v). (k, JStr v)) (reply_headers resp)) content))))
      (http_failure (with_scheme url)) F = (Inr r, F')"
    using assms(2) by (auto simp: fw_handle_http_def andThen_eq_Inr_iff of_result_def raise_def Let_def
        split: json.splits)
  show ?thesis
    using run [unfolded try_except_eq_Inr_iff]
  proof
    assume "andThen (http_request (m, with_scheme url, h', if b = [] then None else Some b)) (\<lambda>resp.
       andThen (of_result (read_content resp)) (\<lambda>content.
       ret (build_response (status resp) (map (\<lambda>(k, v). (k, JStr v)) (reply_headers resp)) content)))
       F = (Inr r, F')"
    then obtain resp c where "fw_http F (length (fw_calls F))
        (m, with_scheme url, h', if b = [] then None else Some b) = Inr resp"
      and r: "r = build_response (status resp) (map (\<lambda>(k, v). (k, JStr v)) (reply_headers resp)) c"
      by (auto simp: andThen_eq_Inr_iff http_request_def of_result_def ret_def)
    then have "headers_ok (reply_headers resp)" using assms(1) by (simp add: http_replies_ok_def)
    then show ?thesis unfolding r by (rule decodes_build)
  next
    assume "\<exists>e s'. andThen (http_request (m, with_scheme url, h', if b = [] then None else Some b)) (\<lambda>resp.
       andThen (of_result (read_content resp)) (\<lambda>content.
       ret (build_response (status resp) (map (\<lambda>(k, v). (k, JStr v)) (reply_headers resp)) content)))
       F = (Inl e, s') \<and> http_failure (with_scheme url) e s' = (Inr r, F')"
    then show ?thesis
      by (auto simp: http_failure_def andThen_eq_Inr_iff of_result_def dest: decodes_error split: if_splits)
  qed
qed

text \<open>
  C25. Whatever bytes a client sends, a reply that \<open>forward_request\<close> returns is one the client's
  \<open>_decode_response\<close> accepts, with an integer status, a dictionary of headers and a byte body,
  provided the header texts the \<open>requests\<close> package reports are text that UTF-8 can carry.
\<close>

theorem forward_reply_decodes:
  assumes "http_replies_ok F" and "forward_request data F = (Inr reply, F')"
  shows "\<exists>n h b. decode_response reply = Inr (JInt n, JObj h, b)"
proof -
  have "decodes reply"
  proof (cases "loads_bytes data")
    case (Inl e)
    then show ?thesis using assms(2) by (auto simp: forward_request_def dest: error_io_Inr)
  next
    case (Inr v)
    then obtain req m b where "dispatch m (get_default req (u ''url'') (JStr []))
            (get_default req (u ''headers'') (JObj [])) b F = (Inr reply, F')"
      using assms(2) by (cases v) (auto simp: forward_request_def andThen_eq_Inr_iff of_result_def raise_def)
    then show ?thesis using assms(1)
      by (auto simp: dispatch_def split: if_splits
          dest: handle_connect_decodes handle_relay_decodes handle_http_decodes)
  qed
  then show ?thesis by (simp add: decodes_def)
qed

text \<open>A concrete outside world: one target that says hello, and an HTTP origin.\<close>

definition demo_fw :: forwarder where
  "demo_fw = \<lparr>fw_sessions = Map.empty, fw_socks = Map.empty, fw_dialled = 0,
     fw_dial = (\<lambda>_ _ _. Inr ([Seg [104, 105], Stall], [])), fw_calls = [],
     fw_http = (\<lambda>_ _. Inr \<lparr>status = 200, reply_headers = [(u ''Server'', u ''x'')],
        chunks = [[1, 2], [3]], stream_error = None\<rparr>), lib_text = (\<lambda>_. u ''error'')\<rparr>"

theorem forward_reply_decodes_witness:
  "\<exists>reply F' n h b. forward_request (encode_request (u ''GET'') (u ''example.org'') [] []) demo_fw
      = (Inr reply, F') \<and> decode_response reply = Inr (JInt n, JObj h, b)"
proof -
  have up: "upper (u ''GET'') = u ''GET''" by (simp add: upper_def u_Cons)
  have "forward_request (encode_request (u ''GET'') (u ''example.org'') [] [])
      = dispatch (u ''GET'') (JStr (u ''example.org'')) (JObj []) []"
    using forward_encode [of "u ''GET''" "u ''example.org''" "[]" "[]"] up by (simp add: headers_ok_def)
  then obtain reply F' where r: "forward_request (encode_request (u ''GET'') (u ''example.org'') [] []) demo_fw
      = (Inr reply, F')"
    by (simp add: dispatch_def fw_handle_http_def forward_headers_def andThen_def of_result_def
        try_except_def http_request_def read_content_def demo_fw_def ret_def Let_def)
  moreover have "http_replies_ok demo_fw"
    by (simp add: http_replies_ok_def demo_fw_def headers_ok_def)
  ultimately show ?thesis using forward_reply_decodes by blast
qed

end
