(* ===== verification/Client_Proxy.thy ===== *)
theory Client_Proxy
  imports Tunnel_Props Canonical
begin

text \<open>
  \<open>client/client_proxy.py\<close>: the local proxy.  One browser connection is read, parsed and served
  through the shared tunnel.  The state is the browser's socket and the tunnel; \<open>container_str\<close> is
  \<open>str()\<close> of lists and dictionaries, which the status line would show if a server sent such a status.
\<close>

record browser =
  b_inq :: "net_event list"
  b_sent :: bytes
  b_faults :: "(pyexn \<times> nat) option list"
  b_blocking :: bool
  b_open :: bool
  tun :: tunnel
  container_str :: "json \<Rightarrow> pystr"

definition BUFFER_SIZE :: nat where "BUFFER_SIZE = 65536"

subsection \<open>The browser's socket\<close>

text \<open>
  The socket has no timeout: a blocking \<open>recv\<close> waits through every silence, a non-blocking one
  reports it.
\<close>

fun blocking_recv :: "nat \<Rightarrow> net_event list \<Rightarrow> (pyexn + bytes) \<times> net_event list" where
  "blocking_recv n (Stall # q) = blocking_recv n q"
| "blocking_recv n (Seg [] # q) = blocking_recv n q"
| "blocking_recv n q = recv_event n q"

definition browser_recv :: "(browser, bytes) io" where
  "browser_recv B =
     (let (r, q) = (if b_blocking B then blocking_recv BUFFER_SIZE (b_inq B) else recv_event BUFFER_SIZE (b_inq B))
      in (case r of Inl (Lib TimeoutErrorC) \<Rightarrow> Inl (Lib BlockingIOErrorC) | _ \<Rightarrow> r, B\<lparr>b_inq := q\<rparr>))"

definition browser_sendall :: "bytes \<Rightarrow> (browser, unit) io" where
  "browser_sendall bs B =
     (case b_faults B of
        Some (e, k) # fs \<Rightarrow> (Inl e, B\<lparr>b_sent := b_sent B @ take k bs, b_faults := fs\<rparr>)
      | None # fs \<Rightarrow> (Inr (), B\<lparr>b_sent := b_sent B @ bs, b_faults := fs\<rparr>)
      | [] \<Rightarrow> (Inr (), B\<lparr>b_sent := b_sent B @ bs\<rparr>))"

definition on_tun :: "(tunnel, 'a) io \<Rightarrow> (browser, 'a) io" where
  "on_tun m B = (let (r, T) = m (tun B) in (r, B\<lparr>tun := T\<rparr>))"

definition set_nonblocking :: "(browser, unit) io" where
  "set_nonblocking B = (Inr (), B\<lparr>b_blocking := False\<rparr>)"

definition json_get :: "json \<Rightarrow> pystr \<Rightarrow> json \<Rightarrow> pyexn + json" where
  "json_get v key absent =
     (case v of JObj d \<Rightarrow> Inr (get_default d key absent) | _ \<Rightarrow> Inl (Lib AttributeErrorC))"

subsection \<open>CONNECT\<close>

definition ESTABLISHED :: bytes where
  "ESTABLISHED = ascii_bytes (u ''HTTP/1.1 200 Connection Established'' @ [13, 10, 13, 10])"

definition target_url :: "pystr \<Rightarrow> int \<Rightarrow> pystr" where
  "target_url host port = host @ u '':'' @ str_int port"

definition connect_request :: "pystr \<Rightarrow> bytes" where
  "connect_request url =
     dumps_bytes (JObj [(u ''method'', JStr (u ''CONNECT'')), (u ''url'', JStr url), (u ''headers'', JObj []),
       (u ''body'', JStr [])])"

definition relay_request :: "pystr \<Rightarrow> bytes \<Rightarrow> bytes" where
  "relay_request url data =
     dumps_bytes (JObj [(u ''method'', JStr (u ''RELAY'')), (u ''url'', JStr url), (u ''headers'', JObj []),
       (u ''body'', JStr (hex data))])"

text \<open>\<open>v == 200\<close> for a JSON value.\<close>

definition is_200 :: "json \<Rightarrow> bool" where
  "is_200 v = (case v of JInt i \<Rightarrow> i = 200 | JFloat (Fin m k) \<Rightarrow> m = 200 * 10 ^ k | _ \<Rightarrow> False)"

text \<open>One chunk of the browser through the tunnel; the result is whether the target closed.\<close>

definition relay_once ::
    "('sk, 'pk) crypto_lib \<Rightarrow> 'sk \<Rightarrow> 'pk \<Rightarrow> pystr \<Rightarrow> bytes \<Rightarrow> (browser, bool) io" where
  "relay_once L csk spk url data =
     andThen (on_tun (send_request L csk spk (relay_request url data))) (\<lambda>relay_resp.
     andThen (of_result (loads_bytes relay_resp)) (\<lambda>rr.
     andThen (of_result (json_get rr (u ''body'') JNull)) (\<lambda>body.
     andThen (if truthy body then andThen (of_result (body_bytes body)) browser_sendall else ret ()) (\<lambda>_.
     andThen (of_result (json_get rr (u ''closed'') JNull)) (\<lambda>flag.
     ret (truthy flag))))))"

lemma relay_once_inq: "b_inq (snd (relay_once L csk spk url data B)) = b_inq B"
  by (auto simp: relay_once_def andThen_def on_tun_def of_result_def ret_def browser_sendall_def Let_def
      split: sum.split prod.split list.split option.split)

text \<open>What is left to read, in events and bytes: each round of the loop reads some.\<close>

definition unread :: "net_event list \<Rightarrow> nat" where
  "unread q = stream_size q + length q"

lemma recv_event_unread:
  "recv_event n q = (r, q') \<Longrightarrow> 0 < n \<Longrightarrow> r \<noteq> Inr [] \<Longrightarrow> r \<noteq> Inl (Lib ConnectionResetErrorC) \<Longrightarrow> unread q' < unread q"
  by (induction n q rule: recv_event.induct) (auto simp: unread_def split: if_splits)

lemma blocking_recv_unread:
  "blocking_recv n q = (r, q') \<Longrightarrow> 0 < n \<Longrightarrow> r \<noteq> Inr [] \<Longrightarrow> r \<noteq> Inl (Lib ConnectionResetErrorC) \<Longrightarrow> unread q' < unread q"
  by (induction n q rule: blocking_recv.induct) (auto simp: unread_def split: if_splits)

lemma browser_recv_progress:
  assumes "browser_recv B = (r, B')" and "r \<noteq> Inr []" and "\<And>e. r = Inl e \<Longrightarrow> catches BlockingIOErrorC e"
  shows "unread (b_inq B') < unread (b_inq B)"
proof -
  let ?recv = "if b_blocking B then blocking_recv else recv_event"
  obtain r0 q where q: "?recv BUFFER_SIZE (b_inq B) = (r0, q)" by force
  have B': "B' = B\<lparr>b_inq := q\<rparr>" and r: "r = (case r0 of Inl (Lib TimeoutErrorC) \<Rightarrow> Inl (Lib BlockingIOErrorC) | _ \<Rightarrow> r0)"
    using assms(1) q by (auto simp: browser_recv_def split: if_splits)
  have "r0 \<noteq> Inr []" "r0 \<noteq> Inl (Lib ConnectionResetErrorC)"
    using assms(2,3) r by (auto simp: is_subclass.simps)
  then show ?thesis
    using q recv_event_unread [of BUFFER_SIZE "b_inq B" r0 q] blocking_recv_unread [of BUFFER_SIZE "b_inq B" r0 q]
    by (simp add: B' BUFFER_SIZE_def split: if_splits)
qed

text \<open>
  The relay loop.  A \<open>BlockingIOError\<close>, from the read or from the send to the browser, starts the
  next round; any other exception and the browser's or the target's close end it.
\<close>

function relay_browser ::
    "('sk, 'pk) crypto_lib \<Rightarrow> 'sk \<Rightarrow> 'pk \<Rightarrow> pystr \<Rightarrow> browser \<Rightarrow> browser" where
  "relay_browser L csk spk url B =
     (case browser_recv B of
        (Inl e, B1) \<Rightarrow> if catches BlockingIOErrorC e then relay_browser L csk spk url B1 else B1
      | (Inr data, B1) \<Rightarrow>
          if data = [] then B1
          else case relay_once L csk spk url data B1 of
              (Inl e, B2) \<Rightarrow> if catches BlockingIOErrorC e then relay_browser L csk spk url B2 else B2
            | (Inr shut, B2) \<Rightarrow> if shut then B2 else relay_browser L csk spk url B2)"
  by pat_completeness auto

lemma relay_once_unread: "relay_once L csk spk url data B = (r, B') \<Longrightarrow> b_inq B' = b_inq B"
  using relay_once_inq [of L csk spk url data B] by simp

termination relay_browser
proof (relation "measure (\<lambda>(L, csk, spk, url, B). unread (b_inq B))", goal_cases)
  case (2 L csk spk url B r B1 e)
  then show ?case using browser_recv_progress [of B r B1] by simp
next
  case (3 L csk spk url B r B1 data r2 B2 e)
  then show ?case using browser_recv_progress [of B r B1] relay_once_unread [of L csk spk url data B1 r2 B2]
    by simp
next
  case (4 L csk spk url B r B1 data r2 B2 shut)
  then show ?case using browser_recv_progress [of B r B1] relay_once_unread [of L csk spk url data B1 r2 B2]
    by simp
qed simp

declare relay_browser.simps [simp del]

text \<open>
  \<open>_handle_connect\<close>: the browser is told that the connection stands before the server is asked.
\<close>

definition px_handle_connect ::
    "('sk, 'pk) crypto_lib \<Rightarrow> 'sk \<Rightarrow> 'pk \<Rightarrow> pystr \<Rightarrow> int \<Rightarrow> (browser, unit) io" where
  "px_handle_connect L csk spk host port =
     andThen (browser_sendall ESTABLISHED) (\<lambda>_.
     try_except
       (andThen (on_tun (send_request L csk spk (connect_request (target_url host port)))) (\<lambda>resp_bytes.
        andThen (of_result (loads_bytes resp_bytes)) (\<lambda>resp.
        andThen (of_result (json_get resp (u ''status_code'') (JInt 0))) (\<lambda>status.
        if \<not> is_200 status then ret ()
        else andThen set_nonblocking (\<lambda>_ B. (Inr (), relay_browser L csk spk (target_url host port) B))))))
       (\<lambda>_. ret ()))"

subsection \<open>Plain HTTP\<close>

definition CRLF :: pystr where "CRLF = [13, 10]"

definition header_of :: "pystr \<Rightarrow> (pystr \<times> pystr) option" where
  "header_of line =
     (case split_once (u '':'') line of [k, v] \<Rightarrow> Some (strip k, strip v) | _ \<Rightarrow> None)"

definition parse_headers :: "pystr \<Rightarrow> (pystr \<times> pystr) list" where
  "parse_headers headers_str =
     foldl (\<lambda>d line. case header_of line of Some (k, v) \<Rightarrow> dict_set k v d | None \<Rightarrow> d) []
       (split_str CRLF headers_str)"

definition bad_gateway :: "pystr \<Rightarrow> pyexn + bytes" where
  "bad_gateway text =
     bind_res (utf8_encode text) (\<lambda>t. Inr (
       ascii_bytes (u ''HTTP/1.1 502 Bad Gateway'' @ CRLF @ u ''Content-Type: text/html'' @ CRLF @ CRLF
         @ u ''<html><body><h1>502 Bad Gateway</h1>'' @ u ''<p>VPN tunnel error: '') @ t
       @ ascii_bytes (u ''</p>'' @ u ''</body></html>'')))"

definition str_json :: "browser \<Rightarrow> json \<Rightarrow> pystr" where
  "str_json B v = (case v of JList _ \<Rightarrow> container_str B v | JObj _ \<Rightarrow> container_str B v | _ \<Rightarrow> str_scalar v)"

definition hop_by_hop :: "pystr \<Rightarrow> bool" where
  "hop_by_hop k \<longleftrightarrow> lower k \<in> {u ''transfer-encoding'', u ''connection'', u ''keep-alive''}"

text \<open>The lines for the headers of the response that are passed on.\<close>

definition header_lines :: "(json \<Rightarrow> pystr) \<Rightarrow> dict \<Rightarrow> pystr" where
  "header_lines text d =
     concat (map (\<lambda>(k, v). k @ u '': '' @ text v @ CRLF) (filter (\<lambda>(k, v). \<not> hop_by_hop k) d))"

definition raw_response :: "(json \<Rightarrow> pystr) \<Rightarrow> json \<Rightarrow> dict \<Rightarrow> bytes \<Rightarrow> pyexn + bytes" where
  "raw_response text status_code resp_headers resp_body =
     bind_res (utf8_encode (u ''HTTP/1.1 '' @ text status_code @ u '' OK'' @ CRLF
         @ header_lines text resp_headers
         @ u ''Content-Length: '' @ str_nat (length resp_body) @ CRLF
         @ u ''Connection: close'' @ CRLF @ CRLF))
       (\<lambda>head. Inr (head @ resp_body))"

text \<open>\<open>str(e)\<close> of an exception.\<close>

definition exn_str :: "browser \<Rightarrow> pyexn \<Rightarrow> pystr" where
  "exn_str B e = error_text (tun B) (Some e)"

definition px_handle_http ::
    "('sk, 'pk) crypto_lib \<Rightarrow> 'sk \<Rightarrow> 'pk \<Rightarrow> pystr \<Rightarrow> pystr \<Rightarrow> pystr \<Rightarrow> bytes \<Rightarrow> (browser, unit) io" where
  "px_handle_http L csk spk method url headers_str body B =
     (case andThen (on_tun (send_request L csk spk (encode_request method url (parse_headers headers_str) body)))
             (\<lambda>response_bytes. of_result (decode_response response_bytes)) B of
        (Inl e, B1) \<Rightarrow>
          andThen (of_result (bad_gateway (exn_str B1 e))) (\<lambda>page.
          try_except (browser_sendall page) (\<lambda>_. ret ())) B1
      | (Inr (status_code, resp_headers, resp_body), B1) \<Rightarrow>
          (case resp_headers of
             JObj d \<Rightarrow>
               andThen (of_result (raw_response (str_json B1) status_code d resp_body)) (\<lambda>raw.
               try_except (browser_sendall raw)
                 (\<lambda>e. if catches OSErrorC e then ret () else raise e)) B1
           | _ \<Rightarrow> (Inl (Lib AttributeErrorC), B1)))"

subsection \<open>One browser connection\<close>

datatype parsed = Malformed | Connect_to "pystr \<times> int" | Http_to pystr pystr pystr bytes

text \<open>What the first chunk of the browser asks for.\<close>

definition browser_request :: "bytes \<Rightarrow> pyexn + parsed" where
  "browser_request raw =
     (let request_text = utf8_decode_replace raw;
          parts = split_on 32 (hd (split_str CRLF request_text))
      in if length parts < 3 then Inr Malformed
         else
           let verb = upper (parts ! 0); target = parts ! 1
           in if verb = u ''CONNECT'' then
                (if 58 \<in> set target then
                   (let (host, port_str) = rsplit_once 58 target in
                    case py_int port_str of None \<Rightarrow> Inl (Lib ValueErrorC) | Some port \<Rightarrow> Inr (Connect_to (host, port)))
                 else Inr (Connect_to (target, 443)))
              else
                let header_body = split_once (CRLF @ CRLF) request_text;
                    lines = join_with CRLF (tl (split_str CRLF (hd header_body)))
                in bind_res (if 1 < length header_body then utf8_encode (header_body ! 1) else Inr [])
                     (\<lambda>body. Inr (Http_to verb target lines body)))"

definition serve_browser ::
    "('sk, 'pk) crypto_lib \<Rightarrow> 'sk \<Rightarrow> 'pk \<Rightarrow> (browser, unit) io" where
  "serve_browser L csk spk =
     andThen browser_recv (\<lambda>raw.
     if raw = [] then ret ()
     else andThen (of_result (browser_request raw)) (\<lambda>req.
       case req of
         Malformed \<Rightarrow> ret ()
       | Connect_to (host, port) \<Rightarrow> px_handle_connect L csk spk host port
       | Http_to verb target lines body \<Rightarrow> px_handle_http L csk spk verb target lines body))"

definition handle_browser ::
    "('sk, 'pk) crypto_lib \<Rightarrow> 'sk \<Rightarrow> 'pk \<Rightarrow> browser \<Rightarrow> browser" where
  "handle_browser L csk spk B = (snd (serve_browser L csk spk B))\<lparr>b_open := False\<rparr>"

end
