(* ===== verification/Admission.thy ===== *)
theory Admission
  imports Main "HOL-Library.Multiset"
begin

text \<open>
  The contract between the server and whatever admits its connections: \<open>add\<close> admits a
  connection of an address or refuses it, \<open>remove\<close> gives it back.  The client side, a
  program whose threads open and close sessions in any interleaving, is analysed once,
  from the laws alone.
\<close>

locale admission =
  fixes add :: "'t \<Rightarrow> 's \<Rightarrow> 'ip \<Rightarrow> bool \<times> 's"
    and remove :: "'s \<Rightarrow> 'ip \<Rightarrow> 's"
    and held :: "'s \<Rightarrow> 'ip \<Rightarrow> int"
    and total :: "'s \<Rightarrow> int"
    and ok :: "'s \<Rightarrow> bool"
    and cap_ip :: "'s \<Rightarrow> int"
    and cap_total :: "'s \<Rightarrow> int"
  assumes add_iff: "fst (add t s ip) \<longleftrightarrow> total s < cap_total s \<and> held s ip < cap_ip s"
    and add_refused: "\<not> fst (add t s ip) \<Longrightarrow> snd (add t s ip) = s"
    and add_held: "fst (add t s ip) \<Longrightarrow>
      held (snd (add t s ip)) i = held s i + (if i = ip then 1 else 0)"
    and add_total: "fst (add t s ip) \<Longrightarrow> total (snd (add t s ip)) = total s + 1"
    and add_ok: "ok s \<Longrightarrow> ok (snd (add t s ip))"
    and remove_held: "ok s \<Longrightarrow> 0 < held s ip \<Longrightarrow>
      held (remove s ip) i = held s i - (if i = ip then 1 else 0)"
    and remove_total: "ok s \<Longrightarrow> 0 < held s ip \<Longrightarrow> total (remove s ip) = total s - 1"
    and remove_ok: "ok s \<Longrightarrow> ok (remove s ip)"
    and add_caps: "cap_ip (snd (add t s ip)) = cap_ip s" "cap_total (snd (add t s ip)) = cap_total s"
    and remove_caps: "cap_ip (remove s ip) = cap_ip s" "cap_total (remove s ip) = cap_total s"
begin

text \<open>Other uses of the limiter's state keep the books as they are.\<close>

definition same_books :: "'s \<Rightarrow> 's \<Rightarrow> bool" where
  "same_books s s' \<longleftrightarrow> (ok s \<longrightarrow> ok s') \<and> (\<forall>ip. held s' ip = held s ip) \<and> total s' = total s \<and>
     cap_ip s' = cap_ip s \<and> cap_total s' = cap_total s"

lemma same_books_refl: "same_books s s"
  by (simp add: same_books_def)

lemma same_books_trans: "same_books s t \<Longrightarrow> same_books t v \<Longrightarrow> same_books s v"
  by (simp add: same_books_def)

text \<open>
  The states that sessions lead to: the state of the limiter with the multiset of the
  addresses of the sessions now open.  Only an open session is closed.
\<close>

inductive sessions :: "'s \<Rightarrow> 's \<Rightarrow> 'ip multiset \<Rightarrow> bool" for s0 where
  start: "sessions s0 s0 {#}"
| opened: "sessions s0 s M \<Longrightarrow> add t s ip = (True, s') \<Longrightarrow> sessions s0 s' (add_mset ip M)"
| refused: "sessions s0 s M \<Longrightarrow> add t s ip = (False, s') \<Longrightarrow> sessions s0 s' M"
| closed: "sessions s0 s (add_mset ip M) \<Longrightarrow> sessions s0 (remove s ip) M"
| unrelated: "sessions s0 s M \<Longrightarrow> same_books s s' \<Longrightarrow> sessions s0 s' M"

definition unused :: "'s \<Rightarrow> bool" where
  "unused s \<longleftrightarrow> ok s \<and> total s = 0 \<and> (\<forall>ip. held s ip = 0)"

text \<open>The books are right: counts and total are those of the open sessions.\<close>

lemma sessions_books:
  assumes "sessions s0 s M" and "unused s0"
  shows "ok s" and "held s ip = int (count M ip)" and "total s = int (size M)"
    and "cap_ip s = cap_ip s0" and "cap_total s = cap_total s0"
proof -
  have "ok s \<and> (\<forall>ip. held s ip = int (count M ip)) \<and> total s = int (size M) \<and>
    cap_ip s = cap_ip s0 \<and> cap_total s = cap_total s0"
    using assms
  proof induction
    case start
    then show ?case by (simp add: unused_def)
  next
    case (opened s M t ip s')
    then show ?case
      using add_ok [of s t ip] add_held [of t s ip] add_total [of t s ip] add_caps [of t s ip]
      by auto
  next
    case (refused s M t ip s')
    then show ?case using add_refused [of t s ip] by simp
  next
    case (closed s ip M)
    then have "0 < held s ip" by simp
    then show ?case using closed remove_ok [of s ip] remove_held [of s ip] remove_total [of s ip]
        remove_caps [of s ip] by auto
  next
    case (unrelated s M s')
    then show ?case by (simp add: same_books_def)
  qed
  then show "ok s" "held s ip = int (count M ip)" "total s = int (size M)"
    "cap_ip s = cap_ip s0" "cap_total s = cap_total s0" by blast+
qed

text \<open>The caps hold at every moment.\<close>

lemma sessions_capped:
  assumes "sessions s0 s M" and "unused s0"
  shows "int (count M ip) \<le> max 0 (cap_ip s0)" and "int (size M) \<le> max 0 (cap_total s0)"
proof -
  have "(\<forall>ip. int (count M ip) \<le> max 0 (cap_ip s0)) \<and> int (size M) \<le> max 0 (cap_total s0)"
    using assms
  proof induction
    case start
    then show ?case by simp
  next
    case (opened s M t ip s')
    then have "total s < cap_total s \<and> held s ip < cap_ip s" using add_iff [of t s ip] by simp
    then show ?case using opened sessions_books [OF opened(1,4)] by auto
  next
    case (closed s ip M)
    then have "int (count M i) \<le> int (count (add_mset ip M) i)" for i by simp
    with closed show ?case by (metis add_mset_remove_trivial diff_le_self dual_order.trans
          of_nat_mono size_Diff1_le)
  qed simp
  then show "int (count M ip) \<le> max 0 (cap_ip s0)" "int (size M) \<le> max 0 (cap_total s0)" by blast+
qed

text \<open>Nothing leaks: when every session is closed, the limiter is as unused as at the start.\<close>

lemma sessions_drained:
  assumes "sessions s0 s {#}" and "unused s0"
  shows "unused s"
  using sessions_books [OF assms] by (simp add: unused_def)

text \<open>A newcomer is admitted exactly when both caps have room.\<close>

lemma sessions_admit:
  assumes "sessions s0 s M" and "unused s0"
  shows "fst (add t s ip) \<longleftrightarrow>
    int (size M) < cap_total s0 \<and> int (count M ip) < cap_ip s0"
  using sessions_books [OF assms] add_iff by simp

end

end
