(* ===== verification/Rate_Limit.thy ===== *)
theory Rate_Limit
  imports Complex_Main Prelude Admission
begin

text \<open>
  \<open>server/rate_limit.py\<close>: the token bucket and the rate limiter.  Each method runs under a
  lock, so it is one atomic operation on the limiter's state; the readings of
  \<open>time.monotonic()\<close> it makes are arguments.  Times, rates and token counts are rationals
  where Python uses floats, so rounding is not modelled.
\<close>

subsection \<open>Token bucket\<close>

record token_bucket =
  tb_rate :: rat
  tb_capacity :: int
  tb_tokens :: rat
  tb_last :: rat

definition new_bucket :: "rat \<Rightarrow> int \<Rightarrow> rat \<Rightarrow> token_bucket" where
  "new_bucket rate capacity now =
     \<lparr>tb_rate = rate, tb_capacity = capacity, tb_tokens = of_int capacity, tb_last = now\<rparr>"

definition consume :: "int \<Rightarrow> rat \<Rightarrow> token_bucket \<Rightarrow> bool \<times> token_bucket" where
  "consume tokens now b =
     (let elapsed = now - tb_last b;
          available = min (of_int (tb_capacity b)) (tb_tokens b + elapsed * tb_rate b)
      in if of_int tokens \<le> available
         then (True, b\<lparr>tb_tokens := available - of_int tokens, tb_last := now\<rparr>)
         else (False, b\<lparr>tb_tokens := available, tb_last := now\<rparr>))"

subsection \<open>Rate limiter\<close>

record rate_limiter =
  rps :: rat
  burst :: int
  max_per_ip :: int
  max_total :: int
  idle_timeout :: rat
  buckets :: "pystr \<Rightarrow> token_bucket option"
  connections :: "pystr \<Rightarrow> int option"
  total_conns :: int
  last_activity :: "pystr \<Rightarrow> rat option"

definition new_limiter :: "rat \<Rightarrow> int \<Rightarrow> int \<Rightarrow> int \<Rightarrow> rat \<Rightarrow> rate_limiter" where
  "new_limiter requests_per_second burst_size max_connections_per_ip max_total_connections idle =
     \<lparr>rps = requests_per_second, burst = burst_size, max_per_ip = max_connections_per_ip,
      max_total = max_total_connections, idle_timeout = idle, buckets = Map.empty,
      connections = Map.empty, total_conns = 0, last_activity = Map.empty\<rparr>"

text \<open>\<open>t_new\<close> is the clock when a missing bucket is made, \<open>t_use\<close> when it is consumed from.\<close>

definition check_rate :: "rat \<Rightarrow> rat \<Rightarrow> rate_limiter \<Rightarrow> pystr \<Rightarrow> bool \<times> rate_limiter" where
  "check_rate t_new t_use r ip =
     (let bucket = (case buckets r ip of None \<Rightarrow> new_bucket (rps r) (burst r) t_new | Some b \<Rightarrow> b);
          (allowed, bucket') = consume 1 t_use bucket
      in (allowed, r\<lparr>buckets := (buckets r)(ip \<mapsto> bucket')\<rparr>))"

definition conns_for :: "rate_limiter \<Rightarrow> pystr \<Rightarrow> int" where
  "conns_for r ip = (case connections r ip of None \<Rightarrow> 0 | Some n \<Rightarrow> n)"

definition total_connections :: "rate_limiter \<Rightarrow> int" where
  "total_connections r = total_conns r"

definition try_add_connection :: "rat \<Rightarrow> rate_limiter \<Rightarrow> pystr \<Rightarrow> bool \<times> rate_limiter" where
  "try_add_connection now r ip =
     (if max_total r \<le> total_conns r then (False, r)
      else
        let current = conns_for r ip
        in if max_per_ip r \<le> current then (False, r)
           else (True, r\<lparr>connections := (connections r)(ip \<mapsto> current + 1),
                         total_conns := total_conns r + 1,
                         last_activity := (last_activity r)(ip \<mapsto> now)\<rparr>))"

definition remove_connection :: "rate_limiter \<Rightarrow> pystr \<Rightarrow> rate_limiter" where
  "remove_connection r ip =
     (let current = conns_for r ip;
          r1 = (if 0 < current
                then r\<lparr>connections := (connections r)(ip \<mapsto> current - 1),
                       total_conns := max 0 (total_conns r - 1)\<rparr>
                else r)
      in if connections r1 ip = Some 0 then r1\<lparr>connections := (connections r1)(ip := None)\<rparr> else r1)"

definition touch :: "rat \<Rightarrow> rate_limiter \<Rightarrow> pystr \<Rightarrow> rate_limiter" where
  "touch now r ip = r\<lparr>last_activity := (last_activity r)(ip \<mapsto> now)\<rparr>"

definition is_idle :: "rat \<Rightarrow> rate_limiter \<Rightarrow> pystr \<Rightarrow> bool" where
  "is_idle now r ip =
     (case last_activity r ip of None \<Rightarrow> True | Some seen \<Rightarrow> idle_timeout r < now - seen)"

subsection \<open>The token bucket's promise\<close>

definition bucket_ok :: "token_bucket \<Rightarrow> bool" where
  "bucket_ok b \<longleftrightarrow> 0 \<le> tb_rate b \<and> 0 \<le> tb_tokens b \<and> tb_tokens b \<le> of_int (tb_capacity b)"

lemma bucket_ok_new: "0 \<le> rate \<Longrightarrow> 0 \<le> capacity \<Longrightarrow> bucket_ok (new_bucket rate capacity now)"
  by (simp add: bucket_ok_def new_bucket_def)

lemma consume_frame:
  "tb_rate (snd (consume n now b)) = tb_rate b" "tb_capacity (snd (consume n now b)) = tb_capacity b"
  "tb_last (snd (consume n now b)) = now"
  by (simp_all add: consume_def Let_def)

lemma consume_ok:
  assumes "bucket_ok b" and "tb_last b \<le> now" and "0 \<le> n"
  shows "bucket_ok (snd (consume n now b))"
proof -
  have "0 \<le> (now - tb_last b) * tb_rate b"
    using assms by (intro mult_nonneg_nonneg) (simp_all add: bucket_ok_def)
  then show ?thesis
    using assms by (auto simp: consume_def bucket_ok_def Let_def min_def)
qed

text \<open>The tokens spent by one call: never more than what was there plus what time added.\<close>

lemma consume_tokens:
  "tb_tokens (snd (consume n now b)) + (if fst (consume n now b) then of_int n else 0)
     \<le> tb_tokens b + (now - tb_last b) * tb_rate b"
  "tb_tokens (snd (consume n now b)) + (if fst (consume n now b) then of_int n else 0)
     \<le> of_int (tb_capacity b)"
  by (simp_all add: consume_def Let_def)

text \<open>A run of calls \<open>consume()\<close>: the answers and the bucket left.\<close>

fun consume_run :: "rat list \<Rightarrow> token_bucket \<Rightarrow> bool list \<times> token_bucket" where
  "consume_run [] b = ([], b)"
| "consume_run (t # ts) b =
     (let (ok, b1) = consume 1 t b; (oks, b2) = consume_run ts b1 in (ok # oks, b2))"

definition granted :: "bool list \<Rightarrow> nat" where
  "granted oks = count_list oks True"

lemma granted_simps [simp]:
  "granted [] = 0" "granted (b # bs) = (if b then Suc (granted bs) else granted bs)"
  by (simp_all add: granted_def)

lemma consume_run_bound:
  assumes "bucket_ok b" and "sorted (tb_last b # ts)"
  shows "of_nat (granted (fst (consume_run ts b)))
    \<le> tb_tokens b + (last (tb_last b # ts) - tb_last b) * tb_rate b"
  using assms
proof (induction ts arbitrary: b)
  case Nil
  then show ?case by (simp add: bucket_ok_def)
next
  case (Cons t ts)
  obtain ok b1 where c: "consume 1 t b = (ok, b1)" by force
  have ok1: "bucket_ok b1" using consume_ok [of b t 1] Cons.prems c by simp
  have f: "tb_rate b1 = tb_rate b" "tb_last b1 = t" using consume_frame [of 1 t b] c by simp_all
  have IH: "of_nat (granted (fst (consume_run ts b1)))
      \<le> tb_tokens b1 + (last (t # ts) - t) * tb_rate b"
    using Cons.IH [OF ok1] Cons.prems f by simp
  have "tb_tokens b1 + (if ok then 1 else 0) \<le> tb_tokens b + (t - tb_last b) * tb_rate b"
    using consume_tokens(1) [of 1 t b] c by (cases ok) simp_all
  then have "of_nat (granted (ok # fst (consume_run ts b1)))
      \<le> tb_tokens b + (t - tb_last b) * tb_rate b + (last (t # ts) - t) * tb_rate b"
    using IH by (cases ok) simp_all
  also have "\<dots> = tb_tokens b + (last (t # ts) - tb_last b) * tb_rate b"
    by (simp add: algebra_simps)
  finally show ?case using c by (simp add: case_prod_beta Let_def)
qed

text \<open>Over any window of calls: the burst, plus the rate times the window's length.\<close>

lemma consume_run_window:
  assumes "bucket_ok b" and "sorted (tb_last b # t # ts)"
  shows "of_nat (granted (fst (consume_run (t # ts) b)))
    \<le> of_int (tb_capacity b) + (last (t # ts) - t) * tb_rate b"
proof -
  obtain ok b1 where c: "consume 1 t b = (ok, b1)" by force
  have ok1: "bucket_ok b1" using consume_ok [of b t 1] assms c by simp
  have f: "tb_rate b1 = tb_rate b" "tb_last b1 = t" using consume_frame [of 1 t b] c by simp_all
  have "of_nat (granted (fst (consume_run ts b1))) \<le> tb_tokens b1 + (last (t # ts) - t) * tb_rate b"
    using consume_run_bound [OF ok1, of ts] assms f by simp
  moreover have "tb_tokens b1 + (if ok then 1 else 0) \<le> of_int (tb_capacity b)"
    using consume_tokens(2) [of 1 t b] c by (cases ok) simp_all
  ultimately show ?thesis using c by (cases ok) (simp_all add: case_prod_beta Let_def)
qed

text \<open>A caller that waits long enough between calls is never refused.\<close>

lemma consume_allowed:
  assumes "bucket_ok b" and "1 \<le> tb_capacity b" and "tb_last b \<le> t"
    and "1 \<le> tb_tokens b \<or> 1 \<le> (t - tb_last b) * tb_rate b"
  shows "fst (consume 1 t b)"
proof -
  have "0 \<le> (t - tb_last b) * tb_rate b" "0 \<le> tb_tokens b"
    using assms by (auto simp: bucket_ok_def intro!: mult_nonneg_nonneg)
  then have "1 \<le> tb_tokens b + (t - tb_last b) * tb_rate b" using assms(4) by linarith
  moreover have "(1 :: rat) \<le> of_int (tb_capacity b)" using assms(2) by simp
  ultimately show ?thesis by (simp add: consume_def Let_def)
qed

lemma consume_run_spaced:
  assumes "bucket_ok b" and "1 \<le> tb_capacity b" and "tb_last b \<le> t" and "sorted (t # ts)"
    and "1 \<le> tb_tokens b \<or> 1 \<le> (t - tb_last b) * tb_rate b"
    and "successively (\<lambda>s t. 1 \<le> (t - s) * tb_rate b) (t # ts)"
  shows "False \<notin> set (fst (consume_run (t # ts) b))"
  using assms
proof (induction ts arbitrary: t b)
  case Nil
  then show ?case using consume_allowed [of b t] by (simp add: case_prod_beta Let_def)
next
  case (Cons t' ts)
  obtain ok b1 where c: "consume 1 t b = (ok, b1)" by force
  have "ok" using consume_allowed [of b t] Cons.prems c by simp
  moreover have "False \<notin> set (fst (consume_run (t' # ts) b1))"
    by (rule Cons.IH)
      (use Cons.prems c consume_ok [of b t 1] consume_frame [of 1 t b] in auto)
  ultimately show ?case using c by (simp add: case_prod_beta Let_def)
qed

subsection \<open>Rate limiting by address\<close>

text \<open>A run of calls \<open>check_rate(ip)\<close>, each with its two clock readings.\<close>

fun check_run :: "(rat \<times> rat \<times> pystr) list \<Rightarrow> rate_limiter \<Rightarrow> (pystr \<times> bool) list \<times> rate_limiter" where
  "check_run [] r = ([], r)"
| "check_run ((t_new, t_use, ip) # evs) r =
     (let (ok, r1) = check_rate t_new t_use r ip; (oks, r2) = check_run evs r1
      in ((ip, ok) # oks, r2))"

definition clock_readings :: "(rat \<times> rat \<times> pystr) list \<Rightarrow> rat list" where
  "clock_readings evs = concat (map (\<lambda>(s, t, _). [s, t]) evs)"

definition calls_of :: "pystr \<Rightarrow> (rat \<times> rat \<times> pystr) list \<Rightarrow> rat list" where
  "calls_of ip evs = map (\<lambda>(_, t, _). t) (filter (\<lambda>(_, _, i). i = ip) evs)"

definition answers_to :: "pystr \<Rightarrow> (pystr \<times> bool) list \<Rightarrow> bool list" where
  "answers_to ip oks = map snd (filter (\<lambda>(i, _). i = ip) oks)"

lemma run_views_simps [simp]:
  "clock_readings [] = []" "clock_readings ((s, t, i) # evs) = s # t # clock_readings evs"
  "clock_readings (evs @ evs') = clock_readings evs @ clock_readings evs'"
  "calls_of ip [] = []"
  "calls_of ip ((s, t, i) # evs) = (if i = ip then t # calls_of ip evs else calls_of ip evs)"
  "answers_to ip [] = []"
  "answers_to ip ((i, ok) # oks) = (if i = ip then ok # answers_to ip oks else answers_to ip oks)"
  by (simp_all add: clock_readings_def calls_of_def answers_to_def)

definition limiter_ok :: "rat \<Rightarrow> rate_limiter \<Rightarrow> bool" where
  "limiter_ok now r \<longleftrightarrow> 0 \<le> rps r \<and> 0 \<le> burst r \<and>
     (\<forall>ip b. buckets r ip = Some b \<longrightarrow>
        bucket_ok b \<and> tb_rate b = rps r \<and> tb_capacity b = burst r \<and> tb_last b \<le> now)"

lemma check_rate_frame:
  "rps (snd (check_rate s t r ip)) = rps r" "burst (snd (check_rate s t r ip)) = burst r"
  "i \<noteq> ip \<Longrightarrow> buckets (snd (check_rate s t r ip)) i = buckets r i"
  by (simp_all add: check_rate_def case_prod_beta Let_def)

lemma check_rate_ok:
  assumes "limiter_ok now r" and "now \<le> s" and "s \<le> t"
  shows "limiter_ok t (snd (check_rate s t r ip))"
proof -
  define b where "b = (case buckets r ip of None \<Rightarrow> new_bucket (rps r) (burst r) s | Some b \<Rightarrow> b)"
  have r: "0 \<le> rps r" "0 \<le> burst r" using assms(1) by (simp_all add: limiter_ok_def)
  have old: "bucket_ok c \<and> tb_rate c = rps r \<and> tb_capacity c = burst r \<and> tb_last c \<le> t"
    if "buckets r i = Some c" for i c
    using assms that by (fastforce simp: limiter_ok_def)
  have b: "bucket_ok b \<and> tb_rate b = rps r \<and> tb_capacity b = burst r \<and> tb_last b \<le> t"
  proof (cases "buckets r ip")
    case None
    then have "b = new_bucket (rps r) (burst r) s" by (simp add: b_def)
    then show ?thesis using bucket_ok_new [OF r, of s] assms(3) by (simp add: new_bucket_def)
  next
    case (Some c)
    then show ?thesis using old [OF Some] by (simp add: b_def)
  qed
  then have "bucket_ok (snd (consume 1 t b))" using consume_ok [of b t 1] by simp
  moreover have "snd (check_rate s t r ip) = r\<lparr>buckets := (buckets r)(ip \<mapsto> snd (consume 1 t b))\<rparr>"
    by (simp add: check_rate_def b_def case_prod_beta Let_def)
  ultimately show ?thesis using r old b by (simp add: limiter_ok_def consume_frame)
qed

lemma check_run_ok:
  assumes "limiter_ok now r" and "sorted (now # clock_readings evs)"
  shows "limiter_ok (last (now # clock_readings evs)) (snd (check_run evs r))"
    and "rps (snd (check_run evs r)) = rps r" and "burst (snd (check_run evs r)) = burst r"
  using assms
proof (induction evs arbitrary: now r rule: list.induct)
  case (Cons e evs)
  obtain s t ip where e: "e = (s, t, ip)" by (cases e)
  {
    case 1
    have "limiter_ok t (snd (check_rate s t r ip))" by (rule check_rate_ok) (use 1 e in auto)
    then show ?case using Cons(1) [of t "snd (check_rate s t r ip)"] 1 e
      by (simp add: case_prod_beta Let_def)
  next
    case 2
    have "limiter_ok t (snd (check_rate s t r ip))" by (rule check_rate_ok) (use 2 e in auto)
    then show ?case using Cons(2) [of t "snd (check_rate s t r ip)"] 2 e
      by (simp add: case_prod_beta Let_def check_rate_frame)
  next
    case 3
    have "limiter_ok t (snd (check_rate s t r ip))" by (rule check_rate_ok) (use 3 e in auto)
    then show ?case using Cons(3) [of t "snd (check_rate s t r ip)"] 3 e
      by (simp add: case_prod_beta Let_def check_rate_frame)
  }
qed simp_all

text \<open>What one address sees of a run is a run of its own bucket.\<close>

lemma check_run_project:
  "buckets r ip = Some b \<Longrightarrow>
     answers_to ip (fst (check_run evs r)) = fst (consume_run (calls_of ip evs) b)"
proof (induction evs arbitrary: r b)
  case (Cons e evs)
  obtain s t i where e: "e = (s, t, i)" by (cases e)
  show ?case
  proof (cases "i = ip")
    case True
    have "buckets (snd (check_rate s t r ip)) ip = Some (snd (consume 1 t b))"
      using Cons.prems by (simp add: check_rate_def case_prod_beta Let_def)
    from Cons.IH [OF this] show ?thesis using True e Cons.prems
      by (simp add: case_prod_beta Let_def) (simp add: check_rate_def case_prod_beta Let_def)
  next
    case False
    then have "buckets (snd (check_rate s t r i)) ip = Some b"
      using Cons.prems by (simp add: check_rate_frame)
    from Cons.IH [OF this] show ?thesis using False e by (simp add: case_prod_beta Let_def)
  qed
qed simp

lemma sorted_calls: "sorted (x # clock_readings evs) \<Longrightarrow> sorted (x # calls_of ip evs)"
proof (induction evs arbitrary: x)
  case (Cons e evs)
  obtain s t i where e: "e = (s, t, i)" by (cases e)
  have "sorted (t # calls_of ip evs)" using Cons.IH [of t] Cons.prems e by simp
  moreover have "x \<le> t" using Cons.prems e by simp
  ultimately show ?case using e by auto
qed simp

lemma check_run_window:
  assumes "limiter_ok now r" and "sorted (now # clock_readings evs)" and "calls_of ip evs = t # ts"
  shows "of_nat (granted (answers_to ip (fst (check_run evs r))))
    \<le> of_int (burst r) + (last (t # ts) - t) * rps r"
  using assms
proof (induction evs arbitrary: now r)
  case (Cons e evs)
  obtain s t' i where e: "e = (s, t', i)" by (cases e)
  let ?r1 = "snd (check_rate s t' r i)"
  have ok1: "limiter_ok t' ?r1" by (rule check_rate_ok) (use Cons.prems e in auto)
  have srt: "sorted (t' # clock_readings evs)" using Cons.prems e by simp
  show ?case
  proof (cases "i = ip")
    case False
    then have "calls_of ip evs = t # ts" using Cons.prems e by simp
    from Cons.IH [OF ok1 srt this] show ?thesis using False e
      by (simp add: case_prod_beta Let_def check_rate_frame)
  next
    case True
    then have t: "t' = t" "calls_of ip evs = ts" using Cons.prems e by simp_all
    define b where "b = (case buckets r ip of None \<Rightarrow> new_bucket (rps r) (burst r) s | Some b \<Rightarrow> b)"
    have c: "check_rate s t r ip = (fst (consume 1 t b), r\<lparr>buckets := (buckets r)(ip \<mapsto> snd (consume 1 t b))\<rparr>)"
      by (simp add: check_rate_def b_def case_prod_beta Let_def)
    have b: "bucket_ok b" "tb_rate b = rps r" "tb_capacity b = burst r" "tb_last b \<le> t"
    proof -
      have "bucket_ok b \<and> tb_rate b = rps r \<and> tb_capacity b = burst r \<and> tb_last b \<le> t"
      proof (cases "buckets r ip")
        case None
        then show ?thesis using Cons.prems e t bucket_ok_new [of "rps r" "burst r" s]
          by (simp add: b_def limiter_ok_def new_bucket_def)
      next
        case (Some d)
        then show ?thesis using Cons.prems e t by (fastforce simp: b_def limiter_ok_def)
      qed
      then show "bucket_ok b" "tb_rate b = rps r" "tb_capacity b = burst r" "tb_last b \<le> t" by simp_all
    qed
    have "answers_to ip (fst (check_run ((s, t, ip) # evs) r)) = fst (consume_run (t # ts) b)"
      using check_run_project [of "snd (check_rate s t r ip)" ip "snd (consume 1 t b)" evs] t c
      by (simp add: case_prod_beta Let_def)
    moreover have "sorted (tb_last b # t # ts)"
      using b(4) sorted_calls [OF srt, of ip] t by auto
    ultimately show ?thesis using consume_run_window [OF b(1)] b e True t by simp
  qed
qed simp

subsection \<open>Connection counts\<close>

definition active_addresses :: "rate_limiter \<Rightarrow> pystr set" where
  "active_addresses r = dom (connections r)"

text \<open>The counts and the total fit together, and only positive counts are kept.\<close>

definition conns_ok :: "rate_limiter \<Rightarrow> bool" where
  "conns_ok r \<longleftrightarrow> finite (dom (connections r)) \<and> (\<forall>ip n. connections r ip = Some n \<longrightarrow> 0 < n) \<and>
     total_conns r = (\<Sum>ip \<in> dom (connections r). conns_for r ip)"

lemma conns_for_nonneg: "conns_ok r \<Longrightarrow> 0 \<le> conns_for r ip"
  by (auto simp: conns_ok_def conns_for_def split: option.split dest: less_imp_le)

lemma conns_for_le_total: "conns_ok r \<Longrightarrow> conns_for r ip \<le> total_conns r"
proof (cases "ip \<in> dom (connections r)")
  case True
  assume ok: "conns_ok r"
  then have "conns_for r ip \<le> (\<Sum>i \<in> dom (connections r). conns_for r i)"
    using True conns_for_nonneg by (intro member_le_sum) (auto simp: conns_ok_def)
  then show ?thesis using ok by (simp add: conns_ok_def)
next
  case False
  assume ok: "conns_ok r"
  then have "0 \<le> total_conns r" using conns_for_nonneg by (auto simp: conns_ok_def intro: sum_nonneg)
  then show ?thesis using False by (auto simp: conns_for_def split: option.split)
qed

lemma conns_ok_new: "conns_ok (new_limiter a b c d e)"
  by (simp add: conns_ok_def new_limiter_def)

lemma conns_for_simps:
  "conns_for (r\<lparr>connections := m, total_conns := t, last_activity := a\<rparr>) ip
     = (case m ip of None \<Rightarrow> 0 | Some n \<Rightarrow> n)"
  by (simp add: conns_for_def)

lemma try_add_ok:
  assumes "conns_ok r"
  shows "conns_ok (snd (try_add_connection now r ip))"
proof (cases "max_total r \<le> total_conns r \<or> max_per_ip r \<le> conns_for r ip")
  case True
  then show ?thesis using assms by (auto simp: try_add_connection_def Let_def)
next
  case False
  let ?r' = "snd (try_add_connection now r ip)"
  have r': "?r' = r\<lparr>connections := (connections r)(ip \<mapsto> conns_for r ip + 1),
      total_conns := total_conns r + 1, last_activity := (last_activity r)(ip \<mapsto> now)\<rparr>"
    using False by (simp add: try_add_connection_def Let_def)
  let ?D = "dom (connections r)"
  have fin: "finite ?D" and tot: "total_conns r = (\<Sum>i \<in> ?D. conns_for r i)"
    using assms by (simp_all add: conns_ok_def)
  have out: "conns_for r i = 0" if "i \<notin> ?D" for i
    using that by (auto simp: conns_for_def split: option.split)
  have c: "conns_for ?r' i = (if i = ip then conns_for r ip + 1 else conns_for r i)" for i
    by (simp add: r' conns_for_def)
  have "(\<Sum>i \<in> insert ip ?D. conns_for ?r' i) = conns_for r ip + 1 + (\<Sum>i \<in> ?D - {ip}. conns_for r i)"
    using fin by (subst sum.insert_remove) (simp_all add: c)
  also have "\<dots> = total_conns r + 1"
    using tot fin out by (cases "ip \<in> ?D") (simp_all add: sum.remove [of ?D ip])
  finally have "(\<Sum>i \<in> insert ip ?D. conns_for ?r' i) = total_conns r + 1" .
  moreover have "0 < conns_for r ip + 1" using conns_for_nonneg [OF assms, of ip] by simp
  ultimately show ?thesis
    using assms by (auto simp: conns_ok_def r' split: if_splits)
qed

lemma remove_cases:
  assumes "conns_ok r"
  shows "remove_connection r ip =
    (case connections r ip of None \<Rightarrow> r
     | Some n \<Rightarrow> r\<lparr>connections := (if n = 1 then (connections r)(ip := None)
                                  else (connections r)(ip \<mapsto> n - 1)),
                  total_conns := total_conns r - 1\<rparr>)"
proof (cases "connections r ip")
  case None
  then show ?thesis by (simp add: remove_connection_def conns_for_def)
next
  case (Some n)
  then have n: "0 < n" using assms by (auto simp: conns_ok_def)
  have "n \<le> total_conns r" using conns_for_le_total [OF assms, of ip] Some by (simp add: conns_for_def)
  then show ?thesis using Some n by (auto simp: remove_connection_def conns_for_def Let_def)
qed

lemma remove_conns_for:
  assumes "conns_ok r" and "0 < conns_for r ip"
  shows "conns_for (remove_connection r ip) i = conns_for r i - (if i = ip then 1 else 0)"
    and "total_conns (remove_connection r ip) = total_conns r - 1"
  using assms by (auto simp: remove_cases conns_for_def split: option.splits)

lemma remove_ok:
  assumes "conns_ok r"
  shows "conns_ok (remove_connection r ip)"
proof (cases "connections r ip")
  case None
  then show ?thesis using assms by (simp add: remove_cases)
next
  case (Some n)
  let ?r' = "remove_connection r ip" and ?D = "dom (connections r)"
  have n: "0 < n" and fin: "finite ?D" and tot: "total_conns r = (\<Sum>i \<in> ?D. conns_for r i)"
    using assms Some by (auto simp: conns_ok_def)
  have held: "conns_for r ip = n" using Some by (simp add: conns_for_def)
  have c: "conns_for ?r' i = conns_for r i - (if i = ip then 1 else 0)" for i
    using remove_conns_for(1) [OF assms] held n by simp
  have D: "dom (connections ?r') = (if n = 1 then ?D - {ip} else ?D)"
    using Some by (auto simp: remove_cases [OF assms])
  have ip: "ip \<in> ?D" using Some by blast
  have sum: "(\<Sum>i \<in> ?D. conns_for ?r' i) = total_conns r - 1"
    unfolding c tot using fin ip by (simp add: sum_subtractf)
  have "(\<Sum>i \<in> dom (connections ?r'). conns_for ?r' i) = total_conns r - 1"
  proof (cases "n = 1")
    case True
    then have "conns_for ?r' ip = 0" using c [of ip] held by simp
    then show ?thesis using sum D True fin ip by (simp add: sum.remove [of ?D ip])
  qed (simp add: sum D)
  moreover have "total_conns ?r' = total_conns r - 1" using remove_conns_for(2) assms held n by simp
  moreover have "0 < m" if "connections ?r' i = Some m" for i m
  proof -
    have pos: "0 < k" if "connections r j = Some k" for j k
      using assms that by (simp add: conns_ok_def)
    show ?thesis using that Some n pos [of i m]
      by (cases "i = ip"; cases "n = 1") (simp_all add: remove_cases [OF assms])
  qed
  ultimately show ?thesis using D fin by (auto simp: conns_ok_def)
qed

interpretation lim: admission try_add_connection remove_connection conns_for total_conns conns_ok
  max_per_ip max_total
proof unfold_locales
  fix t r ip i
  show "fst (try_add_connection t r ip) \<longleftrightarrow> total_conns r < max_total r \<and> conns_for r ip < max_per_ip r"
    by (auto simp: try_add_connection_def Let_def)
  show "\<not> fst (try_add_connection t r ip) \<Longrightarrow> snd (try_add_connection t r ip) = r"
    by (auto simp: try_add_connection_def Let_def split: if_splits)
  show "fst (try_add_connection t r ip) \<Longrightarrow> conns_for (snd (try_add_connection t r ip)) i
      = conns_for r i + (if i = ip then 1 else 0)"
    by (auto simp: try_add_connection_def Let_def conns_for_def split: if_splits)
  show "fst (try_add_connection t r ip) \<Longrightarrow> total_conns (snd (try_add_connection t r ip)) = total_conns r + 1"
    by (auto simp: try_add_connection_def Let_def split: if_splits)
  show "conns_ok r \<Longrightarrow> conns_ok (snd (try_add_connection t r ip))" by (rule try_add_ok)
  show "conns_ok r \<Longrightarrow> conns_ok (remove_connection r ip)" by (rule remove_ok)
  show "max_per_ip (snd (try_add_connection t r ip)) = max_per_ip r"
    "max_total (snd (try_add_connection t r ip)) = max_total r"
    by (auto simp: try_add_connection_def Let_def)
  show "max_per_ip (remove_connection r ip) = max_per_ip r"
    "max_total (remove_connection r ip) = max_total r"
    by (auto simp: remove_connection_def Let_def)
qed (fact remove_conns_for)+

lemma new_limiter_unused: "lim.unused (new_limiter a b c d e)"
  by (simp add: lim.unused_def conns_ok_new) (simp add: new_limiter_def conns_for_def)

subsection \<open>Properties of the rate limiter\<close>

text \<open>
  C14. The rate limit holds per address over every window: whatever calls of \<open>check_rate\<close> came
  before and whatever other addresses do, an address that calls at times \<open>t\<close>, ... within a
  window is granted at most \<open>burst + rps * (length of the window)\<close> requests in it.
\<close>

theorem rate_limit_window:
  assumes "0 \<le> rate" and "0 \<le> cap"
    and "sorted (clock_readings (before @ window))"
    and "calls_of ip window = t # ts"
  shows "of_nat (granted (answers_to ip
      (fst (check_run window (snd (check_run before (new_limiter rate cap mi mt idle)))))))
    \<le> of_int cap + (last (t # ts) - t) * rate"
proof -
  let ?r0 = "new_limiter rate cap mi mt idle"
  obtain now where now: "\<forall>x \<in> set (clock_readings (before @ window)). now \<le> x"
  proof (cases "clock_readings (before @ window)")
    case Nil
    then show ?thesis using that by simp
  next
    case (Cons x xs)
    then show ?thesis using that [of x] assms(3) by auto
  qed
  have ok0: "limiter_ok now ?r0" using assms(1,2) by (simp add: limiter_ok_def new_limiter_def)
  have srt: "sorted (now # clock_readings before)" using assms(3) now by (simp add: sorted_append)
  note run = check_run_ok [OF ok0 srt]
  have "sorted (last (now # clock_readings before) # clock_readings window)"
    using assms(3) now by (auto simp: sorted_append)
  from check_run_window [OF run(1) this assms(4)] show ?thesis
    using run(2,3) by (simp add: new_limiter_def)
qed

theorem rate_limit_window_witness:
  "of_nat (granted (answers_to (u ''a'') (fst (check_run
      [(1, 1, u ''a''), (1, 1, u ''b''), (1, 1, u ''a''), (2, 2, u ''a'')]
      (snd (check_run [(0, 0, u ''a'')] (new_limiter 1 2 5 50 300)))))))
    \<le> of_int 2 + (last [1, 1, 2] - 1) * (1 :: rat)"
  by (rule rate_limit_window) simp_all

text \<open>
  C30. A client that keeps to the rate is never refused: if the burst is at least one and the
  calls of an address are at least \<open>1 / rps\<close> apart, every one of them is granted.
\<close>

theorem steady_client_granted:
  assumes "0 \<le> rate" and "1 \<le> cap"
    and "sorted (clock_readings evs)" and "\<forall>(_, _, i) \<in> set evs. i = ip"
    and "successively (\<lambda>s t. 1 \<le> (t - s) * rate) (calls_of ip evs)"
  shows "list_all snd (fst (check_run evs (new_limiter rate cap mi mt idle)))"
proof (cases evs)
  case (Cons e es)
  obtain s t where e: "e = (s, t, ip)" using assms(4) Cons by (cases e) auto
  let ?r = "new_limiter rate cap mi mt idle" and ?b = "new_bucket rate cap s"
  let ?b1 = "snd (consume 1 t ?b)"
  let ?run = "fst (check_run (e # es) ?r)"
  have c: "check_rate s t ?r ip = (fst (consume 1 t ?b), ?r\<lparr>buckets := (buckets ?r)(ip \<mapsto> ?b1)\<rparr>)"
    by (simp add: check_rate_def new_limiter_def case_prod_beta Let_def)
  have "False \<notin> set (fst (consume_run (t # calls_of ip es) ?b))"
    by (rule consume_run_spaced)
      (use assms Cons e bucket_ok_new [of rate cap s] sorted_calls [of t es ip] in
        \<open>simp_all add: new_bucket_def\<close>)
  moreover have "answers_to ip ?run = fst (consume_run (t # calls_of ip es) ?b)"
    using check_run_project [of "snd (check_rate s t ?r ip)" ip ?b1 es] c e
    by (simp add: case_prod_beta Let_def)
  moreover have "map fst (fst (check_run l r)) = map (\<lambda>(_, _, i). i) l" for l r
    by (induction l arbitrary: r) (auto simp: case_prod_beta Let_def)
  then have "\<forall>i \<in> set (map fst ?run). i = ip" using assms(4) Cons by auto
  then have "\<forall>(i, _) \<in> set ?run. i = ip" by auto
  then have "filter (\<lambda>(i, _). i = ip) ?run = ?run" by (auto simp: filter_id_conv)
  then have "answers_to ip ?run = map snd ?run" by (simp only: answers_to_def)
  ultimately have "False \<notin> set (map snd ?run)" by simp
  then have "list_all snd ?run" by (auto simp: list_all_iff)
  then show ?thesis by (simp only: Cons)
qed simp

theorem steady_client_granted_witness:
  "list_all snd (fst (check_run [(0, 0, u ''a''), (1, 1, u ''a''), (5, 5, u ''a'')]
     (new_limiter 1 1 5 50 300)))"
  by (rule steady_client_granted [where ip = "u ''a''"]) simp_all

text \<open>
  Under any interleaving of sessions that are admitted, refused and closed, starting from a
  new limiter, the per-address counts and the total are exactly those of the open sessions
  (so they always add up), and neither cap is ever exceeded.
\<close>

lemma connection_caps:
  assumes "lim.sessions (new_limiter rate cap mi mt idle) r M"
  shows "conns_for r ip = int (count M ip) \<and> total_conns r = int (size M) \<and>
    int (count M ip) \<le> max 0 mi \<and> int (size M) \<le> max 0 mt"
  using lim.sessions_books [OF assms new_limiter_unused]
    lim.sessions_capped [OF assms new_limiter_unused]
  by (simp add: new_limiter_def)

lemma demo_session:
  "lim.sessions (new_limiter 1 1 1 2 300) (snd (try_add_connection 7 (new_limiter 1 1 1 2 300) (u ''a'')))
     {#u ''a''#}"
proof -
  have "fst (try_add_connection 7 (new_limiter 1 1 1 2 300) (u ''a''))"
    by (simp add: lim.add_iff) (simp add: new_limiter_def conns_for_def)
  then show ?thesis using lim.opened [OF lim.start] by (metis prod.collapse)
qed

lemma connection_caps_instance:
  "conns_for (snd (try_add_connection 7 (new_limiter 1 1 1 2 300) (u ''a''))) (u ''a'') = 1"
  using connection_caps [OF demo_session, of "u ''a''"] by simp

text \<open>
  No connection slot leaks: when every session that was opened has been closed, the limiter
  counts nothing for any address and admits newcomers exactly as a new one does.
\<close>

lemma limiter_drains:
  assumes "lim.sessions (new_limiter rate cap mi mt idle) r {#}"
  shows "connections r = Map.empty \<and> total_conns r = 0 \<and>
    (fst (try_add_connection now r ip) \<longleftrightarrow> 0 < mt \<and> 0 < mi)"
proof -
  have un: "lim.unused r" by (rule lim.sessions_drained [OF assms new_limiter_unused])
  have "connections r i = None" for i
  proof (cases "connections r i")
    case (Some n)
    then show ?thesis using un by (auto simp: lim.unused_def conns_ok_def conns_for_def split: option.splits)
  qed simp
  then have "connections r = Map.empty" by (simp add: fun_eq_iff)
  moreover have "fst (try_add_connection now r ip) \<longleftrightarrow> 0 < mt \<and> 0 < mi"
    using lim.sessions_admit [OF assms new_limiter_unused] by (simp add: new_limiter_def)
  ultimately show ?thesis using un by (simp add: lim.unused_def)
qed

lemma limiter_drains_instance:
  "connections (remove_connection (snd (try_add_connection 7 (new_limiter 1 1 1 2 300) (u ''a'')))
     (u ''a'')) = Map.empty"
proof -
  have "lim.sessions (new_limiter 1 1 1 2 300)
      (remove_connection (snd (try_add_connection 7 (new_limiter 1 1 1 2 300) (u ''a''))) (u ''a'')) {#}"
    by (rule lim.closed) (rule demo_session)
  from limiter_drains [OF this, of 0 "[]"] show ?thesis by simp
qed

end
