(* ===== verification/Ip_Address.thy ===== *)
theory Ip_Address
  imports Py_Str
begin

unbundle bit_operations_syntax

text \<open>
  The part of Python's \<open>ipaddress\<close> that the whitelist uses: \<open>ip_address\<close>,
  \<open>ip_network(..., strict=False)\<close> and membership.  Addresses are 32-bit and 128-bit
  words; every \<open>ValueError\<close> of the module is \<open>None\<close>.
\<close>

datatype ip_addr = V4 "32 word" | V6 "128 word"

subsection \<open>IPv4\<close>

definition parse_octet :: "pystr \<Rightarrow> nat option" where
  "parse_octet s =
     (if s = [] \<or> \<not> list_all is_digit s \<or> 3 < length s \<or> (s \<noteq> [48] \<and> hd s = 48) \<or> 255 < digits_val s
      then None else Some (digits_val s))"

definition v4_of_octets :: "nat list \<Rightarrow> 32 word" where
  "v4_of_octets os = foldl (\<lambda>a b. 256 * a + of_nat b) 0 os"

definition parse_v4 :: "pystr \<Rightarrow> 32 word option" where
  "parse_v4 s =
     (case map parse_octet (split_on 46 s) of
        [Some a, Some b, Some c, Some d] \<Rightarrow> Some (v4_of_octets [a, b, c, d])
      | _ \<Rightarrow> None)"

subsection \<open>IPv6\<close>

definition hextet_digit :: "nat \<Rightarrow> nat option" where
  "hextet_digit c =
     (if 48 \<le> c \<and> c \<le> 57 then Some (c - 48)
      else if 97 \<le> c \<and> c \<le> 102 then Some (c - 87)
      else if 65 \<le> c \<and> c \<le> 70 then Some (c - 55) else None)"

definition parse_hextet :: "pystr \<Rightarrow> nat option" where
  "parse_hextet s =
     (if s = [] \<or> 4 < length s \<or> list_ex (\<lambda>c. hextet_digit c = None) s then None
      else Some (foldl (\<lambda>a c. 16 * a + the (hextet_digit c)) 0 s))"

definition hex_of :: "nat \<Rightarrow> pystr" where
  "hex_of n = map (\<lambda>i. hex_digit (n div 16 ^ i mod 16)) (rev [0..<4])"

text \<open>The parts between colons, a dotted quad at the end turned into two hextets.\<close>

definition v6_parts :: "pystr \<Rightarrow> pystr list option" where
  "v6_parts s =
     (let parts = split_on 58 s in
      if s = [] \<or> length parts < 3 then None
      else if 46 \<in> set (last parts) then
        (case parse_v4 (last parts) of None \<Rightarrow> None
         | Some w \<Rightarrow> Some (butlast parts @ [hex_of (unat w div 65536), hex_of (unat w mod 65536)]))
      else Some parts)"

text \<open>The indices of the empty parts that are not at an end.\<close>

definition inner_gaps :: "pystr list \<Rightarrow> nat list" where
  "inner_gaps parts = filter (\<lambda>i. parts ! i = []) [1 ..< length parts - 1]"

definition join_hextets :: "pystr list \<Rightarrow> nat \<Rightarrow> pystr list \<Rightarrow> 128 word option" where
  "join_hextets hi skipped lo =
     (if None \<in> set (map parse_hextet (hi @ lo)) then None
      else Some (foldl (\<lambda>a h. 65536 * a + of_nat h) 0
        (map (\<lambda>p. the (parse_hextet p)) hi @ replicate skipped 0 @ map (\<lambda>p. the (parse_hextet p)) lo)))"

definition parse_v6_plain :: "pystr \<Rightarrow> 128 word option" where
  "parse_v6_plain s =
     (case v6_parts s of None \<Rightarrow> None
      | Some parts \<Rightarrow>
          if 9 < length parts then None
          else case inner_gaps parts of
            [] \<Rightarrow>
              if length parts \<noteq> 8 \<or> hd parts = [] \<or> last parts = [] then None
              else join_hextets parts 0 []
          | [skip] \<Rightarrow>
              let hi0 = skip; lo0 = length parts - skip - 1;
                  hi = (if hd parts = [] then hi0 - 1 else hi0);
                  lo = (if last parts = [] then lo0 - 1 else lo0)
              in if (hd parts = [] \<and> hi \<noteq> 0) \<or> (last parts = [] \<and> lo \<noteq> 0) \<or> 8 \<le> hi + lo then None
                 else join_hextets (take hi parts) (8 - (hi + lo)) (drop (length parts - lo) parts)
          | _ \<Rightarrow> None)"

text \<open>A scope id after \<open>%\<close> is split off and plays no part in membership.\<close>

definition parse_v6 :: "pystr \<Rightarrow> 128 word option" where
  "parse_v6 s =
     (if 47 \<in> set s then None
      else case split_on 37 s of
        [addr] \<Rightarrow> parse_v6_plain addr
      | [addr, scope] \<Rightarrow> if scope = [] then None else parse_v6_plain addr
      | _ \<Rightarrow> None)"

definition ip_address :: "pystr \<Rightarrow> ip_addr option" where
  "ip_address s =
     (case (if 47 \<in> set s then None else parse_v4 s) of
        Some w \<Rightarrow> Some (V4 w)
      | None \<Rightarrow> map_option V6 (parse_v6 s))"

subsection \<open>Networks\<close>

text \<open>\<open>_ip_int_from_prefix\<close> and its partial inverse \<open>_prefix_from_ip_int\<close>.\<close>

definition netmask :: "nat \<Rightarrow> 'a::len word" where
  "netmask p = (- 1) XOR (drop_bit p (- 1))"

definition mask_prefix :: "'a::len word \<Rightarrow> nat option" where
  "mask_prefix w = (case filter (\<lambda>p. netmask p = w) [0 ..< Suc LENGTH('a)] of [] \<Rightarrow> None | p # _ \<Rightarrow> Some p)"

definition prefix_number :: "nat \<Rightarrow> pystr \<Rightarrow> nat option" where
  "prefix_number width s =
     (if s \<noteq> [] \<and> list_all is_digit s \<and> length s \<le> 4300 \<and> digits_val s \<le> width
      then Some (digits_val s) else None)"

text \<open>A prefix length, a netmask or (for IPv4) a host mask.\<close>

definition v4_prefix :: "pystr \<Rightarrow> nat option" where
  "v4_prefix s =
     (case prefix_number 32 s of Some p \<Rightarrow> Some p
      | None \<Rightarrow>
          (case parse_v4 s of None \<Rightarrow> None
           | Some w \<Rightarrow> (case mask_prefix w of Some p \<Rightarrow> Some p | None \<Rightarrow> mask_prefix (w XOR - 1))))"

datatype ip_net = Net4 "32 word" nat | Net6 "128 word" nat

definition v4_network :: "pystr \<Rightarrow> ip_net option" where
  "v4_network s =
     (case split_on 47 s of
        [a] \<Rightarrow> map_option (\<lambda>w. Net4 w 32) (parse_v4 a)
      | [a, m] \<Rightarrow>
          (case (parse_v4 a, v4_prefix m) of
             (Some w, Some p) \<Rightarrow> Some (Net4 (w AND netmask p) p) | _ \<Rightarrow> None)
      | _ \<Rightarrow> None)"

definition v6_network :: "pystr \<Rightarrow> ip_net option" where
  "v6_network s =
     (case split_on 47 s of
        [a] \<Rightarrow> map_option (\<lambda>w. Net6 w 128) (parse_v6 a)
      | [a, m] \<Rightarrow>
          (case (parse_v6 a, prefix_number 128 m) of
             (Some w, Some p) \<Rightarrow> Some (Net6 (w AND netmask p) p) | _ \<Rightarrow> None)
      | _ \<Rightarrow> None)"

definition ip_network :: "pystr \<Rightarrow> ip_net option" where
  "ip_network s = (case v4_network s of Some n \<Rightarrow> Some n | None \<Rightarrow> v6_network s)"

definition in_net :: "ip_addr \<Rightarrow> ip_net \<Rightarrow> bool" where
  "in_net a n =
     (case (a, n) of
        (V4 w, Net4 net p) \<Rightarrow> w AND netmask p = net
      | (V6 w, Net6 net p) \<Rightarrow> w AND netmask p = net
      | _ \<Rightarrow> False)"

subsection \<open>Masks and prefixes\<close>

lemma bit_netmask:
  "bit (netmask p :: 'a::len word) i \<longleftrightarrow> i < LENGTH('a) \<and> LENGTH('a) \<le> p + i"
  by (auto simp: netmask_def bit_not_iff bit_mask_iff)

text \<open>Two addresses agree under the mask exactly when they agree in their first \<open>p\<close> bits.\<close>

lemma masked_eq_iff:
  fixes v w :: "'a::len word"
  assumes "p \<le> LENGTH('a)"
  shows "v AND netmask p = w AND netmask p \<longleftrightarrow>
    unat v div 2 ^ (LENGTH('a) - p) = unat w div 2 ^ (LENGTH('a) - p)"
proof -
  let ?k = "LENGTH('a) - p"
  have "v AND netmask p = w AND netmask p \<longleftrightarrow>
      (\<forall>i. i < LENGTH('a) \<and> LENGTH('a) \<le> p + i \<longrightarrow> bit v i = bit w i)"
    by (auto simp: bit_eq_iff bit_and_iff bit_netmask)
  also have "\<dots> \<longleftrightarrow> drop_bit ?k v = drop_bit ?k w"
  proof
    assume l: "\<forall>i. i < LENGTH('a) \<and> LENGTH('a) \<le> p + i \<longrightarrow> bit v i = bit w i"
    show "drop_bit ?k v = drop_bit ?k w"
    proof (rule bit_eqI)
      fix i
      show "bit (drop_bit ?k v) i \<longleftrightarrow> bit (drop_bit ?k w) i"
      proof (cases "?k + i < LENGTH('a)")
        case True
        then show ?thesis using l assms by (auto simp: bit_drop_bit_eq)
      next
        case False
        then show ?thesis by (auto simp: bit_drop_bit_eq dest: bit_imp_le_length)
      qed
    qed
  next
    assume r: "drop_bit ?k v = drop_bit ?k w"
    show "\<forall>i. i < LENGTH('a) \<and> LENGTH('a) \<le> p + i \<longrightarrow> bit v i = bit w i"
    proof (intro allI impI)
      fix i
      assume "i < LENGTH('a) \<and> LENGTH('a) \<le> p + i"
      then have "?k + (i - ?k) = i" by linarith
      moreover have "bit (drop_bit ?k v) (i - ?k) = bit (drop_bit ?k w) (i - ?k)" by (simp only: r)
      ultimately show "bit v i = bit w i" by (simp add: bit_drop_bit_eq)
    qed
  qed
  also have "\<dots> \<longleftrightarrow> unat (drop_bit ?k v) = unat (drop_bit ?k w)" by (simp add: word_eq_iff_unsigned)
  also have "\<dots> \<longleftrightarrow> unat v div 2 ^ ?k = unat w div 2 ^ ?k"
    by (simp only: unat_drop_bit_eq) (simp only: drop_bit_eq_div)
  finally show ?thesis .
qed

subsection \<open>Dotted quads\<close>

definition show_v4 :: "nat list \<Rightarrow> pystr" where
  "show_v4 os = join_with [46] (map str_nat os)"

lemma length_str_nat_octet: "n < 1000 \<Longrightarrow> length (str_nat n) \<le> 3"
  by (simp add: str_nat.simps [of n] str_nat.simps [of "n div 10"] str_nat.simps [of "n div 10 div 10"])

lemma parse_octet_str_nat: "n \<le> 255 \<Longrightarrow> parse_octet (str_nat n) = Some n"
proof -
  assume n: "n \<le> 255"
  have "hd (str_nat n) \<noteq> 48 \<or> str_nat n = [48]"
    using hd_str_nat [of n] str_nat_0 by (cases n) auto
  then show ?thesis using n length_str_nat_octet [of n] by (auto simp: parse_octet_def list_all_str_nat)
qed

lemma str_nat_no: "\<not> is_digit c \<Longrightarrow> c \<notin> set (str_nat n)"
  using str_nat_digits by blast

lemma split_show_v4: "os \<noteq> [] \<Longrightarrow> split_on 46 (show_v4 os) = map str_nat os"
  unfolding show_v4_def by (rule split_join) (auto dest: str_nat_digits simp: is_digit_def)

lemma parse_show_v4:
  assumes "a \<le> 255" "b \<le> 255" "c \<le> 255" "d \<le> 255"
  shows "parse_v4 (show_v4 [a, b, c, d]) = Some (v4_of_octets [a, b, c, d])"
  using assms by (simp add: parse_v4_def split_show_v4 parse_octet_str_nat)

lemma unat_v4_of_octets:
  assumes "a \<le> 255" "b \<le> 255" "c \<le> 255" "d \<le> 255"
  shows "unat (v4_of_octets [a, b, c, d]) = 16777216 * a + 65536 * b + 256 * c + d"
proof -
  have "v4_of_octets [a, b, c, d] = of_nat (16777216 * a + 65536 * b + 256 * c + d)"
    by (simp add: v4_of_octets_def algebra_simps)
  moreover have "16777216 * a + 65536 * b + 256 * c + d < 2 ^ 32" using assms by simp
  ultimately show ?thesis by (simp add: unat_of_nat take_bit_nat_eq_self del: of_nat_add of_nat_mult)
qed

lemma set_join_with: "set (join_with sep ps) \<subseteq> set sep \<union> (\<Union>p \<in> set ps. set p)"
  by (induction sep ps rule: join_with.induct) auto

lemma show_v4_chars: "x \<in> set (show_v4 os) \<Longrightarrow> x = 46 \<or> is_digit x"
  using set_join_with [of "[46]" "map str_nat os"] str_nat_digits by (fastforce simp: show_v4_def)

lemma ip_address_show_v4:
  assumes "a \<le> 255" "b \<le> 255" "c \<le> 255" "d \<le> 255"
  shows "ip_address (show_v4 [a, b, c, d]) = Some (V4 (v4_of_octets [a, b, c, d]))"
proof -
  have "47 \<notin> set (show_v4 [a, b, c, d])" using show_v4_chars by (fastforce simp: is_digit_def)
  then show ?thesis using parse_show_v4 [OF assms] by (simp add: ip_address_def)
qed

lemma ip_network_show_v4:
  assumes "a \<le> 255" "b \<le> 255" "c \<le> 255" "d \<le> 255" and "p \<le> 32"
  shows "ip_network (show_v4 [a, b, c, d] @ [47] @ str_nat p)
    = Some (Net4 (v4_of_octets [a, b, c, d] AND netmask p) p)"
proof -
  have no: "47 \<notin> set (show_v4 [a, b, c, d])" "47 \<notin> set (str_nat p)"
    using show_v4_chars str_nat_digits by (fastforce simp: is_digit_def)+
  have "length (str_nat p) \<le> 3" using assms(5) by (intro length_str_nat_octet) simp
  then have "v4_prefix (str_nat p) = Some p"
    using assms(5) by (simp add: v4_prefix_def prefix_number_def list_all_str_nat)
  moreover have "split_on 47 (show_v4 [a, b, c, d] @ [47] @ str_nat p)
      = [show_v4 [a, b, c, d], str_nat p]"
    using no by (simp add: split_on_append split_on_absent)
  ultimately show ?thesis
    using parse_show_v4 [OF assms(1-4)] by (simp add: ip_network_def v4_network_def)
qed

text \<open>Membership in an IPv4 network is agreement in the first \<open>p\<close> bits.\<close>

lemma in_net_v4_iff:
  assumes "p \<le> 32"
  shows "in_net (V4 w) (Net4 (n AND netmask p) p) \<longleftrightarrow> unat w div 2 ^ (32 - p) = unat n div 2 ^ (32 - p)"
  using masked_eq_iff [of p w n] assms by (simp add: in_net_def)

end
