(* ===== verification/Access_Control.thy ===== *)
theory Access_Control
  imports Ip_Address
begin

text \<open>
  \<open>server/access_control.py\<close>: the whitelist.  The file system is an argument: \<open>None\<close> for a
  path that does not exist, otherwise the text that \<open>read_text\<close> returns or the exception it
  raises.
\<close>

type_synonym file_text = "(pyexn + pystr) option"

text \<open>The entry of one line of the file; blank lines, comments and invalid entries give none.\<close>

definition whitelist_entry :: "pystr \<Rightarrow> ip_net option" where
  "whitelist_entry raw =
     (let line = strip raw in if line = [] \<or> hd line = 35 then None else ip_network line)"

definition parse_whitelist :: "pystr \<Rightarrow> ip_net list" where
  "parse_whitelist text = List.map_filter whitelist_entry (splitlines text)"

definition reload :: "file_text \<Rightarrow> pyexn + ip_net list" where
  "reload file =
     (case file of None \<Rightarrow> Inr []
      | Some (Inl e) \<Rightarrow> Inl e
      | Some (Inr text) \<Rightarrow> Inr (parse_whitelist text))"

text \<open>\<open>AccessController(path)\<close>; without a path nothing is read.\<close>

definition access_controller :: "file_text option \<Rightarrow> pyexn + ip_net list" where
  "access_controller path = (case path of None \<Rightarrow> Inr [] | Some file \<Rightarrow> reload file)"

definition is_allowed :: "ip_net list \<Rightarrow> pystr \<Rightarrow> bool" where
  "is_allowed networks ip =
     (if networks = [] then True
      else case ip_address ip of None \<Rightarrow> False
      | Some addr \<Rightarrow> list_ex (\<lambda>net. in_net addr net) networks)"

subsection \<open>Reading the file\<close>

lemma parse_whitelist_lines:
  assumes "\<forall>l \<in> set ls. \<forall>c \<in> set l. \<not> line_break c"
  shows "parse_whitelist (concat (map (\<lambda>l. l @ [10]) ls)) = List.map_filter whitelist_entry ls"
  by (simp add: parse_whitelist_def splitlines_lines [OF assms])

lemma cidr_chars:
  assumes "x \<in> set (show_v4 os @ [47] @ str_nat p)"
  shows "\<not> line_break x" and "\<not> py_space x" and "x \<noteq> 35"
  using assms show_v4_chars str_nat_digits by (fastforce simp: line_break_def py_space_def is_digit_def)+

lemma whitelist_entry_cidr:
  assumes "a \<le> 255" "b \<le> 255" "c \<le> 255" "d \<le> 255" and "p \<le> 32"
  shows "whitelist_entry (show_v4 [a, b, c, d] @ [47] @ str_nat p)
    = Some (Net4 (v4_of_octets [a, b, c, d] AND netmask p) p)"
proof -
  let ?l = "show_v4 [a, b, c, d] @ [47] @ str_nat p"
  have "?l \<noteq> []" by simp
  then have "hd ?l \<in> set ?l" "last ?l \<in> set ?l" by (rule hd_in_set, rule last_in_set)
  then have hl: "\<not> py_space (hd ?l)" "\<not> py_space (last ?l)" "hd ?l \<noteq> 35"
    using cidr_chars by blast+
  then have "strip ?l = ?l" by (intro strip_trimmed) blast
  moreover have "?l \<noteq> []" by simp
  ultimately show ?thesis using hl(3) ip_network_show_v4 [OF assms]
    by (simp only: whitelist_entry_def Let_def simp_thms if_False)
qed

subsection \<open>Properties of the whitelist\<close>

text \<open>
  What the whitelist decides: with no network loaded every address is allowed; otherwise
  exactly the strings that parse as an address of some listed network, an IPv4 address never
  matching an IPv6 network or the reverse.
\<close>

lemma is_allowed_iff:
  "is_allowed networks ip \<longleftrightarrow> networks = [] \<or>
     (\<exists>addr net. ip_address ip = Some addr \<and> net \<in> set networks \<and> in_net addr net \<and>
        (case (addr, net) of (V4 _, Net4 _ _) \<Rightarrow> True | (V6 _, Net6 _ _) \<Rightarrow> True | _ \<Rightarrow> False))"
proof -
  have kind: "(case (addr, net) of (V4 _, Net4 _ _) \<Rightarrow> True | (V6 _, Net6 _ _) \<Rightarrow> True | _ \<Rightarrow> False)"
    if "in_net addr net" for addr net
    using that by (auto simp: in_net_def split: ip_addr.splits ip_net.splits)
  then show ?thesis
    by (cases "ip_address ip") (auto simp: is_allowed_def list_ex_iff simp del: split_paired_Ex)
qed

text \<open>
  C26. A CIDR line of the file means its prefix: a whitelist file whose one entry is
  \<open>a.b.c.d/p\<close>, host bits allowed, admits exactly the dotted quads whose first \<open>p\<close> bits are
  those of \<open>a.b.c.d\<close>.
\<close>

theorem cidr_line_allows_prefix:
  assumes "a \<le> 255" "b \<le> 255" "c \<le> 255" "d \<le> 255" and "p \<le> 32"
    and "w \<le> 255" "x \<le> 255" "y \<le> 255" "z \<le> 255"
    and "reload (Some (Inr (show_v4 [a, b, c, d] @ [47] @ str_nat p @ [10]))) = Inr networks"
  shows "is_allowed networks (show_v4 [w, x, y, z]) \<longleftrightarrow>
    (16777216 * w + 65536 * x + 256 * y + z) div 2 ^ (32 - p)
      = (16777216 * a + 65536 * b + 256 * c + d) div 2 ^ (32 - p)"
proof -
  let ?l = "show_v4 [a, b, c, d] @ [47] @ str_nat p"
  have "\<forall>x \<in> set ?l. \<not> line_break x" using cidr_chars(1) by blast
  then have "parse_whitelist (?l @ [10]) = [Net4 (v4_of_octets [a, b, c, d] AND netmask p) p]"
    using parse_whitelist_lines [of "[?l]"] whitelist_entry_cidr [OF assms(1-5)]
    by (simp add: List.map_filter_def)
  then have "networks = [Net4 (v4_of_octets [a, b, c, d] AND netmask p) p]"
    using assms(10) by (simp add: reload_def)
  then have "is_allowed networks (show_v4 [w, x, y, z]) \<longleftrightarrow>
      unat (v4_of_octets [w, x, y, z]) div 2 ^ (32 - p) = unat (v4_of_octets [a, b, c, d]) div 2 ^ (32 - p)"
    using in_net_v4_iff [OF assms(5)] by (simp add: is_allowed_def ip_address_show_v4 assms)
  then show ?thesis using unat_v4_of_octets assms by simp
qed

theorem cidr_line_allows_prefix_witness:
  "\<exists>networks. reload (Some (Inr (show_v4 [192, 168, 7, 1] @ [47] @ str_nat 16 @ [10]))) = Inr networks \<and>
     is_allowed networks (show_v4 [192, 168, 200, 9]) \<and> \<not> is_allowed networks (show_v4 [192, 169, 0, 1])"
proof -
  obtain networks where
    n: "reload (Some (Inr (show_v4 [192, 168, 7, 1] @ [47] @ str_nat 16 @ [10]))) = Inr networks"
    by (simp add: reload_def)
  have "is_allowed networks (show_v4 [192, 168, 200, 9])"
    using cidr_line_allows_prefix [of 192 168 7 1 16 192 168 200 9, OF _ _ _ _ _ _ _ _ _ n] by simp
  moreover have "\<not> is_allowed networks (show_v4 [192, 169, 0, 1])"
    using cidr_line_allows_prefix [of 192 168 7 1 16 192 169 0 1, OF _ _ _ _ _ _ _ _ _ n] by simp
  ultimately show ?thesis using n by blast
qed

text \<open>
  The whitelist fails open: a file in which no line is a valid entry (a typo in the only
  line, or only comments) allows every client, as if there were no file.
\<close>

lemma invalid_whitelist_allows_all:
  assumes "\<forall>line \<in> set (splitlines text). whitelist_entry line = None"
  shows "\<exists>networks. reload (Some (Inr text)) = Inr networks \<and> (\<forall>ip. is_allowed networks ip)"
proof -
  have "List.map_filter whitelist_entry (splitlines text) = []"
    using assms by (simp add: List.map_filter_def filter_empty_conv)
  then show ?thesis by (simp add: reload_def parse_whitelist_def is_allowed_def)
qed

lemma invalid_whitelist_allows_all_instance:
  "\<exists>networks. reload (Some (Inr (u ''10.0.0.0/33''))) = Inr networks \<and>
     is_allowed networks (u ''203.0.113.77'')"
proof -
  have "\<forall>line \<in> set (splitlines (u ''10.0.0.0/33'')). whitelist_entry line = None"
    by (simp add: u_Cons splitlines_def line_break_def whitelist_entry_def strip_def py_space_def
        ip_network_def v4_network_def v6_network_def v4_prefix_def prefix_number_def is_digit_def
        digits_val_def parse_v4_def parse_octet_def parse_v6_def parse_v6_plain_def v6_parts_def)
  from invalid_whitelist_allows_all [OF this] show ?thesis by blast
qed

end
