(* ===== verification/Relay.thy ===== *)
theory Relay
  imports Canonical
begin

text \<open>
  Properties of the forwarder's three kinds of request: what a relay moves, what a CONNECT
  does to a session already there, and what reaches the \<open>requests\<close> package.
\<close>

subsection \<open>The reading loop\<close>

text \<open>All bytes still to come, whatever stalls and segment boundaries lie between them.\<close>

fun stream_bytes :: "net_event list \<Rightarrow> bytes" where
  "stream_bytes [] = []"
| "stream_bytes (Seg bs # q) = bs @ stream_bytes q"
| "stream_bytes (_ # q) = stream_bytes q"

lemma recv_event_stream:
  "recv_event n q = (Inr c, q') \<Longrightarrow> stream_bytes q = c @ stream_bytes q'"
  "recv_event n q = (Inl e, q') \<Longrightarrow> stream_bytes q = stream_bytes q'"
  by (induction n q rule: recv_event.induct) (auto split: if_splits)

text \<open>Only the orderly end of the stream reads as nothing.\<close>

lemma recv_event_empty: "0 < n \<Longrightarrow> recv_event n q = (Inr [], q') \<Longrightarrow> stream_bytes q = [] \<and> q' = []"
  by (induction n q rule: recv_event.induct) (auto split: if_splits)

lemma relay_loop_stream:
  "relay_loop acc q = ((shut, out), q') \<Longrightarrow>
     \<exists>new. out = acc @ new \<and> stream_bytes q = new @ stream_bytes q' \<and> (shut \<longrightarrow> q' = [])"
proof (induction acc q rule: relay_loop.induct)
  case (1 acc q)
  obtain r q1 where r: "recv_event RELAY_CHUNK q = (r, q1)" by force
  show ?case
  proof (cases r)
    case (Inl e)
    then show ?thesis using 1(2) r recv_event_stream(2) [of RELAY_CHUNK q e q1]
      by (simp add: relay_loop.simps [of acc q])
  next
    case (Inr c)
    note st = recv_event_stream(1) [OF r [unfolded Inr]]
    show ?thesis
    proof (cases "c = []")
      case True
      then have "shut" "out = acc" "q' = q1" using 1(2) r Inr by (auto simp: relay_loop.simps [of acc q])
      moreover have "stream_bytes q = [] \<and> q1 = []"
        using recv_event_empty [of RELAY_CHUNK q q1] r Inr True by (simp add: RELAY_CHUNK_def)
      ultimately show ?thesis by simp
    next
      case False
      show ?thesis
      proof (cases "length c < RELAY_CHUNK")
        case True
        then have "\<not> shut" "out = acc @ c" "q' = q1"
          using 1(2) r Inr False by (auto simp: relay_loop.simps [of acc q])
        then show ?thesis using st by simp
      next
        case long: False
        then have "relay_loop (acc @ c) q1 = ((shut, out), q')"
          using 1(2) r Inr False by (simp add: relay_loop.simps [of acc q])
        then obtain new where "out = (acc @ c) @ new" "stream_bytes q1 = new @ stream_bytes q'"
          "shut \<longrightarrow> q' = []"
          using 1(1) [OF r [symmetric] Inr False long] by blast
        then show ?thesis using st by simp
      qed
    qed
  qed
qed

subsection \<open>Properties of the forwarder\<close>

lemma relay_run:
  assumes "fw_sessions F t = Some n" and "fw_socks F n = Some s" and "t_open s" and "t_faults s = []"
  shows "\<exists>out shut s' F'. fw_handle_relay (JStr t) data F = (Inr (relay_reply out shut), F') \<and>
    fw_socks F' = (fw_socks F)(n \<mapsto> s') \<and> t_sent s' = t_sent s @ data \<and>
    stream_bytes (t_inq s) = out @ stream_bytes (t_inq s') \<and> (shut \<longrightarrow> t_inq s' = []) \<and>
    fw_sessions F' = (if shut then (fw_sessions F)(t := None) else fw_sessions F)"
proof -
  obtain shut out q where loop: "relay_loop [] (t_inq s) = ((shut, out), q)" by (metis prod.collapse)
  note st = relay_loop_stream [OF loop]
  let ?s1 = "s\<lparr>t_sent := t_sent s @ data\<rparr>" and ?s2 = "s\<lparr>t_sent := t_sent s @ data, t_inq := q\<rparr>"
  let ?F1 = "if data = [] then F else update_sock n ?s1 F"
  have send: "(if data = [] then ret () else sock_send n data) F = (Inr (), ?F1)"
    using assms by (simp add: sock_send_def ret_def)
  have read: "sock_read n ?F1 = (Inr (shut, out), update_sock n ?s2 ?F1)"
    using assms loop by (simp add: sock_read_def update_sock_def)
  let ?F2 = "update_sock n ?s2 ?F1"
  let ?F' = "if shut then ?F2\<lparr>fw_sessions := (fw_sessions ?F2)(t := None)\<rparr> else ?F2"
  have "fw_handle_relay (JStr t) data F = (Inr (relay_reply out shut), ?F')"
    using send read assms(1)
    by (cases shut) (simp_all add: fw_handle_relay_def session_key_def andThen_def of_result_def try_except_def
        unregister_def ret_def del: if_split)
  moreover have "fw_socks ?F' = (fw_socks F)(n \<mapsto> ?s2)"
    by (simp add: update_sock_def)
  moreover have "fw_sessions ?F' = (if shut then (fw_sessions F)(t := None) else fw_sessions F)"
    by (simp add: update_sock_def)
  ultimately show ?thesis using st
    by (intro exI [of _ out] exI [of _ shut] exI [of _ ?s2] exI [of _ ?F'] conjI) simp_all
qed

text \<open>
  C21. A relay is transparent: on an open session whose socket takes the data, all of the data and
  nothing else is appended to what the target was sent; the reply carries the next bytes of the
  target's stream, so that reply and rest together are the stream as it was (no byte is lost,
  repeated or reordered); no other socket is touched; and the session ends exactly when the
  reply says \<open>closed\<close>, which it says only when the target's stream is used up.
\<close>

theorem relay_transparent:
  assumes "fw_sessions F t = Some n" and "fw_socks F n = Some s" and "t_open s" and "t_faults s = []"
  shows "\<exists>out shut s' F'. fw_handle_relay (JStr t) data F = (Inr (relay_reply out shut), F') \<and>
    fw_socks F' = (fw_socks F)(n \<mapsto> s') \<and> t_sent s' = t_sent s @ data \<and>
    stream_bytes (t_inq s) = out @ stream_bytes (t_inq s') \<and> (shut \<longrightarrow> t_inq s' = []) \<and>
    fw_sessions F' = (if shut then (fw_sessions F)(t := None) else fw_sessions F)"
  by (rule relay_run [OF assms])

text \<open>A table with one open session, for the witnesses.\<close>

definition demo_session_fw :: forwarder where
  "demo_session_fw = demo_fw\<lparr>fw_sessions := [u ''h:443'' \<mapsto> 0],
     fw_socks := [0 \<mapsto> \<lparr>peer = (u ''h'', 443), t_inq = [Seg [1], Seg [2]], t_sent = [9], t_faults = [],
        t_timeout = Some 5, t_open = True\<rparr>]\<rparr>"

theorem relay_transparent_witness:
  "\<exists>out shut s' F'. fw_handle_relay (JStr (u ''h:443'')) [7, 8] demo_session_fw
      = (Inr (relay_reply out shut), F') \<and> fw_socks F' 0 = Some s' \<and> t_sent s' = [9, 7, 8] \<and>
    [1, 2] = out @ stream_bytes (t_inq s')"
  using relay_transparent [of demo_session_fw "u ''h:443''" 0
      "\<lparr>peer = (u ''h'', 443), t_inq = [Seg [1], Seg [2]], t_sent = [9], t_faults = [],
        t_timeout = Some 5, t_open = True\<rparr>" "[7, 8]"]
  by (auto simp: demo_session_fw_def)

lemma handle_connect_run:
  assumes "connect_target v = Inr (t, h, p)" and "fw_dial F (fw_dialled F) h p = Inr (q, fs)"
  shows "fw_handle_connect v F = (Inr (build_response 200 [] []),
    F\<lparr>fw_dialled := Suc (fw_dialled F),
      fw_socks := (fw_socks F)(fw_dialled F \<mapsto>
        \<lparr>peer = (h, p), t_inq = q, t_sent = [], t_faults = fs, t_timeout = Some 5, t_open = True\<rparr>),
      fw_sessions := (fw_sessions F)(t \<mapsto> fw_dialled F)\<rparr>)"
  using assms
  by (simp add: fw_handle_connect_def andThen_def of_result_def dial_def register_def ret_def
      try_except_def Let_def)

text \<open>
  C36. CONNECT sessions of different users are not kept apart: the table is keyed by the target
  alone, so a second CONNECT to the same target takes the session over.  Data relayed
  afterwards, whoever sends it, goes to the second socket; the first one gets none of it.
\<close>

theorem second_connect_takes_over:
  assumes "connect_target (JStr t) = Inr (t, h, p)" and "data \<noteq> []"
    and "fw_dial F (fw_dialled F) h p = Inr (q1, [])"
    and "fw_dial F (Suc (fw_dialled F)) h p = Inr (q2, [])"
  shows "let F1 = snd (fw_handle_connect (JStr t) F); F2 = snd (fw_handle_connect (JStr t) F1);
             F3 = snd (fw_handle_relay (JStr t) data F2); n = fw_dialled F
         in map_option t_sent (fw_socks F3 n) = Some [] \<and>
            map_option t_sent (fw_socks F3 (Suc n)) = Some data"
proof -
  let ?n = "fw_dialled F"
  let ?sock = "\<lambda>q. \<lparr>peer = (h, p), t_inq = q, t_sent = [], t_faults = [], t_timeout = Some 5, t_open = True\<rparr>"
  define F1 where "F1 = snd (fw_handle_connect (JStr t) F)"
  define F2 where "F2 = snd (fw_handle_connect (JStr t) F1)"
  have F1: "fw_dialled F1 = Suc ?n" "fw_dial F1 = fw_dial F" "fw_socks F1 ?n = Some (?sock q1)"
    using handle_connect_run [OF assms(1,3)] by (simp_all add: F1_def)
  have d2: "fw_dial F1 (fw_dialled F1) h p = Inr (q2, [])" using F1 assms(4) by simp
  have F2: "fw_sessions F2 t = Some (Suc ?n)" "fw_socks F2 (Suc ?n) = Some (?sock q2)"
    "fw_socks F2 ?n = Some (?sock q1)"
    using handle_connect_run [OF assms(1) d2] F1 by (simp_all add: F2_def)
  obtain s' F3 where "snd (fw_handle_relay (JStr t) data F2) = F3"
    "fw_socks F3 = (fw_socks F2)(Suc ?n \<mapsto> s')" "t_sent s' = data"
    using relay_run [OF F2(1,2), of data] by auto
  then show ?thesis using F2 by (simp add: Let_def flip: F1_def F2_def)
qed

theorem second_connect_takes_over_witness:
  "let F1 = snd (fw_handle_connect (JStr (u ''h:443'')) demo_fw);
       F2 = snd (fw_handle_connect (JStr (u ''h:443'')) F1);
       F3 = snd (fw_handle_relay (JStr (u ''h:443'')) [5] F2)
   in map_option t_sent (fw_socks F3 0) = Some [] \<and> map_option t_sent (fw_socks F3 1) = Some [5]"
proof -
  have "connect_target (JStr (u ''h:443'')) = Inr (u ''h:443'', u ''h'', 443)"
    by (simp add: connect_target_def u_Cons rsplit_once_def py_int_def strip_def py_space_def is_digit_def
        digits_val_def)
  from second_connect_takes_over [OF this, of "[5]" demo_fw "[Seg [104, 105], Stall]" "[Seg [104, 105], Stall]"]
  show ?thesis by (simp add: demo_fw_def)
qed

















end
