(* ===== verification/Server_Main.thy ===== *)
theory Server_Main
  imports Handshake_Run Rate_Limit Access_Control Relay
begin

text \<open>
  \<open>server/server_main.py\<close>: one client's thread, \<open>handle_client\<close>, from the whitelist check to the
  closed socket.  Its state is its own connection with the limiter and the forwarder's tables
  that all threads share; \<open>mono\<close> are the readings of the monotonic clock.
\<close>

record server =
  conn :: world
  lim :: rate_limiter
  fwd :: forwarder
  mono :: "nat \<Rightarrow> rat"
  mono_pos :: nat

subsection \<open>Lifting the components\<close>

definition on_conn :: "(world, 'a) io \<Rightarrow> (server, 'a) io" where
  "on_conn m S = (let (r, w) = m (conn S) in (r, S\<lparr>conn := w\<rparr>))"

definition on_fwd :: "(forwarder, 'a) io \<Rightarrow> (server, 'a) io" where
  "on_fwd m S = (let (r, F) = m (fwd S) in (r, S\<lparr>fwd := F\<rparr>))"

definition monotonic :: "(server, rat) io" where
  "monotonic S = (Inr (mono S (mono_pos S)), S\<lparr>mono_pos := Suc (mono_pos S)\<rparr>)"

definition lim_touch :: "pystr \<Rightarrow> (server, unit) io" where
  "lim_touch ip = andThen monotonic (\<lambda>now S. (Inr (), S\<lparr>lim := touch now (lim S) ip\<rparr>))"

text \<open>The clock is read once more when the address has no bucket yet.\<close>

definition lim_check_rate :: "pystr \<Rightarrow> (server, bool) io" where
  "lim_check_rate ip S =
     andThen (if buckets (lim S) ip = None then monotonic else ret 0) (\<lambda>t_new.
     andThen monotonic (\<lambda>t_use S.
       let (allowed, l) = check_rate t_new t_use (lim S) ip in (Inr allowed, S\<lparr>lim := l\<rparr>))) S"

definition lim_is_idle :: "pystr \<Rightarrow> (server, bool) io" where
  "lim_is_idle ip = andThen monotonic (\<lambda>now S. (Inr (is_idle now (lim S) ip), S))"

subsection \<open>Serving requests\<close>

definition RATE_LIMIT_MSG :: pystr where
  "RATE_LIMIT_MSG = u ''Rate limit exceeded '' @ [8212] @ u '' try again later''"

text \<open>The forwarder's answer, or the JSON page the server makes of its exception.\<close>

definition forward_or_500 :: "bytes \<Rightarrow> (server, bytes) io" where
  "forward_or_500 request_data =
     try_except (on_fwd (forward_request request_data))
       (\<lambda>e. andThen (on_fwd (exn_text e)) (\<lambda>text.
        andThen (of_result (utf8_encode (u ''Forward error: '' @ text))) (\<lambda>body.
        ret (build_response 500 [] body))))"

definition serve_request ::
    "('sk, 'pk) crypto_lib \<Rightarrow> pystr \<Rightarrow> bytes \<Rightarrow> bytes \<Rightarrow> bytes \<Rightarrow> bytes \<Rightarrow> (server, unit) io" where
  "serve_request L ip session_id enc_key mac_key request_data =
     andThen (lim_touch ip) (\<lambda>_.
     andThen (lim_check_rate ip) (\<lambda>allowed.
     if \<not> allowed then
       andThen (of_result (utf8_encode RATE_LIMIT_MSG)) (\<lambda>msg.
       on_conn (send_frame L ERROR session_id msg (Some enc_key) (Some mac_key)))
     else
       andThen (forward_or_500 request_data) (\<lambda>response_data.
       on_conn (send_frame L DATA_RESPONSE session_id response_data (Some enc_key) (Some mac_key)))))"

text \<open>The exceptions of \<open>recv_frame\<close> that end the loop quietly.\<close>

definition quiet_exit :: "pyexn \<Rightarrow> bool" where
  "quiet_exit e \<longleftrightarrow> catches TimeoutErrorC e \<or> catches ConnectionErrorC e \<or> catches ValueErrorC e"

subsection \<open>What serving leaves alone\<close>

lemma send_frame_inq: "inq (snd (send_frame L t sid p ek mk w)) = inq w"
  by (auto simp: send_frame_def encrypt_payload_def urandom_def andThen_def ret_def raise_def sendall_def
      Let_def split: option.splits list.splits sum.splits prod.splits)

lemma send_frame_keeps:
  "send_frame L t sid p ek mk w = (r, w') \<Longrightarrow> inq w' = inq w"
  using send_frame_inq [of L t sid p ek mk w] by simp

lemma serve_request_inq:
  assumes "serve_request L ip sid ek mk req S = (r, S')"
  shows "inq (conn S') = inq (conn S)"
  using assms
  by (auto simp: serve_request_def lim_touch_def lim_check_rate_def monotonic_def forward_or_500_def
      on_conn_def on_fwd_def andThen_def of_result_def ret_def try_except_def exn_text_def Let_def
      case_prod_beta send_frame_inq split: sum.splits if_splits)

lemma frame_bytes_ne: "frame_bytes b m \<noteq> []"
  using length_frame_bytes [of b m] by (metis add_is_0 list.size(3) zero_neq_numeral)

lemma recv_frame_shorter:
  assumes "recv_frame L ek mk w = (Inr m, w')"
  shows "length (arriving (inq w')) < length (arriving (inq w))"
proof -
  obtain f where f: "carries L ek mk m f" and a: "arriving (inq w) = f @ arriving (inq w')"
    using assms by (blast elim: recv_frame_Inr)
  have "f \<noteq> []" using f by (auto simp: carries_def frame_bytes_ne)
  then show ?thesis using a by simp
qed

subsection \<open>The serving loop and the client's thread\<close>

text \<open>
  Each round takes a frame off the stream, so the loop ends: with the idle timeout, with a
  receive that raises, or with an exception in the request's handling.
\<close>

function serve_loop ::
    "('sk, 'pk) crypto_lib \<Rightarrow> pystr \<Rightarrow> bytes \<Rightarrow> bytes \<Rightarrow> bytes \<Rightarrow> (server, unit) io" where
  "serve_loop L ip session_id enc_key mac_key S =
     (let now = mono S (mono_pos S); S1 = S\<lparr>mono_pos := Suc (mono_pos S)\<rparr> in
      if is_idle now (lim S1) ip then (Inr (), S1)
      else
        case recv_frame L (Some enc_key) (Some mac_key) (conn S1) of
          (Inl e, w) \<Rightarrow> (if quiet_exit e then Inr () else Inl e, S1\<lparr>conn := w\<rparr>)
        | (Inr (msg_type, rx_sid, request_data), w) \<Rightarrow>
            let S2 = S1\<lparr>conn := w\<rparr> in
            if msg_type \<noteq> DATA_REQUEST then serve_loop L ip session_id enc_key mac_key S2
            else
              case serve_request L ip session_id enc_key mac_key request_data S2 of
                (Inl e, S3) \<Rightarrow> (Inl e, S3)
              | (Inr _, S3) \<Rightarrow> serve_loop L ip session_id enc_key mac_key S3)"
  by pat_completeness auto
termination
  by (relation "measure (\<lambda>(L, ip, sid, ek, mk, S). length (arriving (inq (conn S))))")
    (auto dest!: recv_frame_shorter [OF sym] serve_request_inq [OF sym])

declare serve_loop.simps [simp del]

definition run_session ::
    "('sk, 'pk) crypto_lib \<Rightarrow> 'sk \<Rightarrow> 'pk \<Rightarrow> pystr \<Rightarrow> (server, unit) io" where
  "run_session L server_sk client_pk ip S =
     (case on_conn (server_handshake L server_sk client_pk) S of
        (Inl _, S1) \<Rightarrow> (Inr (), S1)
      | (Inr (session_id, enc_key, mac_key), S1) \<Rightarrow>
          andThen (on_conn (settimeout (Some (idle_timeout (lim S1))))) (\<lambda>_.
          serve_loop L ip session_id enc_key mac_key) S1)"

text \<open>
  \<open>handle_client\<close>: the inner \<open>finally\<close> gives the connection slot back, the outer \<open>except\<close> swallows
  what is raised, and the outer \<open>finally\<close> closes the socket.
\<close>

definition close_conn :: "server \<Rightarrow> server" where
  "close_conn S = S\<lparr>conn := (conn S)\<lparr>sock_open := False\<rparr>\<rparr>"

definition handle_client ::
    "('sk, 'pk) crypto_lib \<Rightarrow> 'sk \<Rightarrow> 'pk \<Rightarrow> ip_net list \<Rightarrow> pystr \<Rightarrow> server \<Rightarrow> server" where
  "handle_client L server_sk client_pk networks ip S =
     (if \<not> is_allowed networks ip then close_conn S
      else
        let now = mono S (mono_pos S);
            (admitted, l) = try_add_connection now (lim S) ip;
            S1 = S\<lparr>lim := l, mono_pos := Suc (mono_pos S)\<rparr>
        in if \<not> admitted then close_conn S1
           else
             let (_, S2) = run_session L server_sk client_pk ip S1
             in close_conn (S2\<lparr>lim := remove_connection (lim S2) ip\<rparr>))"

subsection \<open>The books of the limiter\<close>

text \<open>
  Serving works on the limiter by the two operations that leave connection counts, total and caps
  as they are.
\<close>

definition lim_op :: "pystr \<Rightarrow> rate_limiter \<Rightarrow> rate_limiter \<Rightarrow> bool" where
  "lim_op ip r r' \<longleftrightarrow> (\<exists>now. r' = touch now r ip) \<or> (\<exists>s t. r' = snd (check_rate s t r ip))"

definition lim_path :: "pystr \<Rightarrow> (server, 'a) io \<Rightarrow> bool" where
  "lim_path ip m \<longleftrightarrow> (\<forall>S. rtranclp (lim_op ip) (lim S) (lim (snd (m S))))"

lemma lim_path_andThen:
  assumes "lim_path ip m" and "\<And>x. lim_path ip (f x)"
  shows "lim_path ip (andThen m f)"
  unfolding lim_path_def
proof
  fix S
  obtain r S1 where r: "m S = (r, S1)" by force
  have 1: "rtranclp (lim_op ip) (lim S) (lim S1)" using assms(1) r unfolding lim_path_def by (metis snd_conv)
  show "rtranclp (lim_op ip) (lim S) (lim (snd (andThen m f S)))"
  proof (cases r)
    case (Inr x)
    have "rtranclp (lim_op ip) (lim S1) (lim (snd (f x S1)))" using assms(2) by (simp add: lim_path_def)
    then show ?thesis using r Inr rtranclp_trans [OF 1] by (simp add: andThen_def)
  qed (use r 1 in \<open>simp add: andThen_def\<close>)
qed

lemma same_books_check_rate: "lim.same_books r (snd (check_rate s t r ip))"
  by (auto simp: lim.same_books_def check_rate_def conns_ok_def conns_for_def Let_def case_prod_beta)

lemma same_books_touch: "lim.same_books r (touch now r ip)"
  by (auto simp: lim.same_books_def touch_def conns_ok_def conns_for_def)

lemma lim_op_star:
  "rtranclp (lim_op ip) r (touch now r ip)" "rtranclp (lim_op ip) r (snd (check_rate s t r ip))"
  by (rule r_into_rtranclp; auto simp: lim_op_def)+

lemma lim_op_same_books: "rtranclp (lim_op ip) r r' \<Longrightarrow> lim.same_books r r'"
  by (induction rule: rtranclp_induct)
    (auto simp: lim_op_def lim.same_books_refl intro: lim.same_books_trans same_books_touch same_books_check_rate)

lemma lim_path_basic [simp]:
  "lim_path ip (ret x)" "lim_path ip (raise e)" "lim_path ip (of_result r)" "lim_path ip (on_conn m)"
  "lim_path ip (on_fwd m')" "lim_path ip monotonic" "lim_path ip (lim_touch ip)"
  "lim_path ip (lim_check_rate ip)"
  by (auto simp: lim_path_def ret_def raise_def of_result_def on_conn_def on_fwd_def monotonic_def
      lim_touch_def lim_check_rate_def andThen_def lim_op_star Let_def case_prod_beta)

lemma lim_path_try:
  assumes "lim_path ip m" and "\<And>e. lim_path ip (h e)"
  shows "lim_path ip (try_except m h)"
  unfolding lim_path_def
proof
  fix S
  obtain r S1 where r: "m S = (r, S1)" by force
  have 1: "rtranclp (lim_op ip) (lim S) (lim S1)" using assms(1) r unfolding lim_path_def by (metis snd_conv)
  show "rtranclp (lim_op ip) (lim S) (lim (snd (try_except m h S)))"
  proof (cases r)
    case (Inl e)
    have "rtranclp (lim_op ip) (lim S1) (lim (snd (h e S1)))" using assms(2) by (simp add: lim_path_def)
    then show ?thesis using r Inl rtranclp_trans [OF 1] by (simp add: try_except_def)
  qed (use r 1 in \<open>simp add: try_except_def\<close>)
qed

lemma lim_path_serve_request: "lim_path ip (serve_request L ip sid ek mk req)"
  unfolding serve_request_def forward_or_500_def
  by (auto intro!: lim_path_andThen lim_path_try)

text \<open>
  An invariant of the loop: a preorder on server states that holds of a change of the connection
  and the clock, and of serving one request, holds of the whole loop.
\<close>

lemma serve_loop_preorder:
  assumes "\<And>(S :: server) n c. R S (S\<lparr>mono_pos := n, conn := c\<rparr>)"
    and "\<And>S req. R S (snd (serve_request L ip sid ek mk req S))"
    and trans: "\<And>S S' S''. R S S' \<Longrightarrow> R S' S'' \<Longrightarrow> R S S''"
  shows "R S (snd (serve_loop L ip sid ek mk S))"
  using assms(2)
proof (induction L ip sid ek mk S rule: serve_loop.induct)
  case (1 L ip sid ek mk S)
  let ?S1 = "S\<lparr>mono_pos := Suc (mono_pos S)\<rparr>"
  obtain r w where r: "recv_frame L (Some ek) (Some mk) (conn ?S1) = (r, w)" by force
  let ?S2 = "?S1\<lparr>conn := w\<rparr>"
  have 2: "R S ?S2" and 1: "R S ?S1"
    using assms(1) [where S = S and n = "Suc (mono_pos S)" and c = w]
      assms(1) [where S = S and n = "Suc (mono_pos S)" and c = "conn S"] by simp_all
  show ?case
  proof (cases "is_idle (mono S (mono_pos S)) (lim S) ip \<or> (\<exists>e. r = Inl e)")
    case True
    then show ?thesis using r 1 2 by (auto simp: serve_loop.simps [of L ip sid ek mk S] Let_def)
  next
    case False
    then have live: "\<not> is_idle (mono S (mono_pos S)) (lim ?S1) ip" by simp
    obtain t rx req where m: "r = Inr (t, rx, req)" using False by (cases r) auto
    obtain r3 S3 where sr: "serve_request L ip sid ek mk req ?S2 = (r3, S3)" by force
    have 3: "R ?S2 S3" using "1.prems" [of ?S2 req] sr by simp
    show ?thesis
    proof (cases "t = DATA_REQUEST")
      case skip: False
      have "serve_loop L ip sid ek mk S = serve_loop L ip sid ek mk ?S2"
        using live r m skip by (simp add: serve_loop.simps [of L ip sid ek mk S])
      moreover have "R ?S2 (snd (serve_loop L ip sid ek mk ?S2))"
        by (rule "1.IH"(1) [OF refl refl live r [symmetric] m refl refl refl skip "1.prems"])
      ultimately show ?thesis using trans [OF 2] by simp
    next
      case True
      have "serve_loop L ip sid ek mk S = (case r3 of Inl e \<Rightarrow> (Inl e, S3) | Inr _ \<Rightarrow> serve_loop L ip sid ek mk S3)"
        using live r m True sr by (simp add: serve_loop.simps [of L ip sid ek mk S] split: sum.split)
      moreover have "R S3 (snd (serve_loop L ip sid ek mk S3))" if "r3 = Inr x" for x
        using "1.IH"(2) [OF refl refl live r [symmetric] m refl refl refl _ sr [symmetric] that "1.prems"] True by simp
      ultimately show ?thesis using trans [OF 2 3] trans [OF trans [OF 2 3]] by (auto split: sum.split)
    qed
  qed
qed

lemma lim_path_serve_loop: "lim_path ip (serve_loop L ip sid ek mk)"
proof -
  have "rtranclp (lim_op ip) (lim S) (lim (snd (serve_loop L ip sid ek mk S)))" for S
  proof (rule serve_loop_preorder [where R = "\<lambda>S S'. rtranclp (lim_op ip) (lim S) (lim S')"])
    show "rtranclp (lim_op ip) (lim S) (lim (snd (serve_request L ip sid ek mk req S)))" for S req
      using lim_path_serve_request [of ip L sid ek mk req] unfolding lim_path_def by (rule spec)
  qed (auto intro: rtranclp_trans)
  then show ?thesis by (simp add: lim_path_def)
qed

lemma lim_path_run_session: "lim_path ip (run_session L ssk cpk ip)"
proof -
  have "rtranclp (lim_op ip) (lim S) (lim (snd (run_session L ssk cpk ip S)))" for S
  proof (cases "on_conn (server_handshake L ssk cpk) S")
    case (Pair r S1)
    have S1: "lim S1 = lim S" using Pair by (auto simp: on_conn_def Let_def case_prod_beta)
    show ?thesis
    proof (cases r)
      case (Inl e)
      then show ?thesis using Pair S1 by (simp add: run_session_def rtranclp.rtrancl_refl)
    next
      case (Inr x)
      obtain sid ek mk where x: "x = (sid, ek, mk)" by (cases x)
      let ?m = "andThen (on_conn (settimeout (Some (idle_timeout (lim S1))))) (\<lambda>_.
          serve_loop L ip sid ek mk)"
      have "lim_path ip ?m" by (auto intro!: lim_path_andThen lim_path_serve_loop)
      then have "rtranclp (lim_op ip) (lim S1) (lim (snd (?m S1)))" by (simp only: lim_path_def)
      moreover have "run_session L ssk cpk ip S = ?m S1" using Pair Inr x by (simp add: run_session_def)
      ultimately show ?thesis by (simp only: S1)
    qed
  qed
  then show ?thesis by (simp add: lim_path_def)
qed

end
