(* ===== verification/Transitions.thy ===== *)
theory Transitions
  imports Prelude
begin

text \<open>
  The interfaces of the interleaved models: a step relation with its runs, the refinement of one
  such system by another, a deterministic machine, and a service that answers requests one after
  the other.  The facts about runs are proved here once; the step relations of the limiter, the
  server and the proxy, the threads in steps and the tunnel are the interpretations.
\<close>

subsection \<open>Steps and runs\<close>

locale run_system =
  fixes step :: "'s \<Rightarrow> 's \<Rightarrow> bool" and runs :: "'s \<Rightarrow> 's \<Rightarrow> bool"
  assumes runs_rtranclp: "runs = rtranclp step"
begin

lemma refl [simp]: "runs s s"
  by (simp add: runs_rtranclp)

lemma one: "step s t \<Longrightarrow> runs s t"
  by (auto simp: runs_rtranclp)

lemma first: "step s t \<Longrightarrow> runs t v \<Longrightarrow> runs s v"
  unfolding runs_rtranclp by (rule converse_rtranclp_into_rtranclp)

lemma trans: "runs s t \<Longrightarrow> runs t v \<Longrightarrow> runs s v"
  unfolding runs_rtranclp by (rule rtranclp_trans)

lemma first_induct [consumes 1, case_names refl first]:
  assumes "runs s t" and "P t" and "\<And>u v. step u v \<Longrightarrow> runs v t \<Longrightarrow> P v \<Longrightarrow> P u"
  shows "P s"
  using assms unfolding runs_rtranclp by (rule converse_rtranclp_induct)

text \<open>What every step keeps, every run keeps.\<close>

lemma invariant:
  assumes "runs s t" and "P s" and "\<And>u v. P u \<Longrightarrow> step u v \<Longrightarrow> P v"
  shows "P t"
  using assms(1) unfolding runs_rtranclp by (induction rule: rtranclp_induct) (use assms(2,3) in blast)+

end

text \<open>A system each step of which is a run of another, under an abstraction.\<close>

locale run_refinement =
  abstract: run_system step_a runs_a + concrete: run_system step_c runs_c
  for step_a :: "'a \<Rightarrow> 'a \<Rightarrow> bool" and runs_a :: "'a \<Rightarrow> 'a \<Rightarrow> bool"
    and step_c :: "'c \<Rightarrow> 'c \<Rightarrow> bool" and runs_c :: "'c \<Rightarrow> 'c \<Rightarrow> bool" +
  fixes abs :: "'c \<Rightarrow> 'a"
  assumes step_refines: "step_c s t \<Longrightarrow> runs_a (abs s) (abs t)"
begin

lemma runs_refine: "runs_c s t \<Longrightarrow> runs_a (abs s) (abs t)"
proof (induction rule: concrete.first_induct)
  case (first u v)
  show ?case by (rule abstract.trans [OF step_refines [OF first(1)] first(3)])
qed simp

end

subsection \<open>Deterministic machines\<close>

text \<open>
  A machine whose steps are a function.  Where it stops is unique: all its runs are on the way
  there.
\<close>

locale machine = run_system "\<lambda>s t. t = move s" runs
  for move :: "'s \<Rightarrow> 's" and runs :: "'s \<Rightarrow> 's \<Rightarrow> bool"
begin

lemma advance: "runs (move s) t \<Longrightarrow> runs s t"
  by (rule first) simp

lemma move_once: "runs s (move s)"
  by (rule one) simp

lemma on_the_way:
  assumes "runs s t" and "runs s v"
  shows "runs t v \<or> runs v t"
  using assms
proof (induction rule: first_induct)
  case (first u w)
  from first(4) have "v = u \<or> runs (move u) v" unfolding runs_rtranclp by (auto elim: converse_rtranclpE)
  then show ?case using first advance [of u t] by auto
qed simp

lemma stopped: "move t = t \<Longrightarrow> runs t v \<Longrightarrow> v = t"
  by (rule invariant [of t v "\<lambda>v. v = t"]) simp_all

lemma final_unique:
  assumes "runs s t" and "runs s v" and "move t = t" and "move v = v"
  shows "t = v"
  using on_the_way [OF assms(1,2)] stopped assms(3,4) by metis

lemma reaches_final: "runs s t \<Longrightarrow> move t = t \<Longrightarrow> runs s v \<Longrightarrow> runs v t"
  using on_the_way stopped by (metis refl)

end

subsection \<open>Calls one after the other\<close>

text \<open>A service and its calls in order; the first call that raises ends the sequence.\<close>

locale call_sequence =
  fixes call :: "'r \<Rightarrow> ('s, 'a) io" and calls :: "'r list \<Rightarrow> ('s, 'a list) io"
  assumes calls_Nil: "calls [] = ret []"
    and calls_Cons: "calls (r # rs) = andThen (call r) (\<lambda>x. andThen (calls rs) (\<lambda>xs. ret (x # xs)))"
begin

lemma Nil_iff: "calls [] s = (Inr xs, s') \<longleftrightarrow> xs = [] \<and> s' = s"
  by (auto simp: calls_Nil ret_def)

lemma Cons_iff:
  "calls (r # rs) s = (Inr xs, s') \<longleftrightarrow>
    (\<exists>y ys s1. call r s = (Inr y, s1) \<and> calls rs s1 = (Inr ys, s') \<and> xs = y # ys)"
  by (auto simp: calls_Cons andThen_eq_Inr_iff ret_def)

lemma single_iff: "calls [r] s = (Inr xs, s') \<longleftrightarrow> (\<exists>y. call r s = (Inr y, s') \<and> xs = [y])"
  by (auto simp: Cons_iff Nil_iff)

lemma append_iff:
  "calls (rs @ rs') s = (Inr xs, s') \<longleftrightarrow>
    (\<exists>ys zs s1. calls rs s = (Inr ys, s1) \<and> calls rs' s1 = (Inr zs, s') \<and> xs = ys @ zs)"
  by (induction rs arbitrary: s xs) (auto simp: Nil_iff Cons_iff)

lemma one_answer_each: "calls rs s = (Inr xs, s') \<Longrightarrow> length xs = length rs"
  by (induction rs arbitrary: s xs) (auto simp: Nil_iff Cons_iff)

lemma kept:
  assumes "calls rs s = (Inr xs, s')" and "P s" and "\<And>r s x s'. P s \<Longrightarrow> call r s = (Inr x, s') \<Longrightarrow> P s'"
  shows "P s'"
  using assms(1,2) by (induction rs arbitrary: s xs) (auto simp: Nil_iff Cons_iff dest: assms(3))

end

end
