(* ===== verification/Server_Props.thy ===== *)
theory Server_Props
  imports Server_Main Transitions
begin

text \<open>
  Properties of a client's thread, run alone and interleaved with others.  The interleaving is
  a step relation whose steps are the operations a thread performs under the limiter's lock;
  a run of \<open>handle_client\<close> alone is a path of it (\<open>handle_client_run\<close>).
\<close>

subsection \<open>One thread\<close>

lemma handle_client_admitted:
  assumes "is_allowed networks ip"
    and "try_add_connection (mono S (mono_pos S)) (lim S) ip = (True, l)"
  shows "handle_client L ssk cpk networks ip S =
    (let S2 = snd (run_session L ssk cpk ip (S\<lparr>lim := l, mono_pos := Suc (mono_pos S)\<rparr>))
     in close_conn (S2\<lparr>lim := remove_connection (lim S2) ip\<rparr>))"
  using assms by (simp add: handle_client_def Let_def case_prod_beta)

lemma handle_client_turned_away:
  assumes "\<not> is_allowed networks ip \<or> \<not> fst (try_add_connection (mono S (mono_pos S)) (lim S) ip)"
  shows "conn (handle_client L ssk cpk networks ip S) = (conn S)\<lparr>sock_open := False\<rparr>"
    and "fwd (handle_client L ssk cpk networks ip S) = fwd S"
    and "lim (handle_client L ssk cpk networks ip S) = lim S"
  using assms lim.add_refused [of "mono S (mono_pos S)" "lim S" ip]
  by (auto simp: handle_client_def close_conn_def Let_def case_prod_beta)

text \<open>
  C10. A thread gives back what it takes, on every path: whether the client is refused, fails the
  handshake, idles out, breaks the protocol or provokes an exception, when \<open>handle_client\<close> ends
  the connection counts of every address and the total are what they were before, and the
  client's socket is closed.
\<close>

theorem handle_client_releases:
  assumes "conns_ok (lim S)"
  shows "conns_ok (lim (handle_client L ssk cpk networks ip S)) \<and>
    conns_for (lim (handle_client L ssk cpk networks ip S)) i = conns_for (lim S) i \<and>
    total_conns (lim (handle_client L ssk cpk networks ip S)) = total_conns (lim S) \<and>
    \<not> sock_open (conn (handle_client L ssk cpk networks ip S))"
proof (cases "is_allowed networks ip \<and> fst (try_add_connection (mono S (mono_pos S)) (lim S) ip)")
  case False
  then show ?thesis using handle_client_turned_away [of networks ip S L ssk cpk] assms by auto
next
  case True
  then obtain l where add: "try_add_connection (mono S (mono_pos S)) (lim S) ip = (True, l)"
    by (metis prod.collapse)
  let ?S1 = "S\<lparr>lim := l, mono_pos := Suc (mono_pos S)\<rparr>"
  define l2 where "l2 = lim (snd (run_session L ssk cpk ip ?S1))"
  have "rtranclp (lim_op ip) (lim ?S1) (lim (snd (run_session L ssk cpk ip ?S1)))"
    using lim_path_run_session [of ip L ssk cpk] unfolding lim_path_def by (rule spec)
  then have same: "lim.same_books l l2" using lim_op_same_books by (simp add: l2_def)
  have l: "conns_ok l" "conns_for l i = conns_for (lim S) i + (if i = ip then 1 else 0)"
    "total_conns l = total_conns (lim S) + 1" for i
    using lim.add_ok [OF assms, of "mono S (mono_pos S)" ip]
      lim.add_held [of "mono S (mono_pos S)" "lim S" ip i]
      lim.add_total [of "mono S (mono_pos S)" "lim S" ip] add by simp_all
  have l2: "conns_ok l2" "conns_for l2 i = conns_for (lim S) i + (if i = ip then 1 else 0)"
    "total_conns l2 = total_conns (lim S) + 1" for i
    using same l by (simp_all add: lim.same_books_def)
  have pos: "0 < conns_for l2 ip" using l2(2) [of ip] conns_for_nonneg [OF assms, of ip] by simp
  have "handle_client L ssk cpk networks ip S =
      close_conn ((snd (run_session L ssk cpk ip ?S1))\<lparr>lim := remove_connection l2 ip\<rparr>)"
    using handle_client_admitted [OF _ add, of networks L ssk cpk] True by (simp add: l2_def Let_def)
  then show ?thesis
    using remove_ok [OF l2(1)] remove_conns_for [OF l2(1) pos] l2
    by (simp add: close_conn_def)
qed

text \<open>A concrete server state for the witnesses: a silent client, a new limiter.\<close>

definition demo_srv :: server where
  "demo_srv = \<lparr>conn = world0, lim = new_limiter 10 20 5 50 300, fwd = demo_fw, mono = of_nat, mono_pos = 0\<rparr>"

theorem handle_client_releases_witness:
  "total_conns (lim (handle_client model_lib demo_sk demo_ck [] (u ''10.0.0.9'') demo_srv)) = 0"
  using handle_client_releases [of demo_srv model_lib demo_sk demo_ck "[]" "u ''10.0.0.9''" "[]"]
    conns_ok_new [of 10 20 5 50 300]
  by (simp add: demo_srv_def new_limiter_def)

text \<open>
  C15. Nothing is forwarded for a client that is not authenticated: if the address is not allowed,
  a cap is reached, or the handshake raises, the thread leaves the forwarder's sockets, sessions
  and calls as they were; and unless the address is admitted nothing is even read from it or
  sent to it.
\<close>

theorem unauthenticated_forwards_nothing:
  assumes "is_allowed networks ip \<and> fst (try_add_connection (mono S (mono_pos S)) (lim S) ip) \<longrightarrow>
      (\<exists>e w. server_handshake L ssk cpk (conn S) = (Inl e, w))"
  shows "fwd (handle_client L ssk cpk networks ip S) = fwd S \<and>
    (is_allowed networks ip \<and> fst (try_add_connection (mono S (mono_pos S)) (lim S) ip) \<or>
     conn (handle_client L ssk cpk networks ip S) = (conn S)\<lparr>sock_open := False\<rparr>)"
proof (cases "is_allowed networks ip \<and> fst (try_add_connection (mono S (mono_pos S)) (lim S) ip)")
  case False
  then show ?thesis using handle_client_turned_away [of networks ip S L ssk cpk] by auto
next
  case True
  then obtain l where add: "try_add_connection (mono S (mono_pos S)) (lim S) ip = (True, l)"
    by (metis prod.collapse)
  obtain e w where "server_handshake L ssk cpk (conn S) = (Inl e, w)" using assms True by blast
  then have "run_session L ssk cpk ip (S\<lparr>lim := l, mono_pos := Suc (mono_pos S)\<rparr>)
      = (Inr (), S\<lparr>lim := l, mono_pos := Suc (mono_pos S), conn := w\<rparr>)"
    by (simp add: run_session_def on_conn_def)
  then show ?thesis using handle_client_admitted [OF _ add, of networks L ssk cpk] True
    by (simp add: Let_def close_conn_def)
qed

lemma server_handshake_world0: "\<exists>e w. server_handshake L ssk cpk world0 = (Inl e, w)"
proof -
  have "\<exists>e w. recv_frame L None None (world0\<lparr>sock_timeout := t\<rparr>) = (Inl e, w)" for t
  proof -
    have "length (arriving (inq (world0\<lparr>sock_timeout := t\<rparr>))) < HEADER_SIZE"
      by (simp add: world0_def wire_simps)
    from recv_exact_short [OF this] obtain e where
      "fst (recv_exact HEADER_SIZE (world0\<lparr>sock_timeout := t\<rparr>)) = Inl e" by blast
    then show ?thesis
      by (cases "recv_exact HEADER_SIZE (world0\<lparr>sock_timeout := t\<rparr>)") (auto simp: recv_frame_def andThen_def)
  qed
  then obtain e w where "recv_frame L None None (world0\<lparr>sock_timeout := Some HANDSHAKE_TIMEOUT\<rparr>) = (Inl e, w)"
    by blast
  then show ?thesis
    by (simp add: server_handshake_def server_recv_client_hello_def andThen_def settimeout_def)
qed

theorem unauthenticated_forwards_nothing_witness:
  "fwd (handle_client model_lib demo_sk demo_ck [] (u ''10.0.0.9'') demo_srv) = demo_fw"
proof -
  have "\<exists>e w. server_handshake model_lib demo_sk demo_ck (conn demo_srv) = (Inl e, w)"
    using server_handshake_world0 by (simp add: demo_srv_def)
  then show ?thesis
    using unauthenticated_forwards_nothing [of "[]" "u ''10.0.0.9''" demo_srv model_lib demo_sk demo_ck]
    by (simp add: demo_srv_def)
qed

subsection \<open>Interleaved threads\<close>

text \<open>
  A thread has been started for a connection (\<open>Arrived\<close>), holds a slot of the limiter
  (\<open>Serving\<close>), or has ended.  The steps of \<open>Serving\<close> threads on the limiter are
  \<open>touch\<close> and \<open>check_rate\<close>; times are whatever the clock gives.
\<close>

datatype phase = Arrived pystr | Serving pystr | Ended

inductive server_step ::
    "ip_net list \<Rightarrow> rate_limiter \<times> (nat \<Rightarrow> phase option) \<Rightarrow> rate_limiter \<times> (nat \<Rightarrow> phase option) \<Rightarrow> bool"
  for networks where
  accept: "ph k = None \<Longrightarrow> server_step networks (r, ph) (r, ph(k \<mapsto> Arrived ip))"
| deny: "ph k = Some (Arrived ip) \<Longrightarrow> \<not> is_allowed networks ip \<Longrightarrow>
    server_step networks (r, ph) (r, ph(k \<mapsto> Ended))"
| refuse: "ph k = Some (Arrived ip) \<Longrightarrow> is_allowed networks ip \<Longrightarrow>
    try_add_connection now r ip = (False, r') \<Longrightarrow> server_step networks (r, ph) (r', ph(k \<mapsto> Ended))"
| admit: "ph k = Some (Arrived ip) \<Longrightarrow> is_allowed networks ip \<Longrightarrow>
    try_add_connection now r ip = (True, r') \<Longrightarrow> server_step networks (r, ph) (r', ph(k \<mapsto> Serving ip))"
| touched: "ph k = Some (Serving ip) \<Longrightarrow> server_step networks (r, ph) (touch now r ip, ph)"
| checked: "ph k = Some (Serving ip) \<Longrightarrow>
    server_step networks (r, ph) (snd (check_rate t_new t_use r ip), ph)"
| leave: "ph k = Some (Serving ip) \<Longrightarrow>
    server_step networks (r, ph) (remove_connection r ip, ph(k \<mapsto> Ended))"

inductive server_runs for networks where
  none: "server_runs networks s s"
| more: "server_runs networks s t \<Longrightarrow> server_step networks t v \<Longrightarrow> server_runs networks s v"

lemma server_runs_rtranclp: "server_runs networks = rtranclp (server_step networks)"
proof (intro ext iffI)
  show "server_runs networks s t \<Longrightarrow> rtranclp (server_step networks) s t" for s t
    by (induction rule: server_runs.induct) auto
  show "rtranclp (server_step networks) s t \<Longrightarrow> server_runs networks s t" for s t
    by (induction rule: rtranclp_induct) (auto intro: server_runs.intros)
qed

interpretation limiter_sys: run_system "server_step networks" "server_runs networks" for networks
  by unfold_locales (rule server_runs_rtranclp)

text \<open>The open sessions of a phase map: for each address the threads that serve it.\<close>

definition serving :: "(nat \<Rightarrow> phase option) \<Rightarrow> pystr \<Rightarrow> nat set" where
  "serving ph ip = {k. ph k = Some (Serving ip)}"

definition all_serving :: "(nat \<Rightarrow> phase option) \<Rightarrow> nat set" where
  "all_serving ph = {k. \<exists>ip. ph k = Some (Serving ip)}"

definition sessions_of :: "(nat \<Rightarrow> phase option) \<Rightarrow> pystr multiset" where
  "sessions_of ph = image_mset (\<lambda>k. case ph k of Some (Serving ip) \<Rightarrow> ip | _ \<Rightarrow> []) (mset_set (all_serving ph))"

lemma all_serving_upd:
  "all_serving (ph(k \<mapsto> Serving ip)) = insert k (all_serving ph)"
  "all_serving (ph(k \<mapsto> Arrived ip)) = all_serving ph - {k}"
  "all_serving (ph(k \<mapsto> Ended)) = all_serving ph - {k}"
  by (auto simp: all_serving_def)

lemma sessions_of_cong:
  assumes "all_serving ph' = all_serving ph" and "\<And>k. k \<in> all_serving ph \<Longrightarrow> ph' k = ph k"
  shows "sessions_of ph' = sessions_of ph"
proof (cases "finite (all_serving ph)")
  case True
  then show ?thesis unfolding sessions_of_def assms(1) using assms(2) by (intro image_mset_cong) auto
qed (simp add: sessions_of_def assms(1))

lemma sessions_of_admit:
  assumes "finite (all_serving ph)" and "k \<notin> all_serving ph"
  shows "sessions_of (ph(k \<mapsto> Serving ip)) = add_mset ip (sessions_of ph)"
proof -
  have "image_mset (\<lambda>j. case (ph(k \<mapsto> Serving ip)) j of Some (Serving ip) \<Rightarrow> ip | _ \<Rightarrow> []) (mset_set (all_serving ph))
      = image_mset (\<lambda>j. case ph j of Some (Serving ip) \<Rightarrow> ip | _ \<Rightarrow> []) (mset_set (all_serving ph))"
    using assms by (intro image_mset_cong) (auto split: if_splits)
  then show ?thesis using assms by (simp add: sessions_of_def all_serving_upd)
qed

lemma sessions_of_leave:
  assumes "finite (all_serving ph)" and "ph k = Some (Serving ip)"
  shows "sessions_of ph = add_mset ip (sessions_of (ph(k \<mapsto> Ended)))"
proof -
  let ?ph = "ph(k \<mapsto> Ended)"
  have "k \<notin> all_serving ?ph" "finite (all_serving ?ph)"
    using assms by (simp_all add: all_serving_upd)
  from sessions_of_admit [OF this(2,1), of ip] have
    "sessions_of (?ph(k \<mapsto> Serving ip)) = add_mset ip (sessions_of ?ph)" .
  moreover have "?ph(k \<mapsto> Serving ip) = ph" using assms(2) by auto
  ultimately show ?thesis by simp
qed

text \<open>Every step of the threads is a step of the limiter's sessions.\<close>

lemma server_step_sessions:
  assumes "server_step networks (r, ph) (r', ph')"
    and "lim.sessions r0 r (sessions_of ph)" and "finite (all_serving ph)"
  shows "lim.sessions r0 r' (sessions_of ph') \<and> finite (all_serving ph')"
  using assms(1)
proof cases
  case (accept k ip)
  then have "k \<notin> all_serving ph" by (simp add: all_serving_def)
  then have "all_serving ph' = all_serving ph" using accept by (simp add: all_serving_upd)
  moreover from this have "sessions_of ph' = sessions_of ph"
    using accept \<open>k \<notin> all_serving ph\<close> by (intro sessions_of_cong) auto
  ultimately show ?thesis using assms accept by simp
next
  case (deny k ip)
  then have "k \<notin> all_serving ph" by (simp add: all_serving_def)
  then have "all_serving ph' = all_serving ph" using deny by (simp add: all_serving_upd)
  moreover from this have "sessions_of ph' = sessions_of ph"
    using deny \<open>k \<notin> all_serving ph\<close> by (intro sessions_of_cong) auto
  ultimately show ?thesis using assms deny by simp
next
  case (refuse k ip now)
  then have "k \<notin> all_serving ph" by (simp add: all_serving_def)
  then have "all_serving ph' = all_serving ph" using refuse by (simp add: all_serving_upd)
  moreover from this have "sessions_of ph' = sessions_of ph"
    using refuse \<open>k \<notin> all_serving ph\<close> by (intro sessions_of_cong) auto
  ultimately show ?thesis using assms refuse lim.refused by metis
next
  case (admit k ip now)
  then have k: "k \<notin> all_serving ph" by (simp add: all_serving_def)
  show ?thesis
    using admit sessions_of_admit [OF assms(3) k] lim.opened [OF assms(2)] assms(3)
    by (simp add: all_serving_upd)
next
  case (touched k ip now)
  then show ?thesis using assms lim.unrelated [OF assms(2) same_books_touch] by simp
next
  case (checked k ip t_new t_use)
  then show ?thesis using assms lim.unrelated [OF assms(2) same_books_check_rate] by simp
next
  case (leave k ip)
  then show ?thesis
    using assms sessions_of_leave [OF assms(3) leave(3)] lim.closed by (simp add: all_serving_upd)
qed

lemma server_runs_sessions:
  assumes "server_runs networks (r0, Map.empty) (r, ph)"
  shows "lim.sessions r0 r (sessions_of ph) \<and> finite (all_serving ph)"
proof -
  have "lim.sessions r0 (fst (r, ph)) (sessions_of (snd (r, ph))) \<and> finite (all_serving (snd (r, ph)))"
  proof (rule limiter_sys.invariant [OF assms])
    show "lim.sessions r0 (fst (r0, Map.empty)) (sessions_of (snd (r0, Map.empty))) \<and> finite (all_serving (snd (r0, Map.empty)))"
      using lim.start [of r0] by (simp add: sessions_of_def all_serving_def)
    show "lim.sessions r0 (fst v) (sessions_of (snd v)) \<and> finite (all_serving (snd v))"
      if "lim.sessions r0 (fst t) (sessions_of (snd t)) \<and> finite (all_serving (snd t))" and "server_step networks t v" for t v
      using that server_step_sessions [of networks "fst t" "snd t" "fst v" "snd v" r0] by simp
  qed
  then show ?thesis by simp
qed

lemma count_sessions_of:
  assumes "finite (all_serving ph)"
  shows "count (sessions_of ph) ip = card (serving ph ip)" and "size (sessions_of ph) = card (all_serving ph)"
proof -
  let ?f = "\<lambda>k. case ph k of Some (Serving ip) \<Rightarrow> ip | _ \<Rightarrow> []"
  have eq: "{k \<in> all_serving ph. ip = ?f k} = serving ph ip"
    by (auto simp: all_serving_def serving_def)
  have "count (sessions_of ph) ip = (\<Sum>k | k \<in># mset_set (all_serving ph) \<and> ip = ?f k.
      count (mset_set (all_serving ph)) k)"
    unfolding sessions_of_def by (rule count_image_mset')
  also have "\<dots> = (\<Sum>k \<in> {k \<in> all_serving ph. ip = ?f k}. 1)"
    using assms by (intro sum.cong) auto
  also have "\<dots> = card (serving ph ip)" by (simp add: eq)
  finally show "count (sessions_of ph) ip = card (serving ph ip)" .
  show "size (sessions_of ph) = card (all_serving ph)" by (simp add: sessions_of_def)
qed

text \<open>
  Any number of client threads, interleaved in any way: at every moment the limiter's count of
  an address is the number of threads now serving it and its total the number of threads now
  serving anyone, these never exceed the two caps, and only whitelisted addresses are served.
\<close>

lemma limiter_threads_capped:
  assumes "server_runs networks (new_limiter rate cap mi mt idle, Map.empty) (r, ph)"
  shows "conns_for r ip = int (card (serving ph ip)) \<and> total_conns r = int (card (all_serving ph)) \<and>
    int (card (serving ph ip)) \<le> max 0 mi \<and> int (card (all_serving ph)) \<le> max 0 mt \<and>
    (serving ph ip = {} \<or> is_allowed networks ip)"
proof -
  let ?r0 = "new_limiter rate cap mi mt idle"
  have s: "lim.sessions ?r0 r (sessions_of ph)" and fin: "finite (all_serving ph)"
    using server_runs_sessions [OF assms] by simp_all
  note books = lim.sessions_books [OF s new_limiter_unused] and caps = lim.sessions_capped [OF s new_limiter_unused]
  have "\<forall>k ip. snd (r, ph) k = Some (Serving ip) \<longrightarrow> is_allowed networks ip"
  proof (rule limiter_sys.invariant [OF assms])
    show "\<forall>k ip. snd v k = Some (Serving ip) \<longrightarrow> is_allowed networks ip"
      if "\<forall>k ip. snd t k = Some (Serving ip) \<longrightarrow> is_allowed networks ip" and "server_step networks t v" for t v
      using that(2,1) by cases (auto split: if_splits)
  qed simp
  then have "serving ph ip = {} \<or> is_allowed networks ip" by (auto simp: serving_def)
  then show ?thesis
    using books(2) [of ip] books(3) caps(1) [of ip] caps(2) count_sessions_of [OF fin]
    by (simp add: new_limiter_def)
qed

text \<open>
  A thread run alone from start to end is such an interleaving: its effect on the limiter is a
  sequence of steps from \<open>Arrived\<close> to \<open>Ended\<close>.
\<close>

lemma serving_steps:
  assumes "rtranclp (lim_op ip) r r'" and "server_runs networks s (r, ph)" and "ph k = Some (Serving ip)"
  shows "server_runs networks s (r', ph)"
  using assms(1)
proof (induction rule: rtranclp_induct)
  case (step y z)
  have "server_step networks (y, ph) (z, ph)"
    using step.hyps(2) assms(3) unfolding lim_op_def by (metis touched checked)
  then show ?case by (rule server_runs.more [OF step.IH])
qed (rule assms(2))

lemma handle_client_run:
  assumes "ph k = Some (Arrived ip)"
  shows "\<exists>ph'. server_runs networks (lim S, ph) (lim (handle_client L ssk cpk networks ip S), ph') \<and>
    ph' = ph(k \<mapsto> Ended)"
proof (cases "is_allowed networks ip \<and> fst (try_add_connection (mono S (mono_pos S)) (lim S) ip)")
  case False
  note away = handle_client_turned_away(3) [of networks ip S L ssk cpk]
  show ?thesis
  proof (cases "is_allowed networks ip")
    case True
    then have "try_add_connection (mono S (mono_pos S)) (lim S) ip = (False, lim S)"
      using False lim.add_refused [of "mono S (mono_pos S)" "lim S" ip]
      by (cases "try_add_connection (mono S (mono_pos S)) (lim S) ip") auto
    from server_step.refuse [of ph k ip, OF assms True this] show ?thesis
      using away False limiter_sys.one by auto
  next
    case no: False
    from server_step.deny [of ph k ip, OF assms no] show ?thesis
      using away False limiter_sys.one by auto
  qed
next
  case True
  then obtain l where add: "try_add_connection (mono S (mono_pos S)) (lim S) ip = (True, l)"
    by (metis prod.collapse)
  let ?S1 = "S\<lparr>lim := l, mono_pos := Suc (mono_pos S)\<rparr>" and ?ph = "ph(k \<mapsto> Serving ip)"
  let ?l2 = "lim (snd (run_session L ssk cpk ip ?S1))"
  have 1: "server_runs networks (lim S, ph) (l, ?ph)"
    using server_step.admit [of ph k ip, OF assms _ add] True by (blast intro: server_runs.intros)
  have "rtranclp (lim_op ip) (lim ?S1) ?l2"
    using lim_path_run_session [of ip L ssk cpk] unfolding lim_path_def by (rule spec)
  then have "rtranclp (lim_op ip) l ?l2" by simp
  then have 2: "server_runs networks (lim S, ph) (?l2, ?ph)" by (rule serving_steps [OF _ 1, where k = k]) simp
  have "server_step networks (?l2, ?ph) (remove_connection ?l2 ip, ?ph(k \<mapsto> Ended))" by (rule server_step.leave) simp
  from server_runs.more [OF 2 this] show ?thesis
    using handle_client_admitted [OF _ add, of networks L ssk cpk] True by (simp add: Let_def close_conn_def)
qed

lemma demo_runs_two:
  "server_runs [] (new_limiter 1 1 1 2 300, Map.empty)
     (snd (try_add_connection 0 (new_limiter 1 1 1 2 300) (u ''a'')), [0 \<mapsto> Serving (u ''a'')])"
proof -
  let ?r0 = "new_limiter 1 1 1 2 300" and ?a = "u ''a''"
  have add: "try_add_connection 0 ?r0 ?a = (True, snd (try_add_connection 0 ?r0 ?a))"
    by (simp add: lim.add_iff prod_eq_iff) (simp add: new_limiter_def conns_for_def)
  have "server_step [] (?r0, Map.empty) (?r0, Map.empty(0 \<mapsto> Arrived ?a))" by (rule accept) simp
  moreover have "server_step [] (?r0, [0 \<mapsto> Arrived ?a])
      (snd (try_add_connection 0 ?r0 ?a), [0 \<mapsto> Arrived ?a, 0 \<mapsto> Serving ?a])"
    by (rule admit [OF _ _ add]) (simp_all add: is_allowed_def)
  ultimately show ?thesis using limiter_sys.trans [OF limiter_sys.one limiter_sys.one] by simp
qed

lemma limiter_threads_capped_instance:
  "conns_for (snd (try_add_connection 0 (new_limiter 1 1 1 2 300) (u ''a''))) (u ''a'') = 1 \<and>
   total_conns (snd (try_add_connection 0 (new_limiter 1 1 1 2 300) (u ''a''))) = 1"
proof -
  have "serving [0 \<mapsto> Serving (u ''a'')] (u ''a'') = {0}" "all_serving [0 \<mapsto> Serving (u ''a'')] = {0}"
    by (auto simp: serving_def all_serving_def split: if_splits)
  then show ?thesis using limiter_threads_capped [OF demo_runs_two, of "u ''a''"] by simp
qed

end
