(* ===== verification/Tunnel_Refine.thy ===== *)
theory Tunnel_Refine
  imports Tunnel_Props Server_Props Canonical
begin

text \<open>
  Client and server together.  The specification of a session is a direct call: the limiter is
  asked and the forwarder called, with no network, frames or keys (\<open>direct_calls\<close>).  The two ends of
  the tunnel implement it: each request frame of \<open>TunnelClient\<close> is answered by \<open>handle_client\<close> with
  one reply frame, in order, and the client returns what the direct calls return.
\<close>

subsection \<open>The specification\<close>

definition direct_call :: "pystr \<Rightarrow> bytes \<Rightarrow> (server, message_type \<times> bytes) io" where
  "direct_call ip req =
     andThen (lim_touch ip) (\<lambda>_.
     andThen (lim_check_rate ip) (\<lambda>allowed.
     if \<not> allowed then andThen (of_result (utf8_encode RATE_LIMIT_MSG)) (\<lambda>msg. ret (ERROR, msg))
     else andThen (forward_or_500 req) (\<lambda>response. ret (DATA_RESPONSE, response))))"

text \<open>The calls of a session in order, until the address has been idle for too long.\<close>

fun direct_calls :: "pystr \<Rightarrow> bytes list \<Rightarrow> (server, (message_type \<times> bytes) list) io" where
  "direct_calls ip [] = ret []"
| "direct_calls ip (r # rs) =
     andThen (lim_is_idle ip) (\<lambda>idle.
     if idle then ret []
     else andThen (direct_call ip r) (\<lambda>a. andThen (direct_calls ip rs) (\<lambda>as. ret (a # as))))"

fun tunnel_calls ::
    "('sk, 'pk) crypto_lib \<Rightarrow> 'sk \<Rightarrow> 'pk \<Rightarrow> bytes list \<Rightarrow> (tunnel, bytes list) io" where
  "tunnel_calls L csk spk [] = ret []"
| "tunnel_calls L csk spk (r # rs) =
     andThen (do_request L csk spk r) (\<lambda>x. andThen (tunnel_calls L csk spk rs) (\<lambda>xs. ret (x # xs)))"

interpretation tunnel_seq: call_sequence "do_request L csk spk" "tunnel_calls L csk spk" for L csk spk
  by unfold_locales simp_all

subsection \<open>The network does not matter to a call\<close>

definition net_free :: "(server, 'a) io \<Rightarrow> bool" where
  "net_free m \<longleftrightarrow> (\<forall>S c. m (S\<lparr>conn := c\<rparr>) = (fst (m S), (snd (m S))\<lparr>conn := c\<rparr>))"

lemma net_free_run:
  assumes "net_free m" and "m S = (r, S')"
  shows "m (S\<lparr>conn := c\<rparr>) = (r, S'\<lparr>conn := c\<rparr>)"
  using assms by (simp add: net_free_def)

lemma net_free_conn:
  assumes "net_free m" and "m S = (r, S')"
  shows "conn S' = conn S"
proof -
  have "S\<lparr>conn := conn S\<rparr> = S" by simp
  with net_free_run [OF assms, of "conn S"] assms(2) have "S' = S'\<lparr>conn := conn S\<rparr>" by simp
  then show ?thesis by (metis server.select_convs(1) server.surjective server.update_convs(1))
qed

lemma net_free_andThen: "net_free m \<Longrightarrow> (\<And>x. net_free (f x)) \<Longrightarrow> net_free (andThen m f)"
  by (simp add: net_free_def andThen_def split: prod.split sum.split)

lemma net_free_try: "net_free m \<Longrightarrow> (\<And>e. net_free (h e)) \<Longrightarrow> net_free (try_except m h)"
  by (simp add: net_free_def try_except_def split: prod.split sum.split)

lemma net_free_basic [simp]:
  "net_free (ret x)" "net_free (raise e)" "net_free (of_result r)" "net_free (on_fwd m)"
  "net_free monotonic" "net_free (lim_touch ip)" "net_free (lim_check_rate ip)" "net_free (lim_is_idle ip)"
  by (auto simp: net_free_def ret_def raise_def of_result_def on_fwd_def monotonic_def lim_touch_def
      lim_check_rate_def lim_is_idle_def andThen_def Let_def case_prod_beta)

lemma net_free_direct: "net_free (direct_call ip req)"
  unfolding direct_call_def forward_or_500_def
  by (auto intro!: net_free_andThen net_free_try)

lemma net_free_directs: "net_free (direct_calls ip reqs)"
  by (induction reqs) (auto intro!: net_free_andThen net_free_direct)

text \<open>Serving a request is the direct call, then one frame with its answer.\<close>

lemma serve_request_direct:
  "serve_request L ip sid ek mk req =
     andThen (direct_call ip req) (\<lambda>(t, p). on_conn (send_frame L t sid p (Some ek) (Some mk)))"
  unfolding serve_request_def direct_call_def andThen_assoc
  by (rule arg_cong [of _ _ "andThen (lim_touch ip)"], rule ext,
      rule arg_cong [of _ _ "andThen (lim_check_rate ip)"], rule ext)
    (auto simp: andThen_assoc andThen_ret)

subsection \<open>Frames of one side\<close>

lemma sealed_frame_cong:
  "rnd w = rnd v \<Longrightarrow> rnd_pos w = rnd_pos v \<Longrightarrow> sealed_frame L k mk w m = sealed_frame L k mk v m"
  by (simp add: sealed_frame_def)

text \<open>The frames one side sends, each with fresh random bytes.\<close>

fun sealed_frames ::
    "('sk, 'pk) crypto_lib \<Rightarrow> bytes \<Rightarrow> bytes \<Rightarrow> world \<Rightarrow> (message_type \<times> bytes \<times> bytes) list \<Rightarrow> bytes" where
  "sealed_frames L k mk w [] = []"
| "sealed_frames L k mk w (m # ms) =
     sealed_frame L k mk w m @ sealed_frames L k mk (w\<lparr>rnd_pos := rnd_pos w + GCM_NONCE_SIZE\<rparr>) ms"

lemma sealed_frames_cong:
  "rnd w = rnd v \<Longrightarrow> rnd_pos w = rnd_pos v \<Longrightarrow> sealed_frames L k mk w ms = sealed_frames L k mk v ms"
proof (induction ms arbitrary: w v)
  case (Cons m ms)
  then show ?case using sealed_frame_cong [OF Cons.prems, of L k mk m]
    Cons.IH [of "w\<lparr>rnd_pos := rnd_pos w + GCM_NONCE_SIZE\<rparr>" "v\<lparr>rnd_pos := rnd_pos v + GCM_NONCE_SIZE\<rparr>"]
    by simp
qed simp

subsection \<open>The server's side\<close>

lemma serve_loop_answer:
  assumes "aead_ok L" and "fault_free (conn S)" and "length sid = SESSION_ID_SIZE" and "length ek = AES_KEY_SIZE"
    and "lim_is_idle ip S = (Inr False, S1)" and "direct_call ip req S1 = (Inr (t, p), S2)" and "payload_fits p"
    and "carries L (Some ek) (Some mk) (DATA_REQUEST, rsid, req) f" and "arriving (inq (conn S)) = f @ rest"
  obtains q where "arriving q = rest"
    and "serve_loop L ip sid ek mk S = serve_loop L ip sid ek mk (S2\<lparr>conn := (conn S)\<lparr>inq := q,
           rnd_pos := rnd_pos (conn S) + GCM_NONCE_SIZE,
           sent := sent (conn S) @ sealed_frame L ek mk (conn S) (t, sid, p)\<rparr>\<rparr>)"
proof -
  have S1: "S1 = S\<lparr>mono_pos := Suc (mono_pos S)\<rparr>" and live: "\<not> is_idle (mono S (mono_pos S)) (lim S) ip"
    using assms(5) by (auto simp: lim_is_idle_def monotonic_def andThen_def)
  obtain q where r: "recv_frame L (Some ek) (Some mk) (conn S) = (Inr (DATA_REQUEST, rsid, req), (conn S)\<lparr>inq := q\<rparr>)"
    and q: "arriving q = rest" using carries_received [OF assms(8,9)] by metis
  let ?c = "(conn S)\<lparr>inq := q\<rparr>"
  have d: "direct_call ip req (S1\<lparr>conn := ?c\<rparr>) = (Inr (t, p), S2\<lparr>conn := ?c\<rparr>)"
    by (rule net_free_run [OF net_free_direct assms(6)])
  have "send_frame L t sid p (Some ek) (Some mk) ?c = (Inr (), ?c\<lparr>rnd_pos := rnd_pos ?c + GCM_NONCE_SIZE,
      sent := sent ?c @ sealed_frame L ek mk ?c (t, sid, p)\<rparr>)"
    by (rule sealed_frame_sent(1)) (use assms in \<open>simp_all add: fault_free_def\<close>)
  moreover have "sealed_frame L ek mk ?c (t, sid, p) = sealed_frame L ek mk (conn S) (t, sid, p)"
    by (rule sealed_frame_cong) simp_all
  ultimately have s: "serve_request L ip sid ek mk req (S1\<lparr>conn := ?c\<rparr>) = (Inr (), S2\<lparr>conn := (conn S)\<lparr>inq := q,
           rnd_pos := rnd_pos (conn S) + GCM_NONCE_SIZE,
           sent := sent (conn S) @ sealed_frame L ek mk (conn S) (t, sid, p)\<rparr>\<rparr>)"
    using d by (simp add: serve_request_direct andThen_def on_conn_def)
  have "serve_loop L ip sid ek mk S = serve_loop L ip sid ek mk (S2\<lparr>conn := (conn S)\<lparr>inq := q,
           rnd_pos := rnd_pos (conn S) + GCM_NONCE_SIZE,
           sent := sent (conn S) @ sealed_frame L ek mk (conn S) (t, sid, p)\<rparr>\<rparr>)"
    using live r s by (subst serve_loop.simps) (simp add: S1)
  with q show ?thesis by (rule that)
qed

abbreviation requests_of :: "bytes \<Rightarrow> bytes list \<Rightarrow> (message_type \<times> bytes \<times> bytes) list" where
  "requests_of sid reqs \<equiv> map (\<lambda>r. (DATA_REQUEST, sid, r)) reqs"

abbreviation answers_of :: "bytes \<Rightarrow> (message_type \<times> bytes) list \<Rightarrow> (message_type \<times> bytes \<times> bytes) list" where
  "answers_of sid as \<equiv> map (\<lambda>(t, p). (t, sid, p)) as"

lemma serve_loop_answers:
  assumes ok: "aead_ok L" "length sid = SESSION_ID_SIZE" "length ek = AES_KEY_SIZE" "send_faults w = []"
    and "direct_calls ip reqs S = (Inr as, S2)" and "length as = length reqs"
    and "list_all payload_fits reqs" and "list_all (\<lambda>(t, p). payload_fits p) as"
    and "fault_free (conn S)" and "arriving (inq (conn S)) = sealed_frames L ek mk w (requests_of sid reqs) @ rest"
  shows "\<exists>c. serve_loop L ip sid ek mk S = serve_loop L ip sid ek mk (S2\<lparr>conn := c\<rparr>) \<and> arriving (inq c) = rest \<and>
    sent c = sent (conn S) @ sealed_frames L ek mk (conn S) (answers_of sid as)"
  using assms(4-)
proof (induction reqs arbitrary: S S2 w as)
  case Nil
  then show ?case by (intro exI [of _ "conn S"]) (simp add: ret_def)
next
  case (Cons r rs)
  obtain idle S1 where i: "lim_is_idle ip S = (Inr idle, S1)"
    by (auto simp: lim_is_idle_def monotonic_def andThen_def)
  have live: "idle = False" using Cons.prems(2,3) i by (cases idle) (auto simp: andThen_def ret_def)
  obtain t p as' S3 where d: "direct_call ip r S1 = (Inr (t, p), S3)"
    and ds: "direct_calls ip rs S3 = (Inr as', S2)" and as': "as = (t, p) # as'"
    using Cons.prems(2) i live by (auto simp: andThen_eq_Inr_iff ret_def)
  have conn3: "conn S3 = conn S"
    using net_free_conn [OF net_free_basic(8) i] net_free_conn [OF net_free_direct d] by simp
  have req_ok: "carries L (Some ek) (Some mk) (DATA_REQUEST, sid, r) (sealed_frame L ek mk w (DATA_REQUEST, sid, r))"
    using Cons.prems(4) by (intro sealed_frame_sent(2) ok Cons.prems(1)) simp
  have fits: "payload_fits p" using Cons.prems(5) by (simp add: as')
  have a: "arriving (inq (conn S)) = sealed_frame L ek mk w (DATA_REQUEST, sid, r)
      @ sealed_frames L ek mk (w\<lparr>rnd_pos := rnd_pos w + GCM_NONCE_SIZE\<rparr>) (requests_of sid rs) @ rest"
    using Cons.prems(7) by simp
  obtain q where q: "arriving q = sealed_frames L ek mk (w\<lparr>rnd_pos := rnd_pos w + GCM_NONCE_SIZE\<rparr>) (requests_of sid rs) @ rest"
    and step: "serve_loop L ip sid ek mk S = serve_loop L ip sid ek mk (S3\<lparr>conn := (conn S)\<lparr>inq := q,
           rnd_pos := rnd_pos (conn S) + GCM_NONCE_SIZE,
           sent := sent (conn S) @ sealed_frame L ek mk (conn S) (t, sid, p)\<rparr>\<rparr>)"
    by (rule serve_loop_answer [OF ok(1) Cons.prems(6) ok(2,3) i [unfolded live] d fits req_ok a])
  let ?c = "(conn S)\<lparr>inq := q, rnd_pos := rnd_pos (conn S) + GCM_NONCE_SIZE,
           sent := sent (conn S) @ sealed_frame L ek mk (conn S) (t, sid, p)\<rparr>"
  have "direct_calls ip rs (S3\<lparr>conn := ?c\<rparr>) = (Inr as', S2\<lparr>conn := ?c\<rparr>)"
    by (rule net_free_run [OF net_free_directs ds])
  then have "\<exists>c. serve_loop L ip sid ek mk (S3\<lparr>conn := ?c\<rparr>) = serve_loop L ip sid ek mk (S2\<lparr>conn := ?c, conn := c\<rparr>) \<and>
      arriving (inq c) = rest \<and>
      sent c = sent (conn (S3\<lparr>conn := ?c\<rparr>)) @ sealed_frames L ek mk (conn (S3\<lparr>conn := ?c\<rparr>)) (answers_of sid as')"
    by (rule Cons.IH [where w = "w\<lparr>rnd_pos := rnd_pos w + GCM_NONCE_SIZE\<rparr>", rotated])
      (use Cons.prems q as' in \<open>simp_all add: fault_free_def\<close>)
  then obtain c where "serve_loop L ip sid ek mk (S3\<lparr>conn := ?c\<rparr>) = serve_loop L ip sid ek mk (S2\<lparr>conn := c\<rparr>)"
    "arriving (inq c) = rest" "sent c = sent ?c @ sealed_frames L ek mk ?c (answers_of sid as')"
    by auto
  moreover have "sealed_frames L ek mk ?c (answers_of sid as')
      = sealed_frames L ek mk ((conn S)\<lparr>rnd_pos := rnd_pos (conn S) + GCM_NONCE_SIZE\<rparr>) (answers_of sid as')"
    by (rule sealed_frames_cong) simp_all
  ultimately show ?case using step as' by auto
qed

text \<open>The server's side with its frames named: what it does depends on the stream, not on the segments.\<close>

lemma server_answers_calls:
  assumes "aead_ok L" and "length sid = SESSION_ID_SIZE" and "length ek = AES_KEY_SIZE" and "send_faults w = []"
    and "fault_free (conn S)" and "direct_calls ip reqs S = (Inr as, S2)" and "length as = length reqs"
    and "list_all payload_fits reqs" and "list_all (\<lambda>(t, p). payload_fits p) as"
    and "arriving q = sealed_frames L ek mk w (requests_of sid reqs) @ rest"
  shows "\<exists>c. serve_loop L ip sid ek mk (S\<lparr>conn := (conn S)\<lparr>inq := q\<rparr>\<rparr>) = serve_loop L ip sid ek mk (S2\<lparr>conn := c\<rparr>) \<and>
    sent c = sent (conn S) @ sealed_frames L ek mk (conn S) (answers_of sid as) \<and> arriving (inq c) = rest"
proof -
  let ?S = "S\<lparr>conn := (conn S)\<lparr>inq := q\<rparr>\<rparr>" and ?S2 = "S2\<lparr>conn := (conn S)\<lparr>inq := q\<rparr>\<rparr>"
  have d: "direct_calls ip reqs ?S = (Inr as, ?S2)" by (rule net_free_run [OF net_free_directs assms(6)])
  have "\<exists>c. serve_loop L ip sid ek mk ?S = serve_loop L ip sid ek mk (?S2\<lparr>conn := c\<rparr>) \<and> arriving (inq c) = rest \<and>
      sent c = sent (conn ?S) @ sealed_frames L ek mk (conn ?S) (answers_of sid as)"
    by (rule serve_loop_answers [OF assms(1-4) d assms(7-9)]) (use assms in \<open>simp_all add: fault_free_def\<close>)
  moreover have "sealed_frames L ek mk (conn ?S) (answers_of sid as) = sealed_frames L ek mk (conn S) (answers_of sid as)"
    by (rule sealed_frames_cong) simp_all
  ultimately show ?thesis by auto
qed

subsection \<open>The client's side\<close>

definition session_up :: "tunnel \<Rightarrow> bytes \<Rightarrow> bytes \<Rightarrow> bytes \<Rightarrow> bool" where
  "session_up T sid ek mk \<longleftrightarrow> is_connected T \<and> has_sock T \<and> session_id_of T = Some sid \<and>
     enc_key_of T = Some ek \<and> mac_key_of T = Some mk \<and> fault_free (link T) \<and>
     length sid = SESSION_ID_SIZE \<and> length ek = AES_KEY_SIZE"

lemma tunnel_calls_run:
  assumes ok: "aead_ok L"
    and "session_up T sid ek mk" and "list_all payload_fits reqs" and "list_all payload_fits resps"
    and "length reqs = length resps" and "send_faults w = []"
    and "arriving (inq (link T)) = sealed_frames L ek mk w (answers_of sid (map (Pair DATA_RESPONSE) resps)) @ rest"
  shows "\<exists>T'. tunnel_calls L csk spk reqs T = (Inr resps, T') \<and> arriving (inq (link T')) = rest \<and>
    sent (link T') = sent (link T) @ sealed_frames L ek mk (link T) (requests_of sid reqs)"
  using assms(2-)
proof (induction reqs arbitrary: T w resps)
  case Nil
  then show ?case by (simp add: ret_def)
next
  case (Cons r rs)
  obtain p ps where ps: "resps = p # ps" using Cons.prems(4) by (cases resps) auto
  have up: "is_connected T" "has_sock T" "session_id_of T = Some sid" "enc_key_of T = Some ek"
    "mac_key_of T = Some mk" "fault_free (link T)" "length sid = SESSION_ID_SIZE" "length ek = AES_KEY_SIZE"
    using Cons.prems(1) by (simp_all add: session_up_def)
  let ?w = "w\<lparr>rnd_pos := rnd_pos w + GCM_NONCE_SIZE\<rparr>"
  have resp_ok: "carries L (Some ek) (Some mk) (DATA_RESPONSE, sid, p) (sealed_frame L ek mk w (DATA_RESPONSE, sid, p))"
    using Cons.prems(3) ps by (intro sealed_frame_sent(2) ok Cons.prems(5) up) simp
  have fits: "payload_fits r" using Cons.prems(2) by simp
  have a: "arriving (inq (link T)) = sealed_frame L ek mk w (DATA_RESPONSE, sid, p)
      @ sealed_frames L ek mk ?w (answers_of sid (map (Pair DATA_RESPONSE) ps)) @ rest"
    using Cons.prems(6) ps by simp
  obtain q where x: "exchange L sid (Some ek) (Some mk) r (link T)
      = (Inr p, (link T)\<lparr>rnd_pos := rnd_pos (link T) + GCM_NONCE_SIZE,
           sent := sent (link T) @ sealed_frame L ek mk (link T) (DATA_REQUEST, sid, r), inq := q\<rparr>)"
    and q: "arriving q = sealed_frames L ek mk ?w (answers_of sid (map (Pair DATA_RESPONSE) ps)) @ rest"
    by (rule exchange_run [OF ok up(6-8) fits resp_ok a])
  let ?l = "(link T)\<lparr>rnd_pos := rnd_pos (link T) + GCM_NONCE_SIZE,
           sent := sent (link T) @ sealed_frame L ek mk (link T) (DATA_REQUEST, sid, r), inq := q\<rparr>"
  have step: "do_request L csk spk r T = (Inr p, T\<lparr>link := ?l\<rparr>)"
    unfolding do_request_connected [OF up(1-3)] up(4,5) on_link_def x by simp
  have "session_up (T\<lparr>link := ?l\<rparr>) sid ek mk"
    using Cons.prems(1) by (simp add: session_up_def fault_free_def)
  then have "\<exists>T'. tunnel_calls L csk spk rs (T\<lparr>link := ?l\<rparr>) = (Inr ps, T') \<and> arriving (inq (link T')) = rest \<and>
      sent (link T') = sent (link (T\<lparr>link := ?l\<rparr>)) @ sealed_frames L ek mk (link (T\<lparr>link := ?l\<rparr>)) (requests_of sid rs)"
    by (rule Cons.IH [where w = ?w]) (use Cons.prems ps q in simp_all)
  then obtain T' where T': "tunnel_calls L csk spk rs (T\<lparr>link := ?l\<rparr>) = (Inr ps, T')" "arriving (inq (link T')) = rest"
    "sent (link T') = sent ?l @ sealed_frames L ek mk ?l (requests_of sid rs)" by auto
  have "sealed_frames L ek mk ?l (requests_of sid rs)
      = sealed_frames L ek mk ((link T)\<lparr>rnd_pos := rnd_pos (link T) + GCM_NONCE_SIZE\<rparr>) (requests_of sid rs)"
    by (rule sealed_frames_cong) simp_all
  with T' step ps show ?case by (simp add: andThen_def ret_def)
qed

subsection \<open>Refinement\<close>

lemma tunnel_simulates:
  assumes "aead_ok L" and "session_up T sid ek mk" and "fault_free (conn S)"
    and "direct_calls ip reqs S = (Inr (map (Pair DATA_RESPONSE) resps), S2)"
    and "length resps = length reqs" and "list_all payload_fits reqs" and "list_all payload_fits resps"
  shows "\<exists>f g.
    (\<forall>q rest. arriving q = g @ rest \<longrightarrow>
       (\<exists>T'. tunnel_calls L csk spk reqs (T\<lparr>link := (link T)\<lparr>inq := q\<rparr>\<rparr>) = (Inr resps, T') \<and>
             sent (link T') = sent (link T) @ f \<and> arriving (inq (link T')) = rest)) \<and>
    (\<forall>q rest. arriving q = f @ rest \<longrightarrow>
       (\<exists>c. serve_loop L ip sid ek mk (S\<lparr>conn := (conn S)\<lparr>inq := q\<rparr>\<rparr>)
              = serve_loop L ip sid ek mk (S2\<lparr>conn := c\<rparr>) \<and>
            sent c = sent (conn S) @ g \<and> arriving (inq c) = rest))"
proof -
  let ?as = "map (Pair DATA_RESPONSE) resps"
  let ?f = "sealed_frames L ek mk (link T) (requests_of sid reqs)"
  let ?g = "sealed_frames L ek mk (conn S) (answers_of sid ?as)"
  have len: "length sid = SESSION_ID_SIZE" "length ek = AES_KEY_SIZE" and ff: "send_faults (link T) = []"
    "send_faults (conn S) = []"
    using assms(2,3) by (simp_all add: session_up_def fault_free_def)
  have "\<exists>T'. tunnel_calls L csk spk reqs (T\<lparr>link := (link T)\<lparr>inq := q\<rparr>\<rparr>) = (Inr resps, T') \<and>
             sent (link T') = sent (link T) @ ?f \<and> arriving (inq (link T')) = rest"
    if q: "arriving q = ?g @ rest" for q rest
  proof -
    let ?T = "T\<lparr>link := (link T)\<lparr>inq := q\<rparr>\<rparr>"
    have up: "session_up ?T sid ek mk" using assms(2) by (simp add: session_up_def fault_free_def)
    have "arriving (inq (link ?T)) = ?g @ rest" using q by simp
    from tunnel_calls_run [OF assms(1) up assms(6,7) assms(5) [symmetric] ff(2) this, of csk spk]
    have "\<exists>T'. tunnel_calls L csk spk reqs ?T = (Inr resps, T') \<and> arriving (inq (link T')) = rest \<and>
      sent (link T') = sent (link ?T) @ sealed_frames L ek mk (link ?T) (requests_of sid reqs)" .
    moreover have "sealed_frames L ek mk (link ?T) (requests_of sid reqs) = ?f"
      by (rule sealed_frames_cong) simp_all
    ultimately show ?thesis by auto
  qed
  moreover have "\<exists>c. serve_loop L ip sid ek mk (S\<lparr>conn := (conn S)\<lparr>inq := q\<rparr>\<rparr>)
              = serve_loop L ip sid ek mk (S2\<lparr>conn := c\<rparr>) \<and>
            sent c = sent (conn S) @ ?g \<and> arriving (inq c) = rest"
    if q: "arriving q = ?f @ rest" for q rest
    by (rule server_answers_calls [OF assms(1) len ff(1) assms(3,4)]) (use assms q in \<open>simp_all add: list_all_iff\<close>)
  ultimately show ?thesis by blast
qed

text \<open>
  C1. The encrypted session implements direct calls: for every sequence of requests the server
  would answer by direct calls, there are byte strings \<open>f\<close> and \<open>g\<close> such that a client whose stream
  brings \<open>g\<close>, in any segmentation, sends exactly \<open>f\<close> and returns the answers of the direct calls, in
  order, and a server whose stream brings \<open>f\<close>, in any segmentation, sends exactly \<open>g\<close>, reaches the
  state the direct calls reach (limiter, forwarder, clock) and goes on serving.
\<close>

theorem tunnel_implements_direct_calls:
  assumes "aead_ok L" and "session_up T sid ek mk" and "fault_free (conn S)"
    and "direct_calls ip reqs S = (Inr (map (Pair DATA_RESPONSE) resps), S2)"
    and "length resps = length reqs" and "list_all payload_fits reqs" and "list_all payload_fits resps"
  shows "\<exists>f g.
    (\<forall>q rest. arriving q = g @ rest \<longrightarrow>
       (\<exists>T'. tunnel_calls L csk spk reqs (T\<lparr>link := (link T)\<lparr>inq := q\<rparr>\<rparr>) = (Inr resps, T') \<and>
             sent (link T') = sent (link T) @ f \<and> arriving (inq (link T')) = rest)) \<and>
    (\<forall>q rest. arriving q = f @ rest \<longrightarrow>
       (\<exists>c. serve_loop L ip sid ek mk (S\<lparr>conn := (conn S)\<lparr>inq := q\<rparr>\<rparr>)
              = serve_loop L ip sid ek mk (S2\<lparr>conn := c\<rparr>) \<and>
            sent c = sent (conn S) @ g \<and> arriving (inq c) = rest))"
  by (rule tunnel_simulates [OF assms])

text \<open>A session under fixed keys, and a server that has admitted the address.\<close>

definition demo_tunnel :: tunnel where
  "demo_tunnel = demo_lost\<lparr>link := demo_cw\<rparr>"

definition demo_admitted :: server where
  "demo_admitted = demo_srv\<lparr>lim := snd (try_add_connection 0 (new_limiter 10 20 5 50 300) (u ''10.0.0.9''))\<rparr>"

definition demo_get :: bytes where
  "demo_get = encode_request (u ''GET'') (u ''example.org'') [] []"

definition demo_page :: bytes where
  "demo_page = build_response 200 [(u ''Server'', JStr (u ''x''))] [1, 2, 3]"

lemma demo_get_forwarded: "\<exists>F'. forward_request demo_get demo_fw = (Inr demo_page, F')"
proof -
  have up: "upper (u ''GET'') = u ''GET''" by (simp add: upper_def u_Cons)
  have "forward_request demo_get = dispatch (u ''GET'') (JStr (u ''example.org'')) (JObj []) []"
    using forward_encode [of "u ''GET''" "u ''example.org''" "[]" "[]"] up
    by (simp add: headers_ok_def demo_get_def)
  then show ?thesis
    by (simp add: dispatch_def fw_handle_http_def forward_headers_def andThen_def of_result_def
        try_except_def http_request_def read_content_def demo_fw_def ret_def Let_def demo_page_def)
qed

lemma demo_sizes: "payload_fits demo_get" "payload_fits demo_page"
proof -
  note ks = length_dumps_key [of "''method''"] length_dumps_key [of "''GET''"] length_dumps_key [of "''url''"]
    length_dumps_key [of "''example.org''"] length_dumps_key [of "''headers''"] length_dumps_key [of "''body''"]
    length_dumps_key [of "''status_code''"] length_dumps_key [of "''Server''"] length_dumps_key [of "''x''"]
    length_dumps_key [of "[]"] length_dumps_hex [of "[1, 2, 3]"]
  have "length (str_int 200) = 3" by (simp add: str_int_def str_nat.simps)
  then have "length demo_get \<le> 1000" "length demo_page \<le> 1000"
    using ks
    by (simp_all add: demo_get_def demo_page_def encode_request_def build_response_def dumps_bytes_def)
  then show "payload_fits demo_get" "payload_fits demo_page" by (simp_all add: small_fits)
qed

lemma demo_direct: "\<exists>S2. direct_calls (u ''10.0.0.9'') [demo_get] demo_admitted = (Inr [(DATA_RESPONSE, demo_page)], S2)"
proof -
  obtain F' where F': "forward_request demo_get demo_fw = (Inr demo_page, F')" using demo_get_forwarded by blast
  then show ?thesis
    by (simp add: direct_call_def lim_is_idle_def lim_touch_def lim_check_rate_def monotonic_def andThen_def
        ret_def forward_or_500_def try_except_def on_fwd_def demo_admitted_def demo_srv_def new_limiter_def
        try_add_connection_def conns_for_def is_idle_def touch_def check_rate_def new_bucket_def consume_def Let_def)
qed

theorem tunnel_implements_direct_calls_witness:
  "\<exists>g T'. tunnel_calls model_lib [1] [2] [demo_get] (demo_tunnel\<lparr>link := (link demo_tunnel)\<lparr>inq := [Seg g]\<rparr>\<rparr>)
      = (Inr [demo_page], T') \<and> arriving (inq (link T')) = []"
proof -
  obtain S2 where d: "direct_calls (u ''10.0.0.9'') [demo_get] demo_admitted
      = (Inr (map (Pair DATA_RESPONSE) [demo_page]), S2)" using demo_direct by auto
  have up: "session_up demo_tunnel (replicate 16 1) (replicate 32 2) (replicate 32 3)"
    by (simp add: session_up_def demo_tunnel_def demo_lost_def new_tunnel_def fault_free_def wire_simps)
  have ff: "fault_free (conn demo_admitted)"
    by (simp add: demo_admitted_def demo_srv_def fault_free_def world0_def)
  have sizes: "length [demo_page] = length [demo_get]" "list_all payload_fits [demo_get]"
    "list_all payload_fits [demo_page]" using demo_sizes by simp_all
  from tunnel_implements_direct_calls [OF model_lib_ok(1) up ff d sizes, of "[1]" "[2]"]
  obtain f g where g: "\<forall>q rest. arriving q = g @ rest \<longrightarrow>
      (\<exists>T'. tunnel_calls model_lib [1] [2] [demo_get] (demo_tunnel\<lparr>link := (link demo_tunnel)\<lparr>inq := q\<rparr>\<rparr>)
        = (Inr [demo_page], T') \<and> sent (link T') = sent (link demo_tunnel) @ f \<and> arriving (inq (link T')) = rest)"
    by blast
  have "arriving [Seg g] = g @ []" by simp
  with g show ?thesis by blast
qed

end
