(* ===== verification/Proxy_Props.thy ===== *)
theory Proxy_Props
  imports Client_Proxy Tunnel_Refine
begin

text \<open>
  Properties of the local proxy: what a browser gets for a plain request and for a tunnelled
  connection, and three ways in which bytes or truth are lost.
\<close>

subsection \<open>Plain requests\<close>

definition reply_head :: "int \<Rightarrow> (pystr \<times> pystr) list \<Rightarrow> nat \<Rightarrow> pystr" where
  "reply_head n hs len =
     u ''HTTP/1.1 '' @ str_int n @ u '' OK'' @ CRLF
     @ concat (map (\<lambda>(k, v). k @ u '': '' @ v @ CRLF) (filter (\<lambda>(k, _). \<not> hop_by_hop k) hs))
     @ u ''Content-Length: '' @ str_nat len @ CRLF @ u ''Connection: close'' @ CRLF @ CRLF"

lemma header_lines_text:
  assumes "\<And>v. text (JStr v) = v"
  shows "header_lines text (map (\<lambda>(k, v). (k, JStr v)) hs)
    = concat (map (\<lambda>(k, v). k @ u '': '' @ v @ CRLF) (filter (\<lambda>(k, _). \<not> hop_by_hop k) hs))"
  using assms by (induction hs) (auto simp: header_lines_def)

lemma scalar_str_nat: "list_all scalar (str_nat n)"
proof -
  have "scalar c" if "c \<in> set (str_nat n)" for c
    using str_nat_digits [OF that] by (simp add: scalar_def is_surrogate_def is_digit_def)
  then show ?thesis by (simp add: list_all_iff)
qed

lemma scalar_reply_head: "headers_ok hs \<Longrightarrow> list_all scalar (reply_head n hs len)"
proof -
  assume "headers_ok hs"
  then have "list_all scalar (concat (map (\<lambda>(k, v). k @ u '': '' @ v @ CRLF) (filter (\<lambda>(k, _). \<not> hop_by_hop k) hs)))"
    using scalar_u' [of "'': ''"]
    by (auto simp: list_all_iff headers_ok_def text_ok_def CRLF_def scalar_def is_surrogate_def)
  moreover have "list_all scalar CRLF" by (simp add: CRLF_def scalar_def is_surrogate_def)
  moreover have "list_all scalar (str_int n)"
    using scalar_str_nat by (simp add: str_int_def scalar_def is_surrogate_def)
  ultimately show ?thesis by (simp add: reply_head_def scalar_str_nat)
qed

lemma raw_response_built:
  assumes "headers_ok hs"
  shows "\<exists>head. utf8_encode (reply_head n hs (length body)) = Inr head \<and>
    raw_response (str_json B) (JInt n) (map (\<lambda>(k, v). (k, JStr v)) hs) body = Inr (head @ body)"
proof -
  obtain head where h: "utf8_encode (reply_head n hs (length body)) = Inr head"
    using scalar_reply_head [OF assms, of n "length body"] by (simp add: utf8_encode_def)
  have "str_json B (JInt n) = str_int n" "\<And>v. str_json B (JStr v) = v"
    by (simp_all add: str_json_def str_scalar_def)
  then show ?thesis using h by (simp add: raw_response_def header_lines_text reply_head_def)
qed

lemma plain_http_served:
  assumes "browser_recv B = (Inr raw, B1)" and "raw \<noteq> []"
    and "browser_request raw = Inr (Http_to verb url lines body)"
    and "send_request L csk spk (encode_request verb url (parse_headers lines) body) (tun B)
      = (Inr (build_response n (map (\<lambda>(k, v). (k, JStr v)) hs) page), T')"
    and "headers_ok hs" and "b_faults B = []"
  shows "\<exists>head. utf8_encode (reply_head n hs (length page)) = Inr head \<and>
    handle_browser L csk spk B = B1\<lparr>tun := T', b_sent := b_sent B @ head @ page, b_open := False\<rparr>"
proof -
  have B1: "tun B1 = tun B" "b_faults B1 = []" "b_sent B1 = b_sent B"
    using assms(1,6) by (auto simp: browser_recv_def Let_def split: prod.splits)
  obtain head where h: "utf8_encode (reply_head n hs (length page)) = Inr head"
    "raw_response (str_json (B1\<lparr>tun := T'\<rparr>)) (JInt n) (map (\<lambda>(k, v). (k, JStr v)) hs) page = Inr (head @ page)"
    using raw_response_built [OF assms(5)] by blast
  have "px_handle_http L csk spk verb url lines body B1 = (Inr (), B1\<lparr>tun := T', b_sent := b_sent B @ head @ page\<rparr>)"
    using assms(4) B1 h(2) decode_headers [OF assms(5), of n page]
    by (simp add: px_handle_http_def andThen_def on_tun_def of_result_def try_except_def browser_sendall_def)
  then have "serve_browser L csk spk B = (Inr (), B1\<lparr>tun := T', b_sent := b_sent B @ head @ page\<rparr>)"
    using assms(1-3) by (simp add: serve_browser_def andThen_def of_result_def)
  with h(1) show ?thesis by (auto simp: handle_browser_def)
qed

text \<open>
  A plain request is answered through the tunnel: the browser gets one response, with the
  status code, the end-to-end headers in order, the length of the body and exactly the body the
  server built, its connection is closed, and nothing else is written to it.
\<close>

lemma plain_http_proxied:
  assumes "browser_recv B = (Inr raw, B1)" and "raw \<noteq> []"
    and "browser_request raw = Inr (Http_to verb url lines body)"
    and "send_request L csk spk (encode_request verb url (parse_headers lines) body) (tun B)
      = (Inr (build_response n (map (\<lambda>(k, v). (k, JStr v)) hs) page), T')"
    and "headers_ok hs" and "b_faults B = []"
  shows "\<exists>head. utf8_encode (reply_head n hs (length page)) = Inr head \<and>
    handle_browser L csk spk B = B1\<lparr>tun := T', b_sent := b_sent B @ head @ page, b_open := False\<rparr>"
  by (rule plain_http_served [OF assms])

text \<open>A browser's request line, and a tunnel whose next frame is a page.\<close>

definition demo_line :: pystr where
  "demo_line = u ''GET a b'' @ CRLF @ CRLF"

definition demo_answer :: "bytes \<Rightarrow> tunnel" where
  "demo_answer page = demo_lost\<lparr>link := demo_cw\<lparr>inq :=
     [Seg (sealed_frame model_lib (replicate 32 2) (replicate 32 3) world0 (DATA_RESPONSE, replicate 16 1, page))]\<rparr>\<rparr>"

definition demo_browser :: "net_event list \<Rightarrow> bytes \<Rightarrow> browser" where
  "demo_browser q page = \<lparr>b_inq = q, b_sent = [], b_faults = [], b_blocking = True, b_open = True,
     tun = demo_answer page, container_str = (\<lambda>_. [])\<rparr>"

lemma demo_answer_sends:
  assumes "payload_fits page" and "payload_fits req"
  shows "\<exists>T'. send_request model_lib csk spk req (demo_answer page) = (Inr page, T')"
proof -
  let ?ek = "replicate 32 2 :: bytes" and ?mk = "replicate 32 3 :: bytes" and ?sid = "replicate 16 1 :: bytes"
  let ?T = "demo_answer page"
  have T: "is_connected ?T" "has_sock ?T" "session_id_of ?T = Some ?sid" "enc_key_of ?T = Some ?ek"
    "mac_key_of ?T = Some ?mk" "1 \<le> max_retries ?T" "fault_free (link ?T)"
    by (simp_all add: demo_answer_def demo_lost_def new_tunnel_def fault_free_def)
  have len: "length ?sid = SESSION_ID_SIZE" "length ?ek = AES_KEY_SIZE" "send_faults world0 = []"
    by (simp_all add: wire_simps world0_def)
  note g = sealed_frame_sent(2) [OF model_lib_ok(1) len(3,1,2) assms(1), of ?mk DATA_RESPONSE]
  have a: "arriving (inq (link ?T)) = sealed_frame model_lib ?ek ?mk world0 (DATA_RESPONSE, ?sid, page) @ []"
    by (simp add: demo_answer_def)
  obtain w where "exchange model_lib ?sid (Some ?ek) (Some ?mk) req (link ?T) = (Inr page, w)"
    by (rule exchange_run [OF model_lib_ok(1) T(7) len(1,2) assms(2) g a])
  then have "do_request model_lib csk spk req ?T = (Inr page, ?T\<lparr>link := w\<rparr>)"
    unfolding do_request_connected [OF T(1-3)] T(4,5) by (simp add: on_link_def)
  from send_request_first [OF this T(6)] show ?thesis by blast
qed

lemma demo_line_parsed:
  "browser_request (ascii_bytes demo_line) = Inr (Http_to (u ''GET'') (u ''a'') [] [])"
proof -
  have "is_ascii demo_line" by (simp add: demo_line_def u_Cons CRLF_def)
  then have d: "utf8_decode_replace (ascii_bytes demo_line) = demo_line"
    using utf8_decode_replace_encode utf8_encode_ascii by blast
  have s: "split_str CRLF demo_line = [u ''GET a b'', [], []]"
    by (simp add: split_str.simps demo_line_def CRLF_def u_Cons)
  have p: "split_on 32 (u ''GET a b'') = [u ''GET'', u ''a'', u ''b'']" by (simp add: u_Cons)
  have o: "split_once (CRLF @ CRLF) demo_line = [u ''GET a b'', []]"
    by (simp add: split_once_def demo_line_def CRLF_def u_Cons)
  have l: "split_str CRLF (u ''GET a b'') = [u ''GET a b'']"
    by (simp add: split_str.simps CRLF_def u_Cons)
  have "upper (u ''GET'') = u ''GET''" by (simp add: upper_def u_Cons)
  then show ?thesis
    by (simp add: browser_request_def d s p o l Let_def utf8_encode_def)
qed

lemma parse_no_headers: "parse_headers [] = []"
  by (simp add: parse_headers_def split_str.simps CRLF_def header_of_def split_once_def u_Cons)

lemma demo_line_fits: "payload_fits (encode_request (u ''GET'') (u ''a'') [] [])"
proof (rule small_fits)
  show "length (encode_request (u ''GET'') (u ''a'') [] []) \<le> 1000"
    using length_dumps_key [of "''method''"] length_dumps_key [of "''GET''"] length_dumps_key [of "''url''"]
      length_dumps_key [of "''a''"] length_dumps_key [of "''headers''"] length_dumps_key [of "''body''"]
      length_dumps_key [of "[]"]
    by (simp add: encode_request_def dumps_bytes_def)
qed

lemma plain_http_proxied_instance:
  "\<exists>head. utf8_encode (reply_head 200 [(u ''Server'', u ''x'')] 3) = Inr head \<and>
    b_sent (handle_browser model_lib [1] [2] (demo_browser [Seg (ascii_bytes demo_line)] demo_page)) = head @ [1, 2, 3]"
proof -
  let ?B = "demo_browser [Seg (ascii_bytes demo_line)] demo_page"
  let ?hs = "[(u ''Server'', u ''x'')]"
  note ph = parse_no_headers
  have ne: "ascii_bytes demo_line \<noteq> []" by (simp add: ascii_bytes_def demo_line_def u_Cons)
  have ln: "length (ascii_bytes demo_line) = 11" by (simp add: demo_line_def CRLF_def)
  obtain B1 where r: "browser_recv ?B = (Inr (ascii_bytes demo_line), B1)" and s: "tun ?B = demo_answer demo_page"
    using ne ln by (cases "ascii_bytes demo_line")
      (auto simp: browser_recv_def demo_browser_def BUFFER_SIZE_def)
  have pg: "build_response 200 (map (\<lambda>(k, v). (k, JStr v)) ?hs) [1, 2, 3] = demo_page" by (simp add: demo_page_def)
  obtain T' where t: "send_request model_lib [1] [2] (encode_request (u ''GET'') (u ''a'') (parse_headers []) []) (tun ?B)
      = (Inr (build_response 200 (map (\<lambda>(k, v). (k, JStr v)) ?hs) [1, 2, 3]), T')"
    using demo_answer_sends [OF demo_sizes(2) demo_line_fits, of "[1]" "[2]"] unfolding s ph pg by blast
  have "b_faults ?B = []" "b_sent ?B = []" by (simp_all add: demo_browser_def)
  with plain_http_proxied [OF r ne demo_line_parsed t _ this(1)] show ?thesis
    by (auto simp: headers_ok_def numeral_3_eq_3)
qed

text \<open>Handling a plain request does not look at the browser's stream again.\<close>

lemma px_handle_http_inq:
  "px_handle_http L csk spk verb url lines body (B\<lparr>b_inq := q\<rparr>)
    = (fst (px_handle_http L csk spk verb url lines body B),
       (snd (px_handle_http L csk spk verb url lines body B))\<lparr>b_inq := q\<rparr>)"
proof -
  obtain r T where s: "send_request L csk spk (encode_request verb url (parse_headers lines) body) (tun B) = (r, T)"
    by force
  have [simp]: "str_json (B\<lparr>b_inq := q, tun := T\<rparr>) = str_json (B\<lparr>tun := T\<rparr>)"
    "exn_str (B\<lparr>b_inq := q, tun := T\<rparr>) = exn_str (B\<lparr>tun := T\<rparr>)"
    by (simp_all add: fun_eq_iff str_json_def exn_str_def split: json.split)
  show ?thesis
    using s
    by (auto simp: px_handle_http_def andThen_def on_tun_def of_result_def ret_def raise_def try_except_def
        browser_sendall_def Let_def split: sum.splits prod.splits json.splits list.splits option.splits)
qed

text \<open>
  Only the first chunk of a plain request is forwarded: whatever the browser sends after it (the
  rest of a body in a later TCP segment, or beyond 64 KiB) is neither read nor waited for, and the
  connection is served and closed exactly as if it had never been sent.
\<close>

lemma later_segments_dropped:
  assumes "b_blocking B" and "b_inq B = Seg raw # q" and "raw \<noteq> []" and "length raw \<le> BUFFER_SIZE"
    and "browser_request raw = Inr (Http_to verb url lines body)"
  shows "handle_browser L csk spk (B\<lparr>b_inq := Seg raw # rest\<rparr>) = (handle_browser L csk spk B)\<lparr>b_inq := rest\<rparr> \<and>
    b_inq (handle_browser L csk spk B) = q"
proof -
  have recv: "browser_recv (B\<lparr>b_inq := Seg raw # x\<rparr>) = (Inr raw, B\<lparr>b_inq := x\<rparr>)" for x
    using assms(1,3,4) by (cases raw) (simp_all add: browser_recv_def)
  have serve: "serve_browser L csk spk (B\<lparr>b_inq := Seg raw # x\<rparr>)
      = px_handle_http L csk spk verb url lines body (B\<lparr>b_inq := x\<rparr>)" for x
    using recv [of x] assms(3,5) by (simp add: serve_browser_def andThen_def of_result_def)
  have B: "B = B\<lparr>b_inq := Seg raw # q\<rparr>" using assms(2) by simp
  let ?p = "px_handle_http L csk spk verb url lines body"
  have "handle_browser L csk spk B = (snd (?p (B\<lparr>b_inq := q\<rparr>)))\<lparr>b_open := False\<rparr>"
    unfolding handle_browser_def by (subst B) (simp only: serve)
  moreover have "handle_browser L csk spk (B\<lparr>b_inq := Seg raw # rest\<rparr>) = (snd (?p (B\<lparr>b_inq := rest\<rparr>)))\<lparr>b_open := False\<rparr>"
    unfolding handle_browser_def by (simp only: serve)
  ultimately show ?thesis by (simp add: px_handle_http_inq)
qed

lemma later_segments_dropped_demo:
  "b_sent (handle_browser model_lib [1] [2] (demo_browser [Seg (ascii_bytes demo_line), Seg [7, 8, 9]] demo_page))
    = b_sent (handle_browser model_lib [1] [2] (demo_browser [Seg (ascii_bytes demo_line)] demo_page))"
proof -
  let ?B = "demo_browser [Seg (ascii_bytes demo_line)] demo_page"
  have ne: "ascii_bytes demo_line \<noteq> []" by (simp add: ascii_bytes_def demo_line_def u_Cons)
  have ln: "length (ascii_bytes demo_line) \<le> BUFFER_SIZE" by (simp add: demo_line_def CRLF_def BUFFER_SIZE_def)
  have B: "b_blocking ?B" "b_inq ?B = Seg (ascii_bytes demo_line) # []" by (simp_all add: demo_browser_def)
  have "demo_browser [Seg (ascii_bytes demo_line), Seg [7, 8, 9]] demo_page
      = ?B\<lparr>b_inq := Seg (ascii_bytes demo_line) # [Seg [7, 8, 9]]\<rparr>"
    by (simp add: demo_browser_def)
  with later_segments_dropped [OF B ne ln demo_line_parsed, of "model_lib" "[1]" "[2]" "[Seg [7, 8, 9]]"]
  show ?thesis by simp
qed

subsection \<open>Tunnelled connections\<close>

text \<open>
  The browser is told that a tunnelled connection stands before anyone has tried: also when the
  tunnel fails or the server answers with its 502 page, the browser has been sent
  \<open>200 Connection Established\<close> and nothing else, and its connection is closed.
\<close>

lemma established_before_dialling:
  assumes "browser_recv B = (Inr raw, B1)" and "raw \<noteq> []"
    and "browser_request raw = Inr (Connect_to (host, port))" and "b_faults B = []"
    and "send_request L csk spk (connect_request (target_url host port)) (tun B) = (r, T')"
    and "(\<exists>e. r = Inl e) \<or> (\<exists>page. error_response 502 page = r)"
  shows "handle_browser L csk spk B = B1\<lparr>tun := T', b_sent := b_sent B @ ESTABLISHED, b_open := False\<rparr>"
proof -
  have B1: "tun B1 = tun B" "b_faults B1 = []" "b_sent B1 = b_sent B"
    using assms(1,4) by (auto simp: browser_recv_def Let_def split: prod.splits)
  let ?B2 = "B1\<lparr>b_sent := b_sent B @ ESTABLISHED\<rparr>"
  have est: "browser_sendall ESTABLISHED B1 = (Inr (), ?B2)" by (simp add: browser_sendall_def B1)
  have tun: "on_tun (send_request L csk spk (connect_request (target_url host port))) ?B2 = (r, ?B2\<lparr>tun := T'\<rparr>)"
    using assms(5) B1 by (simp add: on_tun_def)
  have "px_handle_connect L csk spk host port B1 = (Inr (), ?B2\<lparr>tun := T'\<rparr>)"
  proof (cases r)
    case (Inl e)
    then show ?thesis using est tun
      by (simp add: px_handle_connect_def andThen_def try_except_def ret_def)
  next
    case (Inr resp)
    then obtain body where resp: "resp = build_response 502 [(u ''Content-Type'', JStr (u ''text/html''))] body"
      using assms(6) by (auto simp: error_response_def bind_res_eq_Inr_iff)
    have "wf_json (JObj [(u ''status_code'', JInt 502), (u ''headers'', JObj [(u ''Content-Type'', JStr (u ''text/html''))]),
        (u ''body'', JStr (hex body))])" by simp
    from loads_dumps_bytes [OF this] have "loads_bytes resp = Inr (JObj [(u ''status_code'', JInt 502),
        (u ''headers'', JObj [(u ''Content-Type'', JStr (u ''text/html''))]), (u ''body'', JStr (hex body))])"
      by (simp only: resp build_response_def)
    then show ?thesis using est tun Inr
      by (simp add: px_handle_connect_def andThen_def try_except_def ret_def of_result_def json_get_def
          get_default_def is_200_def)
  qed
  then have "serve_browser L csk spk B = (Inr (), ?B2\<lparr>tun := T'\<rparr>)"
    using assms(1-3) by (simp add: serve_browser_def andThen_def of_result_def)
  then show ?thesis by (simp add: handle_browser_def)
qed

definition demo_connect_line :: pystr where
  "demo_connect_line = u ''CONNECT h x'' @ CRLF @ CRLF"

lemma demo_connect_parsed:
  "browser_request (ascii_bytes demo_connect_line) = Inr (Connect_to (u ''h'', 443))"
proof -
  have "is_ascii demo_connect_line" by (simp add: demo_connect_line_def u_Cons CRLF_def)
  then have d: "utf8_decode_replace (ascii_bytes demo_connect_line) = demo_connect_line"
    using utf8_decode_replace_encode utf8_encode_ascii by blast
  have s: "split_str CRLF demo_connect_line = [u ''CONNECT h x'', [], []]"
    by (simp add: split_str.simps demo_connect_line_def CRLF_def u_Cons)
  have p: "split_on 32 (u ''CONNECT h x'') = [u ''CONNECT'', u ''h'', u ''x'']" by (simp add: u_Cons)
  have m: "upper (u ''CONNECT'') = u ''CONNECT''" by (simp add: upper_def u_Cons)
  have "58 \<notin> set (u ''h'')" by (simp add: u_Cons)
  then show ?thesis by (simp add: browser_request_def d s p m Let_def)
qed

lemma established_before_dialling_instance:
  "b_sent (handle_browser model_lib [1] [2]
     ((demo_browser [Seg (ascii_bytes demo_connect_line)] [])\<lparr>tun := demo_down\<rparr>)) = ESTABLISHED"
proof -
  let ?B = "(demo_browser [Seg (ascii_bytes demo_connect_line)] [])\<lparr>tun := demo_down\<rparr>"
  have ne: "ascii_bytes demo_connect_line \<noteq> []" by (simp add: ascii_bytes_def demo_connect_line_def u_Cons)
  have ln: "length (ascii_bytes demo_connect_line) = 15" by (simp add: demo_connect_line_def CRLF_def)
  have r: "browser_recv ?B = (Inr (ascii_bytes demo_connect_line), ?B\<lparr>b_inq := []\<rparr>)"
    using ne ln by (cases "ascii_bytes demo_connect_line") (simp_all add: browser_recv_def demo_browser_def BUFFER_SIZE_def)
  obtain x T' where t: "send_request model_lib [1] [2] (connect_request (target_url (u ''h'') 443)) (tun ?B) = (Inl x, T')"
  proof -
    have "\<exists>x. fst (send_request model_lib [1] [2] (connect_request (target_url (u ''h'') 443)) demo_down) = Inl x"
      unfolding send_request_def
      by (rule attempts_loop_down [of _ "Lib ConnectionErrorC"]) (simp_all add: demo_down_def new_tunnel_def)
    then show ?thesis using that by (cases "send_request model_lib [1] [2] (connect_request (target_url (u ''h'') 443)) demo_down") auto
  qed
  show ?thesis
    using established_before_dialling [OF r ne demo_connect_parsed _ t] by (simp add: demo_browser_def)
qed

subsection \<open>Relaying\<close>

text \<open>The chunks of the browser, and a tunnel that answers each of them.\<close>

fun chunks_in :: "net_event list \<Rightarrow> bytes list" where
  "chunks_in [] = []"
| "chunks_in (Seg d # q) = d # chunks_in q"
| "chunks_in (_ # q) = chunks_in q"

definition chunk_event :: "net_event \<Rightarrow> bool" where
  "chunk_event ev \<longleftrightarrow>
     (case ev of Seg d \<Rightarrow> d \<noteq> [] \<and> length d \<le> BUFFER_SIZE | Stall \<Rightarrow> True | Reset \<Rightarrow> False)"

fun relayed ::
    "('sk, 'pk) crypto_lib \<Rightarrow> 'sk \<Rightarrow> 'pk \<Rightarrow> pystr \<Rightarrow> tunnel \<Rightarrow> bytes list \<Rightarrow> bytes list \<Rightarrow> tunnel \<Rightarrow> bool" where
  "relayed L csk spk url T [] [] T' \<longleftrightarrow> T' = T"
| "relayed L csk spk url T (d # ds) (out # outs) T' \<longleftrightarrow>
     (\<exists>T1. send_request L csk spk (relay_request url d) T = (Inr (relay_reply out False), T1) \<and>
           relayed L csk spk url T1 ds outs T')"
| "relayed L csk spk url T _ _ T' \<longleftrightarrow> False"

lemma loads_relay_reply:
  "loads_bytes (relay_reply out shut) = Inr (JObj [(u ''status_code'', JInt 200), (u ''headers'', JObj []),
     (u ''body'', JStr (hex out)), (u ''closed'', JBool shut)])"
proof -
  have "wf_json (JObj [(u ''status_code'', JInt 200), (u ''headers'', JObj []),
       (u ''body'', JStr (hex out)), (u ''closed'', JBool shut)])" by simp
  then show ?thesis unfolding relay_reply_def by (rule loads_dumps_bytes)
qed

lemma relay_once_run:
  assumes "send_request L csk spk (relay_request url d) (tun B) = (Inr (relay_reply out shut), T')"
  shows "relay_once L csk spk url d B =
    andThen (if out \<noteq> [] then browser_sendall out else ret ()) (\<lambda>_. ret shut) (B\<lparr>tun := T'\<rparr>)"
  using assms
  by (simp add: relay_once_def andThen_def on_tun_def of_result_def loads_relay_reply json_get_def
      get_default_def truthy_def body_bytes_def ret_def split: sum.split prod.split)

text \<open>One turn of the relay loop: over a silence, and over a chunk that the tunnel answers.\<close>

lemma relay_silence:
  assumes "\<not> b_blocking B" and "b_inq B = Stall # q"
  shows "relay_browser L csk spk url B = relay_browser L csk spk url (B\<lparr>b_inq := q\<rparr>)"
proof -
  have "browser_recv B = (Inl (Lib BlockingIOErrorC), B\<lparr>b_inq := q\<rparr>)" using assms by (simp add: browser_recv_def)
  then show ?thesis by (subst relay_browser.simps) (simp add: is_subclass.simps)
qed

lemma relay_chunk:
  assumes "\<not> b_blocking B" and "b_faults B = []" and "b_inq B = Seg d # q" and "d \<noteq> []" and "length d \<le> BUFFER_SIZE"
    and "send_request L csk spk (relay_request url d) (tun B) = (Inr (relay_reply out False), T1)"
  shows "relay_browser L csk spk url B
    = relay_browser L csk spk url (B\<lparr>b_inq := q, tun := T1, b_sent := b_sent B @ out\<rparr>)"
proof -
  let ?B = "B\<lparr>b_inq := q\<rparr>"
  have r: "browser_recv B = (Inr d, ?B)" using assms(1,3-5) by (simp add: browser_recv_def)
  have "send_request L csk spk (relay_request url d) (tun ?B) = (Inr (relay_reply out False), T1)"
    using assms(6) by simp
  from relay_once_run [OF this]
  have "relay_once L csk spk url d ?B = (Inr False, ?B\<lparr>tun := T1, b_sent := b_sent B @ out\<rparr>)"
    using assms(2) by (cases "out = []") (simp_all add: andThen_def ret_def browser_sendall_def)
  then show ?thesis using r assms(4) by (subst relay_browser.simps) simp
qed

text \<open>
  C22. A tunnelled connection is relayed in order and completely: for every sequence of chunks the
  browser sends, with any silences between them, if the tunnel answers each chunk, the browser
  is sent exactly the concatenation of the answers, and the loop ends when the browser closes.
\<close>

theorem relay_in_order:
  assumes "\<not> b_blocking B" and "b_faults B = []" and "list_all chunk_event (b_inq B)"
    and "relayed L csk spk url (tun B) (chunks_in (b_inq B)) outs T'"
  shows "relay_browser L csk spk url B = B\<lparr>b_inq := [], tun := T', b_sent := b_sent B @ concat outs\<rparr>"
  using assms
proof (induction "b_inq B" arbitrary: B outs)
  case Nil
  then have "browser_recv B = (Inr [], B\<lparr>b_inq := []\<rparr>)" by (simp add: browser_recv_def flip: Nil.hyps)
  moreover have "outs = []" "T' = tun B" using Nil by (cases outs; simp flip: Nil.hyps)+
  ultimately show ?case by (simp add: relay_browser.simps [of L csk spk url B])
next
  case (Cons ev q)
  note inq = Cons.hyps(2) [symmetric]
  show ?case
  proof (cases ev)
    case Stall
    let ?B = "B\<lparr>b_inq := q\<rparr>"
    have "relay_browser L csk spk url ?B = ?B\<lparr>b_inq := [], tun := T', b_sent := b_sent ?B @ concat outs\<rparr>"
      by (rule Cons.hyps(1)) (use Cons.prems in \<open>simp_all add: inq Stall\<close>)
    then show ?thesis using relay_silence [OF Cons.prems(1) inq [unfolded Stall], of L csk spk url] by simp
  next
    case Reset
    then show ?thesis using Cons.prems(3) by (simp add: inq chunk_event_def)
  next
    case (Seg d)
    then have d: "d \<noteq> []" "length d \<le> BUFFER_SIZE" using Cons.prems(3) by (simp_all add: inq chunk_event_def)
    obtain out outs' T1 where outs: "outs = out # outs'"
      and s: "send_request L csk spk (relay_request url d) (tun B) = (Inr (relay_reply out False), T1)"
      and rest: "relayed L csk spk url T1 (chunks_in q) outs' T'"
      using Cons.prems(4) by (cases outs) (auto simp: inq Seg)
    let ?B = "B\<lparr>b_inq := q, tun := T1, b_sent := b_sent B @ out\<rparr>"
    have "relay_browser L csk spk url ?B = ?B\<lparr>b_inq := [], tun := T', b_sent := b_sent ?B @ concat outs'\<rparr>"
      by (rule Cons.hyps(1)) (use Cons.prems rest in \<open>simp_all add: inq Seg\<close>)
    then show ?thesis using relay_chunk [OF Cons.prems(1,2) inq [unfolded Seg] d s] by (simp add: outs)
  qed
qed

lemma demo_relay_sizes: "payload_fits (relay_reply [104, 105] shut)" "payload_fits (relay_request (u ''h:443'') [1])"
proof -
  note ks = length_dumps_key [of "''method''"] length_dumps_key [of "''RELAY''"] length_dumps_key [of "''url''"]
    length_dumps_key [of "''h:443''"] length_dumps_key [of "''headers''"] length_dumps_key [of "''body''"]
    length_dumps_key [of "''status_code''"] length_dumps_key [of "''closed''"]
    length_dumps_hex [of "[104, 105]"] length_dumps_hex [of "[1]"]
  have "length (str_int 200) = 3" by (simp add: str_int_def str_nat.simps)
  then have "length (relay_reply [104, 105] shut) \<le> 1000" "length (relay_request (u ''h:443'') [1]) \<le> 1000"
    using ks by (simp_all add: relay_reply_def relay_request_def dumps_bytes_def)
  then show "payload_fits (relay_reply [104, 105] shut)" "payload_fits (relay_request (u ''h:443'') [1])"
    by (simp_all add: small_fits)
qed

definition demo_relay :: browser where
  "demo_relay = (demo_browser [Stall, Seg [1]] (relay_reply [104, 105] False))\<lparr>b_blocking := False\<rparr>"

lemma demo_relay_answers:
  "\<exists>T'. send_request model_lib [1] [2] (relay_request (u ''h:443'') [1]) (tun demo_relay)
     = (Inr (relay_reply [104, 105] False), T')"
  using demo_answer_sends [OF demo_relay_sizes, of "[1]" "[2]"]
  by (simp add: demo_relay_def demo_browser_def)

theorem relay_in_order_witness:
  "b_sent (relay_browser model_lib [1] [2] (u ''h:443'') demo_relay) = [104, 105]"
proof -
  obtain T' where "send_request model_lib [1] [2] (relay_request (u ''h:443'') [1]) (tun demo_relay)
     = (Inr (relay_reply [104, 105] False), T')" using demo_relay_answers by blast
  then have "relayed model_lib [1] [2] (u ''h:443'') (tun demo_relay) (chunks_in (b_inq demo_relay)) [[104, 105]] T'"
    by (simp add: demo_relay_def demo_browser_def)
  from relay_in_order [OF _ _ _ this] show ?thesis
    by (simp add: demo_relay_def demo_browser_def chunk_event_def BUFFER_SIZE_def)
qed

text \<open>
  Bytes of a tunnelled connection can be lost without an error: after CONNECT the browser's socket
  is non-blocking, and when a send to it would block after \<open>k\<close> bytes, the loop takes the exception
  for an empty read: the rest of the answer is dropped, no error is raised, and relaying goes on.
\<close>

lemma blocked_send_loses_bytes:
  assumes "\<not> b_blocking B" and "b_inq B = Seg d # q" and "d \<noteq> []" and "length d \<le> BUFFER_SIZE"
    and "b_faults B = Some (Lib BlockingIOErrorC, k) # fs"
    and "send_request L csk spk (relay_request url d) (tun B) = (Inr (relay_reply out shut), T')" and "out \<noteq> []"
  shows "relay_browser L csk spk url B =
    relay_browser L csk spk url (B\<lparr>b_inq := q, b_faults := fs, tun := T', b_sent := b_sent B @ take k out\<rparr>)"
proof -
  let ?B1 = "B\<lparr>b_inq := q\<rparr>"
  have r: "browser_recv B = (Inr d, ?B1)" using assms(1-4) by (simp add: browser_recv_def)
  have "send_request L csk spk (relay_request url d) (tun ?B1) = (Inr (relay_reply out shut), T')"
    using assms(6) by simp
  from relay_once_run [OF this] have "relay_once L csk spk url d ?B1 = (Inl (Lib BlockingIOErrorC),
      B\<lparr>b_inq := q, b_faults := fs, tun := T', b_sent := b_sent B @ take k out\<rparr>)"
    using assms(5,7) by (simp add: andThen_def browser_sendall_def)
  then show ?thesis using r assms(3)
    by (subst relay_browser.simps) (simp add: is_subclass.simps)
qed

lemma blocked_send_loses_bytes_instance:
  "b_sent (relay_browser model_lib [1] [2] (u ''h:443'')
     (demo_relay\<lparr>b_inq := [Seg [1]], b_faults := [Some (Lib BlockingIOErrorC, 1)]\<rparr>)) = [104]"
proof -
  let ?B = "demo_relay\<lparr>b_inq := [Seg [1]], b_faults := [Some (Lib BlockingIOErrorC, 1)]\<rparr>"
  obtain T' where t: "send_request model_lib [1] [2] (relay_request (u ''h:443'') [1]) (tun ?B)
     = (Inr (relay_reply [104, 105] False), T')" using demo_relay_answers by auto
  have B: "\<not> b_blocking ?B" "b_inq ?B = Seg [1] # []" "[1 :: byte] \<noteq> []" "length [1 :: byte] \<le> BUFFER_SIZE"
    "b_faults ?B = Some (Lib BlockingIOErrorC, 1) # []" "b_sent ?B = []"
    by (simp_all add: demo_relay_def demo_browser_def BUFFER_SIZE_def)
  let ?B2 = "?B\<lparr>b_inq := [], b_faults := [], tun := T', b_sent := b_sent ?B @ take 1 [104, 105]\<rparr>"
  have "browser_recv ?B2 = (Inr [], ?B2)" by (simp add: browser_recv_def)
  then have "relay_browser model_lib [1] [2] (u ''h:443'') ?B2 = ?B2"
    by (subst relay_browser.simps) simp
  moreover have "relay_browser model_lib [1] [2] (u ''h:443'') ?B = relay_browser model_lib [1] [2] (u ''h:443'') ?B2"
    by (rule blocked_send_loses_bytes [OF B(1-5) t]) simp
  ultimately show ?thesis using B(6) by simp
qed

end
