(* ===== verification/End_To_End.thy ===== *)
theory End_To_End
  imports Proxy_Props
begin

text \<open>
  The whole program: a browser's request travels through the proxy, the tunnel client, the network,
  the server's thread and the forwarder to the web, and the page travels back.
\<close>

text \<open>The call of the \<open>requests\<close> package for a request with text headers.\<close>

definition web_call :: "pystr \<Rightarrow> pystr \<Rightarrow> (pystr \<times> pystr) list \<Rightarrow> bytes \<Rightarrow> dict \<Rightarrow> http_call \<Rightarrow> bool" where
  "web_call verb url headers body h call \<longleftrightarrow>
     forward_headers (JObj (map (\<lambda>(k, v). (k, JStr v)) headers)) = Inr h \<and>
     call = (upper verb, with_scheme url, h, if body = [] then None else Some body)"

lemma forwarded_page:
  assumes "text_ok verb" and "text_ok url" and "headers_ok headers"
    and "upper verb \<noteq> u ''CONNECT''" and "upper verb \<noteq> u ''RELAY''"
    and "web_call verb url headers body h call" and "fw_http F (length (fw_calls F)) call = Inr reply"
    and "read_content reply = Inr content"
  shows "forward_request (encode_request verb url headers body) F
    = (Inr (build_response (status reply) (map (\<lambda>(k, v). (k, JStr v)) (reply_headers reply)) content),
       F\<lparr>fw_calls := fw_calls F @ [call]\<rparr>)"
  using assms(4-)
  by (simp add: forward_encode [OF assms(1-3)] dispatch_def fw_handle_http_def web_call_def andThen_def
      of_result_def try_except_def http_request_def ret_def Let_def)

text \<open>The server's direct call for a request that the limiter lets pass.\<close>

lemma direct_page:
  assumes "lim_is_idle ip S = (Inr False, S1)" and "lim_touch ip S1 = (Inr (), S2)"
    and "lim_check_rate ip S2 = (Inr True, S3)" and "forward_request req (fwd S3) = (Inr page, F')"
  shows "direct_calls ip [req] S = (Inr (map (Pair DATA_RESPONSE) [page]), S3\<lparr>fwd := F'\<rparr>)"
  using assms
  by (simp add: direct_call_def andThen_def ret_def forward_or_500_def try_except_def on_fwd_def)

lemma limiter_keeps_fwd:
  assumes "lim_is_idle ip S = (Inr b, S1)" and "lim_touch ip S1 = (Inr (), S2)"
    and "lim_check_rate ip S2 = (Inr c, S3)"
  shows "fwd S3 = fwd S"
  using assms
  by (auto simp: lim_is_idle_def lim_touch_def lim_check_rate_def monotonic_def andThen_def ret_def Let_def
      case_prod_beta split: if_splits)

text \<open>A single call of the tunnel is a request of \<open>send_request\<close> that succeeds at the first attempt.\<close>

lemma tunnel_call_send:
  assumes "tunnel_calls L csk spk [req] T = (Inr [resp], T')" and "1 \<le> max_retries T"
  shows "send_request L csk spk req T = (Inr resp, T')"
proof -
  have "do_request L csk spk req T = (Inr resp, T')"
    using assms(1) by (auto simp: andThen_eq_Inr_iff ret_def)
  then show ?thesis by (rule send_request_first) (rule assms(2))
qed

text \<open>
  C2. A page travels from the web to the browser: when a browser with an established tunnel asks for
  a page, the server's limiter lets the request pass and the web answers, there are byte strings
  \<open>f\<close> and \<open>g\<close> for the two directions of the network such that a server that receives \<open>f\<close> makes exactly
  the one web call of the request and sends \<open>g\<close>, and a proxy whose tunnel receives \<open>g\<close> has sent \<open>f\<close>
  and writes to the browser the status, headers and content of the web's answer, in any
  segmentation of both streams.
\<close>

theorem page_reaches_browser:
  assumes L: "aead_ok L" and up: "session_up (tun B) sid ek mk" and tries: "1 \<le> max_retries (tun B)"
    and browser: "browser_recv B = (Inr raw, B1)" "raw \<noteq> []" "b_faults B = []"
      "browser_request raw = Inr (Http_to verb url lines body)"
    and texts: "text_ok verb" "text_ok url" "headers_ok (parse_headers lines)"
      "upper verb \<noteq> u ''CONNECT''" "upper verb \<noteq> u ''RELAY''"
    and server: "fault_free (conn S)" "lim_is_idle ip S = (Inr False, S1)" "lim_touch ip S1 = (Inr (), S2)"
      "lim_check_rate ip S2 = (Inr True, S3)"
    and web: "web_call verb url (parse_headers lines) body h call"
      "fw_http (fwd S) (length (fw_calls (fwd S))) call = Inr reply" "read_content reply = Inr content"
      "headers_ok (reply_headers reply)"
    and sizes: "payload_fits (encode_request verb url (parse_headers lines) body)"
      "payload_fits (build_response (status reply) (map (\<lambda>(k, v). (k, JStr v)) (reply_headers reply)) content)"
  shows "\<exists>f g head. utf8_encode (reply_head (status reply) (reply_headers reply) (length content)) = Inr head \<and>
    (\<forall>q rest. arriving q = f @ rest \<longrightarrow>
       (\<exists>S'. serve_loop L ip sid ek mk (S\<lparr>conn := (conn S)\<lparr>inq := q\<rparr>\<rparr>) = serve_loop L ip sid ek mk S' \<and>
             sent (conn S') = sent (conn S) @ g \<and> arriving (inq (conn S')) = rest \<and>
             fw_calls (fwd S') = fw_calls (fwd S) @ [call])) \<and>
    (\<forall>q rest. arriving q = g @ rest \<longrightarrow>
       (\<exists>B'. handle_browser L csk spk (B\<lparr>tun := (tun B)\<lparr>link := (link (tun B))\<lparr>inq := q\<rparr>\<rparr>\<rparr>) = B' \<and>
             b_sent B' = b_sent B @ head @ content \<and> \<not> b_open B' \<and>
             sent (link (tun B')) = sent (link (tun B)) @ f))"
proof -
  let ?req = "encode_request verb url (parse_headers lines) body"
  let ?page = "build_response (status reply) (map (\<lambda>(k, v). (k, JStr v)) (reply_headers reply)) content"
  have F: "fwd S3 = fwd S" by (rule limiter_keeps_fwd [OF server(2-4)])
  have "forward_request ?req (fwd S3) = (Inr ?page, (fwd S)\<lparr>fw_calls := fw_calls (fwd S) @ [call]\<rparr>)"
    unfolding F by (rule forwarded_page [OF texts web(1-3)])
  note d = direct_page [OF server(2-4) this]
  have fits: "length [?page] = length [?req]" "list_all payload_fits [?req]" "list_all payload_fits [?page]"
    using sizes by simp_all
  obtain f g where
    client: "\<forall>q rest. arriving q = g @ rest \<longrightarrow>
       (\<exists>T'. tunnel_calls L csk spk [?req] ((tun B)\<lparr>link := (link (tun B))\<lparr>inq := q\<rparr>\<rparr>) = (Inr [?page], T') \<and>
             sent (link T') = sent (link (tun B)) @ f \<and> arriving (inq (link T')) = rest)"
    and srv: "\<forall>q rest. arriving q = f @ rest \<longrightarrow>
       (\<exists>c. serve_loop L ip sid ek mk (S\<lparr>conn := (conn S)\<lparr>inq := q\<rparr>\<rparr>) = serve_loop L ip sid ek mk
              (S3\<lparr>fwd := (fwd S)\<lparr>fw_calls := fw_calls (fwd S) @ [call]\<rparr>, conn := c\<rparr>) \<and>
            sent c = sent (conn S) @ g \<and> arriving (inq c) = rest)"
    using tunnel_simulates [OF L up server(1) d fits, of csk spk] by auto
  obtain head where head: "utf8_encode (reply_head (status reply) (reply_headers reply) (length content)) = Inr head"
    using raw_response_built [OF web(4)] by blast
  have "\<exists>B'. handle_browser L csk spk (B\<lparr>tun := (tun B)\<lparr>link := (link (tun B))\<lparr>inq := q\<rparr>\<rparr>\<rparr>) = B' \<and>
      b_sent B' = b_sent B @ head @ content \<and> \<not> b_open B' \<and> sent (link (tun B')) = sent (link (tun B)) @ f"
    if q: "arriving q = g @ rest" for q rest
  proof -
    let ?T = "(tun B)\<lparr>link := (link (tun B))\<lparr>inq := q\<rparr>\<rparr>" and ?B = "B\<lparr>tun := (tun B)\<lparr>link := (link (tun B))\<lparr>inq := q\<rparr>\<rparr>\<rparr>"
    obtain T' where T': "tunnel_calls L csk spk [?req] ?T = (Inr [?page], T')" "sent (link T') = sent (link (tun B)) @ f"
      using client q by blast
    have s: "send_request L csk spk ?req (tun ?B) = (Inr ?page, T')"
      using tunnel_call_send [OF T'(1)] tries by simp
    have r: "browser_recv ?B = (Inr raw, B1\<lparr>tun := ?T\<rparr>)"
      using browser(1) by (auto simp: browser_recv_def Let_def split: prod.splits)
    from plain_http_served [OF r browser(2,4) s web(4)] browser(3) head T'(2) show ?thesis by auto
  qed
  moreover have "\<exists>S'. serve_loop L ip sid ek mk (S\<lparr>conn := (conn S)\<lparr>inq := q\<rparr>\<rparr>) = serve_loop L ip sid ek mk S' \<and>
      sent (conn S') = sent (conn S) @ g \<and> arriving (inq (conn S')) = rest \<and> fw_calls (fwd S') = fw_calls (fwd S) @ [call]"
    if "arriving q = f @ rest" for q rest
    using srv that by fastforce
  ultimately show ?thesis using head by blast
qed

lemma demo_limiter:
  "\<exists>S1 S2 S3. lim_is_idle (u ''10.0.0.9'') demo_admitted = (Inr False, S1) \<and> lim_touch (u ''10.0.0.9'') S1 = (Inr (), S2) \<and>
     lim_check_rate (u ''10.0.0.9'') S2 = (Inr True, S3)"
  by (simp add: lim_is_idle_def lim_touch_def lim_check_rate_def monotonic_def andThen_def
      ret_def demo_admitted_def demo_srv_def new_limiter_def try_add_connection_def conns_for_def is_idle_def
      touch_def check_rate_def new_bucket_def consume_def Let_def)

theorem page_reaches_browser_witness:
  "\<exists>g head. utf8_encode (reply_head 200 [(u ''Server'', u ''x'')] 3) = Inr head \<and>
    b_sent (handle_browser model_lib [1] [2] ((demo_browser [Seg (ascii_bytes demo_line)] [])
      \<lparr>tun := demo_tunnel\<lparr>link := (link demo_tunnel)\<lparr>inq := [Seg g]\<rparr>\<rparr>\<rparr>)) = head @ [1, 2, 3]"
proof -
  let ?B = "(demo_browser [Seg (ascii_bytes demo_line)] [])\<lparr>tun := demo_tunnel\<rparr>" and ?ip = "u ''10.0.0.9''"
  let ?reply = "\<lparr>status = 200, reply_headers = [(u ''Server'', u ''x'')], chunks = [[1, 2], [3]], stream_error = None\<rparr>"
  have up: "session_up (tun ?B) (replicate 16 1) (replicate 32 2) (replicate 32 3)"
    by (simp add: session_up_def demo_tunnel_def demo_lost_def new_tunnel_def fault_free_def wire_simps)
  have tries: "1 \<le> max_retries (tun ?B)" by (simp add: demo_tunnel_def demo_lost_def new_tunnel_def)
  have ne: "ascii_bytes demo_line \<noteq> []" by (simp add: ascii_bytes_def demo_line_def u_Cons)
  have ln: "length (ascii_bytes demo_line) = 11" by (simp add: demo_line_def CRLF_def)
  obtain B1 where r: "browser_recv ?B = (Inr (ascii_bytes demo_line), B1)"
    using ne ln by (cases "ascii_bytes demo_line")
      (auto simp: browser_recv_def demo_browser_def BUFFER_SIZE_def)
  have fl: "b_faults ?B = []" by (simp add: demo_browser_def)
  have gt: "text_ok (u ''GET'')" "text_ok (u ''a'')" by simp_all
  have hs: "headers_ok (parse_headers [])" by (simp add: parse_no_headers headers_ok_def)
  have verbs: "upper (u ''GET'') \<noteq> u ''CONNECT''" "upper (u ''GET'') \<noteq> u ''RELAY''"
    by (simp_all add: upper_def u_Cons)
  have ff: "fault_free (conn demo_admitted)"
    by (simp add: demo_admitted_def demo_srv_def fault_free_def world0_def)
  obtain S1 S2 S3 where lim: "lim_is_idle ?ip demo_admitted = (Inr False, S1)" "lim_touch ?ip S1 = (Inr (), S2)"
    "lim_check_rate ?ip S2 = (Inr True, S3)" using demo_limiter by blast
  obtain h where h: "forward_headers (JObj (map (\<lambda>(k, v). (k, JStr v)) (parse_headers []))) = Inr h"
    by (simp add: forward_headers_def Let_def)
  have call: "web_call (u ''GET'') (u ''a'') (parse_headers []) [] h (upper (u ''GET''), with_scheme (u ''a''), h, None)"
    using h by (simp add: web_call_def)
  have web: "fw_http (fwd demo_admitted) (length (fw_calls (fwd demo_admitted)))
      (upper (u ''GET''), with_scheme (u ''a''), h, None) = Inr ?reply" "read_content ?reply = Inr [1, 2, 3]"
    "headers_ok (reply_headers ?reply)"
    by (simp_all add: demo_admitted_def demo_srv_def demo_fw_def read_content_def headers_ok_def)
  have sizes: "payload_fits (encode_request (u ''GET'') (u ''a'') (parse_headers []) [])"
    "payload_fits (build_response (status ?reply) (map (\<lambda>(k, v). (k, JStr v)) (reply_headers ?reply)) [1, 2, 3])"
    using demo_line_fits demo_sizes(2) by (simp_all add: parse_no_headers demo_page_def)
  obtain g head where head: "utf8_encode (reply_head (status ?reply) (reply_headers ?reply) (length [1, 2, 3 :: byte])) = Inr head"
    and g: "\<forall>q rest. arriving q = g @ rest \<longrightarrow>
       (\<exists>B'. handle_browser model_lib [1] [2] (?B\<lparr>tun := (tun ?B)\<lparr>link := (link (tun ?B))\<lparr>inq := q\<rparr>\<rparr>\<rparr>) = B' \<and>
             b_sent B' = b_sent ?B @ head @ [1, 2, 3])"
    using page_reaches_browser [OF model_lib_ok(1) up tries r ne fl demo_line_parsed gt hs verbs ff lim call web sizes,
        of "[1]" "[2]"] by blast
  have "arriving [Seg g] = g @ []" by simp
  then have "b_sent (handle_browser model_lib [1] [2] (?B\<lparr>tun := (tun ?B)\<lparr>link := (link (tun ?B))\<lparr>inq := [Seg g]\<rparr>\<rparr>\<rparr>))
      = b_sent ?B @ head @ [1, 2, 3]" using g by blast
  then show ?thesis using head by (auto simp: demo_browser_def numeral_3_eq_3)
qed

end
