(* ===== verification/Proxy_Threads.thy ===== *)
theory Proxy_Threads
  imports End_To_End
begin

text \<open>
  The proxy with all its browsers: \<open>start_proxy\<close> of \<open>client/client_proxy.py\<close> and what its threads do to
  the one \<open>TunnelClient\<close> they share.  A thread holds the tunnel's lock for one exchange or one
  connection, and gives it back between an attempt, the reconnection after it and the next
  attempt; between these steps other threads run.  \<open>call_next\<close> is \<open>send_request\<close> one such step at a
  time, \<open>solo\<close> one step of a thread, and \<open>proxy_step\<close> any interleaving.
\<close>

subsection \<open>A request in steps\<close>

datatype call_phase =
    Trying "pyexn option" "int list"
  | Reconnecting pyexn int "int list"
  | Sleeping pyexn int "int list"
  | Over "pyexn + bytes"

fun call_next ::
    "('sk, 'pk) crypto_lib \<Rightarrow> 'sk \<Rightarrow> 'pk \<Rightarrow> bytes \<Rightarrow> tunnel \<Rightarrow> call_phase \<Rightarrow> tunnel \<times> call_phase" where
  "call_next L csk spk req T (Trying last_err []) = (T, Over (Inl (gave_up T last_err)))"
| "call_next L csk spk req T (Trying last_err (attempt # rest)) =
     (case do_request L csk spk req T of
        (Inr resp, T1) \<Rightarrow> (T1, Over (Inr resp))
      | (Inl e, T1) \<Rightarrow> (T1, Reconnecting e attempt rest))"
| "call_next L csk spk req T (Reconnecting e attempt rest) =
     (snd (do_connect L csk spk T),
      if attempt < max_retries T then Sleeping e attempt rest else Trying (Some e) rest)"
| "call_next L csk spk req T (Sleeping e attempt rest) =
     (case sleep_for (retry_backoff T * of_int attempt) T of
        (Inl x, T1) \<Rightarrow> (T1, Over (Inl x))
      | (Inr _, T1) \<Rightarrow> (T1, Trying (Some e) rest))"
| "call_next L csk spk req T (Over r) = (T, Over r)"

subsection \<open>A browser's thread in steps\<close>

text \<open>
  What a thread waits for: the page of a plain request, the answer to a CONNECT, or the answer to
  a chunk of a tunnelled connection.  The thread is at its first \<open>recv\<close>, in a request, or ended.
\<close>

datatype wait = For_page | For_tunnel pystr | For_chunk pystr

datatype thread = Fresh browser | Calling browser wait bytes call_phase | Gone browser

definition gone :: "browser \<Rightarrow> thread" where
  "gone B = Gone (B\<lparr>b_open := False\<rparr>)"

definition ask :: "browser \<Rightarrow> wait \<Rightarrow> bytes \<Rightarrow> thread" where
  "ask B k req = Calling B k req (Trying None [1 .. max_retries (tun B)])"

text \<open>From the first \<open>recv\<close> to the first request.\<close>

definition begin_thread :: "browser \<Rightarrow> thread" where
  "begin_thread B =
     (case browser_recv B of
        (Inl e, B1) \<Rightarrow> gone B1
      | (Inr raw, B1) \<Rightarrow>
          if raw = [] then gone B1
          else (case browser_request raw of
             Inl e \<Rightarrow> gone B1
           | Inr Malformed \<Rightarrow> gone B1
           | Inr (Connect_to (host, port)) \<Rightarrow>
               (case browser_sendall ESTABLISHED B1 of
                  (Inl e, B2) \<Rightarrow> gone B2
                | (Inr _, B2) \<Rightarrow> ask B2 (For_tunnel (target_url host port)) (connect_request (target_url host port)))
           | Inr (Http_to verb target lines body) \<Rightarrow>
               ask B1 For_page (encode_request verb target (parse_headers lines) body)))"

text \<open>\<open>_handle_http_request\<close> and one round of the relay loop after the tunnel's answer.\<close>

definition http_end :: "pyexn + bytes \<Rightarrow> (browser, unit) io" where
  "http_end r B =
     (case bind_res r decode_response of
        Inl e \<Rightarrow>
          andThen (of_result (bad_gateway (exn_str B e))) (\<lambda>page.
          try_except (browser_sendall page) (\<lambda>_. ret ())) B
      | Inr (status_code, resp_headers, resp_body) \<Rightarrow>
          (case resp_headers of
             JObj d \<Rightarrow>
               andThen (of_result (raw_response (str_json B) status_code d resp_body)) (\<lambda>raw.
               try_except (browser_sendall raw)
                 (\<lambda>e. if catches OSErrorC e then ret () else raise e)) B
           | _ \<Rightarrow> (Inl (Lib AttributeErrorC), B)))"

definition relay_end :: "pyexn + bytes \<Rightarrow> (browser, bool) io" where
  "relay_end r =
     andThen (of_result (bind_res r loads_bytes)) (\<lambda>rr.
     andThen (of_result (json_get rr (u ''body'') JNull)) (\<lambda>body.
     andThen (if truthy body then andThen (of_result (body_bytes body)) browser_sendall else ret ()) (\<lambda>_.
     andThen (of_result (json_get rr (u ''closed'') JNull)) (\<lambda>flag.
     ret (truthy flag)))))"

definition connect_end :: "pyexn + bytes \<Rightarrow> pyexn + json" where
  "connect_end r = bind_res (bind_res r loads_bytes) (\<lambda>resp. json_get resp (u ''status_code'') (JInt 0))"

text \<open>The relay loop up to its next request.\<close>

function relay_read :: "pystr \<Rightarrow> browser \<Rightarrow> thread" where
  "relay_read url B =
     (case browser_recv B of
        (Inl e, B1) \<Rightarrow> if catches BlockingIOErrorC e then relay_read url B1 else gone B1
      | (Inr data, B1) \<Rightarrow> if data = [] then gone B1 else ask B1 (For_chunk url) (relay_request url data))"
  by pat_completeness auto
termination
  by (relation "measure (\<lambda>(url, B). unread (b_inq B))") (auto dest!: browser_recv_progress [OF sym])

declare relay_read.simps [simp del]

definition resume :: "wait \<Rightarrow> pyexn + bytes \<Rightarrow> browser \<Rightarrow> thread" where
  "resume k r B =
     (case k of
        For_page \<Rightarrow> gone (snd (http_end r B))
      | For_tunnel url \<Rightarrow>
          (case connect_end r of
             Inl e \<Rightarrow> gone B
           | Inr code \<Rightarrow> if \<not> is_200 code then gone B else relay_read url (B\<lparr>b_blocking := False\<rparr>))
      | For_chunk url \<Rightarrow>
          (case relay_end r B of
             (Inl e, B1) \<Rightarrow> if catches BlockingIOErrorC e then relay_read url B1 else gone B1
           | (Inr shut, B1) \<Rightarrow> if shut then gone B1 else relay_read url B1))"

fun solo :: "('sk, 'pk) crypto_lib \<Rightarrow> 'sk \<Rightarrow> 'pk \<Rightarrow> tunnel \<times> thread \<Rightarrow> tunnel \<times> thread" where
  "solo L csk spk (T, Fresh B) = (T, begin_thread B)"
| "solo L csk spk (T, Calling B k req (Over r)) = (T, resume k r B)"
| "solo L csk spk (T, Calling B k req ph) =
     (let (T1, ph1) = call_next L csk spk req T ph in (T1, Calling B k req ph1))"
| "solo L csk spk (T, Gone B) = (T, Gone B)"


subsection \<open>A thread alone is \<open>handle_browser\<close>\<close>

definition solo_run ::
    "('sk, 'pk) crypto_lib \<Rightarrow> 'sk \<Rightarrow> 'pk \<Rightarrow> tunnel \<times> thread \<Rightarrow> tunnel \<times> thread \<Rightarrow> bool" where
  "solo_run L csk spk = rtranclp (\<lambda>s t. t = solo L csk spk s)"

interpretation thread_machine: machine "solo L csk spk" "solo_run L csk spk" for L csk spk
  by unfold_locales (simp add: solo_run_def)

lemmas solo_run_step = thread_machine.advance
lemmas solo_run_trans = thread_machine.trans

text \<open>After a failed attempt: the reconnection, the delay, and the attempts still to be made.\<close>

lemma retry_alone:
  assumes x: "do_request L csk spk req T = (Inl e, T1)"
    and loop: "attempts_loop L csk spk req le (a # rest) T = (r, T')"
    and later: "\<And>T le. attempts_loop L csk spk req le rest T = (r, T') \<Longrightarrow>
      solo_run L csk spk (T, Calling B k req (Trying le rest)) (T', Calling B k req (Over r))"
  shows "solo_run L csk spk (T1, Calling B k req (Reconnecting e a rest)) (T', Calling B k req (Over r))"
proof -
  let ?T2 = "snd (do_connect L csk spk T1)" and ?goal = "(T', Calling B k req (Over r))"
  have c: "max_retries T1 = max_retries T" "max_retries ?T2 = max_retries T" "retry_backoff ?T2 = retry_backoff T"
    using do_request_frame(1) [OF x] do_connect_frame(1) [of L csk spk T1 "fst (do_connect L csk spk T1)" ?T2]
    by (simp_all add: same_config_def)
  note loop' = loop [unfolded attempts_loop_Cons [OF x, of le a rest]]
  have next_state: "solo L csk spk (T1, Calling B k req (Reconnecting e a rest))
      = (?T2, Calling B k req (if a < max_retries T then Sleeping e a rest else Trying (Some e) rest))"
    by (simp add: c)
  have "solo_run L csk spk (?T2, Calling B k req (if a < max_retries T then Sleeping e a rest else Trying (Some e) rest)) ?goal"
  proof (cases "a < max_retries T")
    case True
    let ?T3 = "?T2\<lparr>slept := slept ?T2 @ [retry_backoff T * of_int a]\<rparr>"
    have "solo_run L csk spk (solo L csk spk (?T2, Calling B k req (Sleeping e a rest))) ?goal"
    proof (cases "retry_backoff T * of_int a < 0")
      case neg: True
      then show ?thesis using loop' True c(3) by (auto simp: sleep_for_def Let_def)
    next
      case False
      then have "attempts_loop L csk spk req (Some e) rest ?T3 = (r, T')" using loop' True by (simp add: Let_def)
      from later [OF this] show ?thesis using False by (simp add: sleep_for_def c)
    qed
    then show ?thesis using True by (simp del: solo.simps add: solo_run_step)
  next
    case False
    then have "attempts_loop L csk spk req (Some e) rest ?T2 = (r, T')" using loop' by (simp add: Let_def)
    from later [OF this] show ?thesis using False by simp
  qed
  then show ?thesis by (intro solo_run_step [of L csk spk "(T1, _)"], unfold next_state)
qed

lemma attempts_alone:
  assumes "attempts_loop L csk spk req le as T = (r, T')"
  shows "solo_run L csk spk (T, Calling B k req (Trying le as)) (T', Calling B k req (Over r))"
  using assms
proof (induction "as" arbitrary: T le)
  case Nil
  then show ?case by (auto intro: solo_run_step)
next
  case (Cons a rest)
  obtain x T1 where x: "do_request L csk spk req T = (x, T1)" by force
  show ?case
  proof (cases x)
    case (Inr resp)
    then show ?thesis using Cons.prems x attempts_loop_Cons [OF x, of le a rest] by (auto intro: solo_run_step)
  next
    case (Inl e)
    have "solo L csk spk (T, Calling B k req (Trying le (a # rest))) = (T1, Calling B k req (Reconnecting e a rest))"
      using x Inl by simp
    with retry_alone [OF x [unfolded Inl] Cons.prems Cons.IH] show ?thesis
      by (intro solo_run_step [of L csk spk "(T, _)"]) simp
  qed
qed

lemma attempts_config:
  assumes "attempts_loop L csk spk req le as T = (r, T')"
  shows "same_config T T'"
  using assms
proof (induction "as" arbitrary: T le)
  case (Cons a rest)
  obtain x T1 where x: "do_request L csk spk req T = (x, T1)" by force
  let ?T2 = "snd (do_connect L csk spk T1)"
  have 1: "same_config T T1" by (rule do_request_frame(1) [OF x])
  have "same_config T1 ?T2" using do_connect_frame(1) [of L csk spk T1 "fst (do_connect L csk spk T1)" ?T2] by simp
  then have 2: "same_config T ?T2" by (rule same_config_trans [OF 1])
  show ?case
  proof (cases x)
    case (Inl e)
    have "same_config T T'" if "attempts_loop L csk spk req (Some e) rest U = (r, T')" "same_config T U" for U
      using same_config_trans [OF that(2) Cons.IH [OF that(1)]] .
    then show ?thesis using Cons.prems attempts_loop_Cons [OF x, of le a rest] Inl 2
      by (auto simp: Let_def same_config_sleep split: if_splits)
  qed (use Cons.prems x 1 attempts_loop_Cons [OF x, of le a rest] in simp)
qed simp

lemma send_request_config: "send_request L csk spk req T = (r, T') \<Longrightarrow> same_config T T'"
  unfolding send_request_def by (rule attempts_config)

text \<open>What a thread does between two requests does not look at the tunnel.\<close>

definition tun_free :: "(browser, 'a) io \<Rightarrow> bool" where
  "tun_free m \<longleftrightarrow> (\<forall>B D. exc_str D = exc_str (tun B) \<longrightarrow> m (B\<lparr>tun := D\<rparr>) = (fst (m B), (snd (m B))\<lparr>tun := D\<rparr>))"

lemma tun_freeD:
  "tun_free m \<Longrightarrow> m B = (r, B') \<Longrightarrow> exc_str D = exc_str (tun B) \<Longrightarrow> m (B\<lparr>tun := D\<rparr>) = (r, B'\<lparr>tun := D\<rparr>)"
  by (simp add: tun_free_def)

lemma tun_free_tun:
  assumes "tun_free m" and "m B = (r, B')"
  shows "tun B' = tun B"
proof -
  have "m (B\<lparr>tun := tun B\<rparr>) = (r, B'\<lparr>tun := tun B\<rparr>)" by (rule tun_freeD [OF assms]) simp
  then have "B' = B'\<lparr>tun := tun B\<rparr>" using assms(2) by simp
  then have "tun B' = tun (B'\<lparr>tun := tun B\<rparr>)" by (rule arg_cong)
  then show ?thesis by simp
qed

lemma tun_free_andThen:
  assumes "tun_free m" and "\<And>x. tun_free (f x)"
  shows "tun_free (andThen m f)"
  unfolding tun_free_def
proof (intro allI impI)
  fix B :: browser and D :: tunnel
  assume e: "exc_str D = exc_str (tun B)"
  obtain r B' where m: "m B = (r, B')" by force
  have e': "exc_str D = exc_str (tun B')" using e tun_free_tun [OF assms(1) m] by simp
  have "f x (B'\<lparr>tun := D\<rparr>) = (fst (f x B'), (snd (f x B'))\<lparr>tun := D\<rparr>)" for x
    using assms(2) e' by (simp add: tun_free_def)
  then show "andThen m f (B\<lparr>tun := D\<rparr>) = (fst (andThen m f B), (snd (andThen m f B))\<lparr>tun := D\<rparr>)"
    using tun_freeD [OF assms(1) m e] m by (simp add: andThen_def split: sum.split)
qed

lemma tun_free_try:
  assumes "tun_free m" and "\<And>x. tun_free (h x)"
  shows "tun_free (try_except m h)"
  unfolding tun_free_def
proof (intro allI impI)
  fix B :: browser and D :: tunnel
  assume e: "exc_str D = exc_str (tun B)"
  obtain r B' where m: "m B = (r, B')" by force
  have e': "exc_str D = exc_str (tun B')" using e tun_free_tun [OF assms(1) m] by simp
  have "h x (B'\<lparr>tun := D\<rparr>) = (fst (h x B'), (snd (h x B'))\<lparr>tun := D\<rparr>)" for x
    using assms(2) e' by (simp add: tun_free_def)
  then show "try_except m h (B\<lparr>tun := D\<rparr>) = (fst (try_except m h B), (snd (try_except m h B))\<lparr>tun := D\<rparr>)"
    using tun_freeD [OF assms(1) m e] m by (simp add: try_except_def split: sum.split)
qed

lemma tun_free_basic [simp]:
  "tun_free (ret x)" "tun_free (raise e)" "tun_free (of_result r)" "tun_free browser_recv"
  "tun_free (browser_sendall bs)" "tun_free set_nonblocking"
  by (auto simp: tun_free_def ret_def raise_def of_result_def browser_recv_def browser_sendall_def
      set_nonblocking_def Let_def split: prod.split list.split option.split)

lemma tun_free_relay_end [simp]: "tun_free (relay_end r)"
  unfolding relay_end_def by (auto intro!: tun_free_andThen)

lemma tun_free_http_end [simp]: "tun_free (http_end r)"
proof -
  have shown: "exn_str (B\<lparr>tun := D\<rparr>) e = exn_str B e" if "exc_str D = exc_str (tun B)" for B :: browser and D :: tunnel and e
    using that by (simp add: exn_str_def error_text_def split: option.split pyexn.split)
  have json: "str_json (B\<lparr>tun := D\<rparr>) = str_json B" for B :: browser and D :: tunnel
    by (simp add: str_json_def fun_eq_iff split: json.split)
  have "tun_free (andThen (of_result x) (\<lambda>page. try_except (browser_sendall page) h))" if "\<And>e. tun_free (h e)" for x h
    using that by (auto intro!: tun_free_andThen tun_free_try)
  then have put: "andThen (of_result x) (\<lambda>page. try_except (browser_sendall page) h) (B\<lparr>tun := D\<rparr>)
      = (fst (andThen (of_result x) (\<lambda>page. try_except (browser_sendall page) h) B),
         (snd (andThen (of_result x) (\<lambda>page. try_except (browser_sendall page) h) B))\<lparr>tun := D\<rparr>)"
    if "\<And>e. tun_free (h e)" and "exc_str D = exc_str (tun B)" for x h B and D :: tunnel
    using that by (simp add: tun_free_def)
  have page: "tun_free (ret ())" and raw: "tun_free (if catches OSErrorC e then ret () else raise e)" for e
    by simp_all
  show ?thesis
    unfolding tun_free_def
  proof (intro allI impI)
    fix B :: browser and D :: tunnel
    assume e: "exc_str D = exc_str (tun B)"
    show "http_end r (B\<lparr>tun := D\<rparr>) = (fst (http_end r B), (snd (http_end r B))\<lparr>tun := D\<rparr>)"
      by (simp add: http_end_def shown [OF e] json put [OF page e] put [OF raw e]
          split: sum.split prod.split json.split)
  qed
qed

lemma px_handle_http_end:
  "px_handle_http L csk spk verb url lines body B =
    (case on_tun (send_request L csk spk (encode_request verb url (parse_headers lines) body)) B of
       (r, B1) \<Rightarrow> http_end r B1)"
  by (auto simp: px_handle_http_def http_end_def andThen_def of_result_def split: prod.split sum.split)

lemma relay_once_end:
  "relay_once L csk spk url data B =
    (case on_tun (send_request L csk spk (relay_request url data)) B of (r, B1) \<Rightarrow> relay_end r B1)"
  by (auto simp: relay_once_def relay_end_def andThen_def of_result_def split: prod.split sum.split)

lemma ask_alone:
  assumes "send_request L csk spk req T = (r, T')" and "max_retries (tun B) = max_retries T"
  shows "solo_run L csk spk (T, ask B k req) (T', resume k r B)"
proof -
  have "solo_run L csk spk (T, ask B k req) (T', Calling B k req (Over r))"
    unfolding ask_def assms(2) by (rule attempts_alone) (use assms(1) in \<open>simp add: send_request_def\<close>)
  moreover have "solo_run L csk spk (T', Calling B k req (Over r)) (T', resume k r B)"
    by (rule solo_run_step) simp
  ultimately show ?thesis by (rule solo_run_trans)
qed

text \<open>One chunk of a tunnelled connection: the thread asks, and takes the answer up as the loop does.\<close>

lemma chunk_alone:
  assumes "same_config D (tun H)" and "send_request L csk spk (relay_request url data) (tun H) = (x, T')"
    and "relay_end x (H\<lparr>tun := T'\<rparr>) = (y, H2)"
  shows "solo_run L csk spk (tun H, ask (H\<lparr>tun := D\<rparr>) (For_chunk url) (relay_request url data))
      (T', resume (For_chunk url) x (H\<lparr>tun := D\<rparr>))"
    and "relay_end x (H\<lparr>tun := D\<rparr>) = (y, H2\<lparr>tun := D\<rparr>)" and "tun H2 = T'" and "same_config D T'"
proof -
  have c: "same_config D T'" using assms(1) send_request_config [OF assms(2)] by (rule same_config_trans)
  then have "exc_str D = exc_str (tun (H\<lparr>tun := T'\<rparr>))" by (simp add: same_config_def)
  from tun_freeD [OF tun_free_relay_end assms(3) this] show "relay_end x (H\<lparr>tun := D\<rparr>) = (y, H2\<lparr>tun := D\<rparr>)" by simp
  show "tun H2 = T'" using tun_free_tun [of "relay_end x" "H\<lparr>tun := T'\<rparr>"] assms(3) by simp
  show "solo_run L csk spk (tun H, ask (H\<lparr>tun := D\<rparr>) (For_chunk url) (relay_request url data))
      (T', resume (For_chunk url) x (H\<lparr>tun := D\<rparr>))"
    by (rule ask_alone) (use assms in \<open>simp_all add: same_config_def\<close>)
qed (rule same_config_trans [OF assms(1) send_request_config [OF assms(2)]])

lemma relay_alone:
  assumes "same_config D (tun H)"
  shows "solo_run L csk spk (tun H, relay_read url (H\<lparr>tun := D\<rparr>))
    (tun (relay_browser L csk spk url H), gone ((relay_browser L csk spk url H)\<lparr>tun := D\<rparr>))"
  using assms
proof (induction L csk spk url H rule: relay_browser.induct)
  case (1 L csk spk url H)
  obtain r H1 where r: "browser_recv H = (r, H1)" by force
  have t1: "tun H1 = tun H" using tun_free_tun [of browser_recv H] r by simp
  have e: "exc_str D = exc_str (tun H)" using "1.prems" by (simp add: same_config_def)
  have rD: "browser_recv (H\<lparr>tun := D\<rparr>) = (r, H1\<lparr>tun := D\<rparr>)" by (rule tun_freeD [OF tun_free_basic(4) r e])
  note read = relay_read.simps [of url "H\<lparr>tun := D\<rparr>"] relay_browser.simps [of L csk spk url H]
  consider (error) e where "r = Inl e" | (eof) "r = Inr []" | (chunk) data where "r = Inr data" "data \<noteq> []" by (cases r) auto
  then show ?case
  proof cases
    case error
    then show ?thesis using "1.IH"(1) [OF r [symmetric] error] "1.prems" t1 by (simp add: read rD r gone_def)
  next
    case eof
    then show ?thesis using t1 by (simp add: read rD r)
  next
    case chunk
    obtain x T' where s: "send_request L csk spk (relay_request url data) (tun H1) = (x, T')" by force
    obtain y H2 where y: "relay_end x (H1\<lparr>tun := T'\<rparr>) = (y, H2)" by force
    have o: "relay_once L csk spk url data H1 = (y, H2)" using s y by (simp add: relay_once_end on_tun_def)
    have c1: "same_config D (tun H1)" using "1.prems" t1 by simp
    note ch = chunk_alone [OF c1 s y]
    have "solo_run L csk spk (T', resume (For_chunk url) x (H1\<lparr>tun := D\<rparr>))
        (tun (relay_browser L csk spk url H), gone ((relay_browser L csk spk url H)\<lparr>tun := D\<rparr>))"
    proof (cases y)
      case (Inl e2)
      then show ?thesis using "1.IH"(2) [OF r [symmetric] chunk o [symmetric] Inl] ch(2-4)
        by (simp add: resume_def read r chunk o)
    next
      case (Inr shut)
      then show ?thesis using "1.IH"(3) [OF r [symmetric] chunk o [symmetric] Inr] ch(2-4)
        by (simp add: resume_def read r chunk o)
    qed
    with ch(1) have "solo_run L csk spk (tun H1, ask (H1\<lparr>tun := D\<rparr>) (For_chunk url) (relay_request url data))
        (tun (relay_browser L csk spk url H), gone ((relay_browser L csk spk url H)\<lparr>tun := D\<rparr>))"
      by (rule solo_run_trans)
    then show ?thesis by (simp add: read(1) rD chunk t1)
  qed
qed

lemma tun_commute:
  "B\<lparr>tun := D, b_blocking := b\<rparr> = B\<lparr>b_blocking := b, tun := D\<rparr>"
  "B\<lparr>tun := D, b_open := b\<rparr> = B\<lparr>b_open := b, tun := D\<rparr>"
  by simp_all

lemma page_alone:
  assumes "same_config D (tun H)"
  shows "solo_run L csk spk
    (tun H, ask (H\<lparr>tun := D\<rparr>) For_page (encode_request verb url (parse_headers lines) body))
    (tun (snd (px_handle_http L csk spk verb url lines body H)), gone ((snd (px_handle_http L csk spk verb url lines body H))\<lparr>tun := D\<rparr>))"
proof -
  obtain x T' where s: "send_request L csk spk (encode_request verb url (parse_headers lines) body) (tun H) = (x, T')"
    by force
  have "same_config D T'" using assms send_request_config [OF s] by (rule same_config_trans)
  then have e: "exc_str D = exc_str (tun (H\<lparr>tun := T'\<rparr>))" by (simp add: same_config_def)
  obtain y H2 where y: "http_end x (H\<lparr>tun := T'\<rparr>) = (y, H2)" by force
  have yD: "http_end x (H\<lparr>tun := D\<rparr>) = (y, H2\<lparr>tun := D\<rparr>)" using tun_freeD [OF tun_free_http_end y e] by simp
  have t: "tun H2 = T'" using tun_free_tun [OF tun_free_http_end y] by simp
  have "px_handle_http L csk spk verb url lines body H = (y, H2)" by (simp add: px_handle_http_end on_tun_def s y)
  moreover have "resume For_page x (H\<lparr>tun := D\<rparr>) = gone (H2\<lparr>tun := D\<rparr>)" by (simp add: resume_def yD)
  ultimately show ?thesis using ask_alone [OF s, of "H\<lparr>tun := D\<rparr>" For_page] assms t by (simp add: same_config_def)
qed

text \<open>The thread of a CONNECT, from the answer it gives the browser.\<close>

definition establish :: "pystr \<Rightarrow> browser \<Rightarrow> thread" where
  "establish url B =
     (case browser_sendall ESTABLISHED B of
        (Inl e, B1) \<Rightarrow> gone B1
      | (Inr _, B1) \<Rightarrow> ask B1 (For_tunnel url) (connect_request url))"

lemma tunnel_alone:
  assumes "same_config D (tun H)"
  shows "solo_run L csk spk (tun H, establish (target_url host port) (H\<lparr>tun := D\<rparr>))
    (tun (snd (px_handle_connect L csk spk host port H)), gone ((snd (px_handle_connect L csk spk host port H))\<lparr>tun := D\<rparr>))"
proof -
  let ?url = "target_url host port"
  obtain z H1 where z: "browser_sendall ESTABLISHED H = (z, H1)" by force
  have t1: "tun H1 = tun H" using tun_free_tun [of "browser_sendall ESTABLISHED" H] z by simp
  have "exc_str D = exc_str (tun H)" using assms by (simp add: same_config_def)
  from tun_freeD [OF tun_free_basic(5) z this]
  have zD: "browser_sendall ESTABLISHED (H\<lparr>tun := D\<rparr>) = (z, H1\<lparr>tun := D\<rparr>)" .
  show ?thesis
  proof (cases z)
    case (Inl x)
    then show ?thesis using t1 by (simp add: establish_def zD px_handle_connect_def andThen_def z)
  next
    case (Inr ok)
    obtain x T' where s: "send_request L csk spk (connect_request ?url) (tun H) = (x, T')" by force
    have c: "same_config D T'" using assms send_request_config [OF s] by (rule same_config_trans)
    have a: "solo_run L csk spk (tun H, ask (H1\<lparr>tun := D\<rparr>) (For_tunnel ?url) (connect_request ?url))
        (T', resume (For_tunnel ?url) x (H1\<lparr>tun := D\<rparr>))"
      by (rule ask_alone [OF s]) (use assms in \<open>simp add: same_config_def\<close>)
    let ?H = "H1\<lparr>tun := T', b_blocking := False\<rparr>"
    have h: "snd (px_handle_connect L csk spk host port H) = (case connect_end x of
        Inr code \<Rightarrow> if is_200 code then relay_browser L csk spk ?url ?H else H1\<lparr>tun := T'\<rparr> | Inl _ \<Rightarrow> H1\<lparr>tun := T'\<rparr>)"
      by (simp add: px_handle_connect_def andThen_def of_result_def z Inr try_except_def on_tun_def t1 s
          connect_end_def set_nonblocking_def ret_def split: sum.split)
    have "solo_run L csk spk (T', relay_read ?url (?H\<lparr>tun := D\<rparr>))
        (tun (relay_browser L csk spk ?url ?H), gone ((relay_browser L csk spk ?url ?H)\<lparr>tun := D\<rparr>))"
      using relay_alone [of D ?H] c by simp
    then have "solo_run L csk spk (T', resume (For_tunnel ?url) x (H1\<lparr>tun := D\<rparr>))
        (tun (snd (px_handle_connect L csk spk host port H)), gone ((snd (px_handle_connect L csk spk host port H))\<lparr>tun := D\<rparr>))"
      by (simp add: resume_def h tun_commute split: sum.split)
    from solo_run_trans [OF a this] show ?thesis by (simp add: establish_def zD Inr)
  qed
qed

text \<open>
  A browser's thread that runs alone, lock step by lock step, computes \<open>handle_browser\<close>: it ends,
  and the browser's socket and the shared tunnel are then in exactly the state that the whole
  function reaches and in no other, for plain requests and for tunnelled connections, on every path.
\<close>

lemma thread_alone:
  assumes "same_config (tun B) T"
  shows "solo_run L csk spk (T, Fresh B) (T', Gone B') \<longleftrightarrow>
    T' = tun (handle_browser L csk spk (B\<lparr>tun := T\<rparr>)) \<and> B' = (handle_browser L csk spk (B\<lparr>tun := T\<rparr>))\<lparr>tun := tun B\<rparr>"
proof -
  let ?H = "B\<lparr>tun := T\<rparr>" and ?D = "tun B"
  have e: "exc_str ?D = exc_str (tun ?H)" using assms by (simp add: same_config_def)
  obtain r H1 where r: "browser_recv ?H = (r, H1)" by force
  have t1: "tun H1 = T" using tun_free_tun [of browser_recv ?H] r by simp
  have rD: "browser_recv B = (r, H1\<lparr>tun := ?D\<rparr>)" using tun_freeD [OF tun_free_basic(4) r e] by simp
  have "\<exists>S. solo_run L csk spk (T, begin_thread B) (tun S, gone (S\<lparr>tun := ?D\<rparr>)) \<and>
      handle_browser L csk spk ?H = S\<lparr>b_open := False\<rparr>"
  proof (cases "\<exists>raw. r = Inr raw \<and> raw \<noteq> [] \<and> (\<exists>p. browser_request raw = Inr p \<and> p \<noteq> Malformed)")
    case False
    then have "begin_thread B = gone (H1\<lparr>tun := ?D\<rparr>)" "handle_browser L csk spk ?H = H1\<lparr>b_open := False\<rparr>"
      using r by (auto simp: begin_thread_def rD handle_browser_def serve_browser_def andThen_def of_result_def ret_def
          split: sum.split parsed.split)
    then show ?thesis using t1 by (intro exI [of _ H1]) simp
  next
    case True
    then obtain raw p where raw: "r = Inr raw" "raw \<noteq> []" "browser_request raw = Inr p" "p \<noteq> Malformed" by blast
    have c: "same_config ?D (tun H1)" using assms t1 by simp
    note run = begin_thread_def rD r raw handle_browser_def serve_browser_def andThen_def of_result_def
    show ?thesis
    proof (cases p)
      case (Http_to verb url lines body)
      then show ?thesis using page_alone [OF c, of L csk spk verb url lines body] t1 by (auto simp: run)
    next
      case (Connect_to hp)
      then show ?thesis using tunnel_alone [OF c, of L csk spk "fst hp" "snd hp"] t1
        by (cases hp) (auto simp: run establish_def)
    qed (use raw in simp)
  qed
  then have run: "solo_run L csk spk (T, Fresh B) (tun (handle_browser L csk spk ?H), Gone ((handle_browser L csk spk ?H)\<lparr>tun := ?D\<rparr>))"
    by (auto simp: gone_def tun_commute intro: solo_run_step)
  then show ?thesis using thread_machine.final_unique [OF run] by fastforce
qed

subsection \<open>All threads\<close>

text \<open>
  \<open>start_proxy\<close>.  \<open>born\<close> are the accepted browsers as they were when their threads started, \<open>exchanges\<close>
  the requests made on the tunnel, in the order in which the threads got the lock, each with its
  thread and its result.  A browser is accepted while the listening socket is open; a keyboard
  interrupt closes it and the tunnel, while the threads may still run.
\<close>

record proxy =
  shared :: tunnel
  born :: "browser list"
  threads :: "thread list"
  exchanges :: "(nat \<times> bytes \<times> (pyexn + bytes)) list"
  accepting :: bool

definition new_proxy :: "tunnel \<Rightarrow> proxy" where
  "new_proxy T = \<lparr>shared = T, born = [], threads = [], exchanges = [], accepting = True\<rparr>"

text \<open>The request a step of a thread makes on the tunnel, if it makes one.\<close>

fun exchange_of ::
    "('sk, 'pk) crypto_lib \<Rightarrow> 'sk \<Rightarrow> 'pk \<Rightarrow> nat \<Rightarrow> tunnel \<Rightarrow> thread \<Rightarrow> (nat \<times> bytes \<times> (pyexn + bytes)) list" where
  "exchange_of L csk spk i T (Calling B k req (Trying le (a # as))) = [(i, req, fst (do_request L csk spk req T))]"
| "exchange_of L csk spk i T _ = []"

definition run_thread :: "('sk, 'pk) crypto_lib \<Rightarrow> 'sk \<Rightarrow> 'pk \<Rightarrow> nat \<Rightarrow> proxy \<Rightarrow> proxy" where
  "run_thread L csk spk i P =
     (let (T, th) = solo L csk spk (shared P, threads P ! i)
      in P\<lparr>shared := T, threads := (threads P)[i := th],
           exchanges := exchanges P @ exchange_of L csk spk i (shared P) (threads P ! i)\<rparr>)"

definition accept_browser :: "browser \<Rightarrow> proxy \<Rightarrow> proxy" where
  "accept_browser B P =
     (let B0 = B\<lparr>tun := shared P\<rparr> in P\<lparr>born := born P @ [B0], threads := threads P @ [Fresh B0]\<rparr>)"

definition stop_proxy :: "proxy \<Rightarrow> proxy" where
  "stop_proxy P = P\<lparr>accepting := False, shared := snd (tunnel_close (shared P))\<rparr>"

inductive proxy_step :: "('sk, 'pk) crypto_lib \<Rightarrow> 'sk \<Rightarrow> 'pk \<Rightarrow> proxy \<Rightarrow> proxy \<Rightarrow> bool" for L csk spk where
  accept: "accepting P \<Longrightarrow> proxy_step L csk spk P (accept_browser B P)"
| run: "i < length (threads P) \<Longrightarrow> proxy_step L csk spk P (run_thread L csk spk i P)"
| stop: "accepting P \<Longrightarrow> proxy_step L csk spk P (stop_proxy P)"

inductive proxy_runs :: "('sk, 'pk) crypto_lib \<Rightarrow> 'sk \<Rightarrow> 'pk \<Rightarrow> proxy \<Rightarrow> proxy \<Rightarrow> bool" for L csk spk where
  none: "proxy_runs L csk spk P P"
| more: "proxy_runs L csk spk P Q \<Longrightarrow> proxy_step L csk spk Q R \<Longrightarrow> proxy_runs L csk spk P R"

lemma proxy_runs_rtranclp: "proxy_runs L csk spk = rtranclp (proxy_step L csk spk)"
proof (intro ext iffI)
  show "proxy_runs L csk spk s t \<Longrightarrow> rtranclp (proxy_step L csk spk) s t" for s t
    by (induction rule: proxy_runs.induct) auto
  show "rtranclp (proxy_step L csk spk) s t \<Longrightarrow> proxy_runs L csk spk s t" for s t
    by (induction rule: rtranclp_induct) (auto intro: proxy_runs.intros)
qed

interpretation proxy_sys: run_system "proxy_step L csk spk" "proxy_runs L csk spk" for L csk spk
  by unfold_locales (rule proxy_runs_rtranclp)

abbreviation requests_made :: "proxy \<Rightarrow> bytes list" where
  "requests_made P \<equiv> map (\<lambda>(i, req, r). req) (exchanges P)"

abbreviation results_got :: "proxy \<Rightarrow> (pyexn + bytes) list" where
  "results_got P \<equiv> map (\<lambda>(i, req, r). r) (exchanges P)"

lemma step_fields [simp]:
  "shared (accept_browser B P) = shared P" "exchanges (accept_browser B P) = exchanges P"
  "accepting (accept_browser B P) = accepting P"
  "accepting (run_thread L csk spk i P) = accepting P" "born (run_thread L csk spk i P) = born P"
  "length (threads (run_thread L csk spk i P)) = length (threads P)"
  "exchanges (run_thread L csk spk i P) = exchanges P @ exchange_of L csk spk i (shared P) (threads P ! i)"
  "shared (run_thread L csk spk i P) = fst (solo L csk spk (shared P, threads P ! i))"
  "\<not> accepting (stop_proxy P)" "exchanges (stop_proxy P) = exchanges P"
  by (simp_all add: accept_browser_def run_thread_def stop_proxy_def Let_def case_prod_beta)

lemma run_threads_nth:
  "j < length (threads P) \<Longrightarrow>
    threads (run_thread L csk spk i P) ! j = (if j = i then snd (solo L csk spk (shared P, threads P ! i)) else threads P ! j)"
  by (simp add: run_thread_def case_prod_beta nth_list_update)

text \<open>The three steps of a request that is answered or fails.\<close>

lemma run_thread_cases:
  "threads P ! i = Calling B k req (Trying le (a # as)) \<Longrightarrow> do_request L csk spk req (shared P) = (Inr resp, T) \<Longrightarrow>
    run_thread L csk spk i P = P\<lparr>shared := T, threads := (threads P)[i := Calling B k req (Over (Inr resp))],
      exchanges := exchanges P @ [(i, req, Inr resp)]\<rparr>"
  "threads P ! i = Calling B k req (Trying le (a # as)) \<Longrightarrow> do_request L csk spk req (shared P) = (Inl e, T) \<Longrightarrow>
    run_thread L csk spk i P = P\<lparr>shared := T, threads := (threads P)[i := Calling B k req (Reconnecting e a as)],
      exchanges := exchanges P @ [(i, req, Inl e)]\<rparr>"
  "threads P ! i = Calling B k req (Over r) \<Longrightarrow>
    run_thread L csk spk i P = P\<lparr>threads := (threads P)[i := resume k r B]\<rparr>"
  "threads P ! i = Fresh B \<Longrightarrow> run_thread L csk spk i P = P\<lparr>threads := (threads P)[i := begin_thread B]\<rparr>"
  by (simp_all add: run_thread_def)

subsection \<open>Requests in lock order\<close>

text \<open>A thread whose requests have all been answered so far.\<close>

fun healthy :: "proxy \<Rightarrow> nat \<Rightarrow> thread \<Rightarrow> bool" where
  "healthy P i (Fresh B) \<longleftrightarrow> 1 \<le> max_retries (tun B)"
| "healthy P i (Calling B k req ph) \<longleftrightarrow> 1 \<le> max_retries (tun B) \<and>
     ((\<exists>le a as. ph = Trying le (a # as)) \<or> (\<exists>resp. ph = Over (Inr resp) \<and> (i, req, Inr resp) \<in> set (exchanges P)))"
| "healthy P i (Gone B) \<longleftrightarrow> True"

lemma healthy_ask: "1 \<le> max_retries (tun B) \<Longrightarrow> healthy P i (ask B k req)"
  by (simp add: ask_def upto_rec1)

lemma healthy_gone [simp]: "healthy P i (gone B)"
  by (simp add: gone_def)

lemma healthy_begin:
  assumes "1 \<le> max_retries (tun B)"
  shows "healthy P i (begin_thread B)"
proof -
  have t: "tun B1 = tun B" if "browser_recv B = (r, B1)" for r B1
    using tun_free_tun [OF tun_free_basic(4) that] .
  have s: "tun B2 = tun B1" if "browser_sendall bs B1 = (r, B2)" for r bs B1 B2
    using tun_free_tun [OF tun_free_basic(5) that] .
  show ?thesis using assms
    by (auto simp: begin_thread_def t s split: prod.split sum.split parsed.split intro!: healthy_ask)
qed

lemma healthy_relay_read:
  assumes "1 \<le> max_retries (tun B)"
  shows "healthy P i (relay_read url B)"
  using assms
proof (induction url B rule: relay_read.induct)
  case (1 url B)
  obtain r B1 where r: "browser_recv B = (r, B1)" by force
  have t: "tun B1 = tun B" using tun_free_tun [OF tun_free_basic(4) r] .
  show ?case
    using "1.IH" [OF r [symmetric]] "1.prems" t r
    by (auto simp: relay_read.simps [of url B] split: sum.split intro!: healthy_ask)
qed

lemma healthy_resume:
  assumes "1 \<le> max_retries (tun B)"
  shows "healthy P i (resume k r B)"
proof -
  have t: "tun B1 = tun B" if "relay_end r B = (x, B1)" for x B1
    using tun_free_tun [OF tun_free_relay_end that] .
  show ?thesis using assms
    by (auto simp: resume_def t split: wait.split sum.split prod.split intro!: healthy_relay_read)
qed

lemma healthy_mono:
  "healthy P i th \<Longrightarrow> set (exchanges P) \<subseteq> set (exchanges Q) \<Longrightarrow> healthy Q i th"
  by (cases th) auto

lemma solo_healthy:
  assumes "healthy P i th" and "\<And>B k req le a as. th = Calling B k req (Trying le (a # as)) \<Longrightarrow>
      \<exists>resp T1. do_request L csk spk req T = (Inr resp, T1)"
    and "set (exchanges P) \<subseteq> set (exchanges Q)" and "set (exchange_of L csk spk i T th) \<subseteq> set (exchanges Q)"
  shows "healthy Q i (snd (solo L csk spk (T, th)))"
proof (cases th)
  case (Fresh B)
  then show ?thesis using assms(1) by (simp add: healthy_begin)
next
  case (Calling B k req ph)
  with assms(1) consider le a as where "ph = Trying le (a # as)" | resp where "ph = Over (Inr resp)" by auto
  then show ?thesis
  proof cases
    case 1
    with assms(2) Calling obtain resp T1 where "do_request L csk spk req T = (Inr resp, T1)" by blast
    then show ?thesis using Calling 1 assms(1,4) by simp
  qed (use Calling assms(1) in \<open>simp add: healthy_resume\<close>)
qed simp

text \<open>One step of a thread, against the calls in lock order.\<close>

lemma step_linear:
  assumes h: "healthy Q i (threads Q ! i)" and "same_config T (shared Q)"
    and zs: "tunnel_calls L csk spk (map (\<lambda>(i, req, r). req) (exchange_of L csk spk i (shared Q) (threads Q ! i))) (shared Q)
      = (Inr zs, T')"
  shows "map (\<lambda>(i, req, r). r) (exchange_of L csk spk i (shared Q) (threads Q ! i)) = map Inr zs" (is ?results)
    and "fst (solo L csk spk (shared Q, threads Q ! i)) = T'" (is ?state) and "same_config T T'" (is ?config)
    and "set (exchanges Q) \<subseteq> set (exchanges R) \<Longrightarrow>
      set (exchange_of L csk spk i (shared Q) (threads Q ! i)) \<subseteq> set (exchanges R) \<Longrightarrow>
      healthy R i (snd (solo L csk spk (shared Q, threads Q ! i)))"
proof -
  let ?th = "threads Q ! i"
  have ok: "\<exists>resp T2. do_request L csk spk req (shared Q) = (Inr resp, T2)"
    if "?th = Calling B k req (Trying le (a # as))" for B k req le a as
    using zs by (auto simp: that andThen_eq_Inr_iff ret_def)
  then show "set (exchanges Q) \<subseteq> set (exchanges R) \<Longrightarrow>
      set (exchange_of L csk spk i (shared Q) ?th) \<subseteq> set (exchanges R) \<Longrightarrow> healthy R i (snd (solo L csk spk (shared Q, ?th)))"
    by (rule solo_healthy [OF h])
  have "?results \<and> ?state \<and> ?config"
  proof (cases "\<exists>B k req le a as. ?th = Calling B k req (Trying le (a # as))")
    case True
    then obtain B k req le a as where th: "?th = Calling B k req (Trying le (a # as))" by blast
    then obtain resp where d: "do_request L csk spk req (shared Q) = (Inr resp, T')" and "zs = [resp]"
      using zs by (auto simp: andThen_eq_Inr_iff ret_def)
    then show ?thesis using th same_config_trans [OF assms(2) do_request_frame(1) [OF d]] by simp
  next
    case False
    then have "exchange_of L csk spk i (shared Q) ?th = []"
      by (cases "(L, csk, spk, i, shared Q, ?th)" rule: exchange_of.cases) auto
    moreover have "fst (solo L csk spk (shared Q, ?th)) = shared Q" using h False by (cases ?th) auto
    ultimately show ?thesis using zs assms(2) by (simp add: ret_def)
  qed
  then show ?results ?state ?config by simp_all
qed

lemma runs_linear:
  assumes "proxy_runs L csk spk P0 P" and "P0 = new_proxy T" and "1 \<le> max_retries T" and "accepting P"
    and "tunnel_calls L csk spk (requests_made P) T = (Inr xs, T')"
  shows "results_got P = map Inr xs \<and> shared P = T' \<and> same_config T T' \<and>
    (\<forall>i < length (threads P). healthy P i (threads P ! i))"
  using assms
proof (induction arbitrary: xs T')
  case (none P)
  then show ?case by (auto simp: new_proxy_def ret_def)
next
  case (more P Q R)
  from more.hyps(2) show ?case
  proof cases
    case (accept B)
    have "results_got Q = map Inr xs \<and> shared Q = T' \<and> same_config T T' \<and>
        (\<forall>i < length (threads Q). healthy Q i (threads Q ! i))"
      by (rule more.IH) (use more.prems accept in simp_all)
    then show ?thesis using more.prems(2) accept
      by (auto simp: accept_browser_def Let_def nth_append same_config_def less_Suc_eq intro: healthy_mono)
  next
    case (run i)
    let ?ex = "exchange_of L csk spk i (shared Q) (threads Q ! i)"
    obtain ys zs T1 where ys: "tunnel_calls L csk spk (requests_made Q) T = (Inr ys, T1)"
      and zs: "tunnel_calls L csk spk (map (\<lambda>(i, req, r). req) ?ex) T1 = (Inr zs, T')" and xs: "xs = ys @ zs"
      using more.prems(4) run(1) by (auto simp: tunnel_seq.append_iff)
    have IH: "results_got Q = map Inr ys \<and> shared Q = T1 \<and> same_config T T1 \<and>
        (\<forall>j < length (threads Q). healthy Q j (threads Q ! j))"
      by (rule more.IH) (use more.prems run ys in simp_all)
    then have h: "healthy Q i (threads Q ! i)" and c: "same_config T (shared Q)"
      and z: "tunnel_calls L csk spk (map (\<lambda>(i, req, r). req) ?ex) (shared Q) = (Inr zs, T')"
      using run(2) zs by simp_all
    note s = step_linear [OF h c z]
    have "healthy R i (snd (solo L csk spk (shared Q, threads Q ! i)))" by (rule s(4)) (auto simp: run(1))
    moreover have "healthy R j (threads Q ! j)" if "j < length (threads Q)" for j
      by (rule healthy_mono [of Q]) (use IH that run(1) in auto)
    ultimately show ?thesis using IH s(1-3) xs run(1) by (auto simp: run_threads_nth)
  next
    case stop
    then show ?thesis using more.prems(3) by simp
  qed
qed

subsection \<open>The pages of plain requests\<close>

text \<open>
  The thread of a browser that asks for a page: it makes that one request, and ends with what
  \<open>http_end\<close> makes of an answer to it.
\<close>

definition page_thread :: "proxy \<Rightarrow> nat \<Rightarrow> bool" where
  "page_thread P i \<longleftrightarrow> (\<forall>B req ph. begin_thread (born P ! i) = Calling B For_page req ph \<longrightarrow>
     (case threads P ! i of
        Fresh B0 \<Rightarrow> B0 = born P ! i
      | Calling B1 k r ph1 \<Rightarrow> B1 = B \<and> k = For_page \<and> r = req
      | Gone B1 \<Rightarrow> (\<exists>resp. (i, req, Inr resp) \<in> set (exchanges P) \<and> Gone B1 = resume For_page (Inr resp) B)))"

lemma page_thread_mono:
  assumes "page_thread Q j" and "threads R ! j = threads Q ! j" and "born R ! j = born Q ! j"
    and "set (exchanges Q) \<subseteq> set (exchanges R)"
  shows "page_thread R j"
  unfolding page_thread_def assms(2,3)
proof (intro allI impI)
  fix B req ph assume "begin_thread (born Q ! j) = Calling B For_page req ph"
  then show "case threads Q ! j of Fresh B0 \<Rightarrow> B0 = born Q ! j
    | Calling B1 k r ph1 \<Rightarrow> B1 = B \<and> k = For_page \<and> r = req
    | Gone B1 \<Rightarrow> (\<exists>resp. (j, req, Inr resp) \<in> set (exchanges R) \<and> Gone B1 = resume For_page (Inr resp) B)"
    using assms(1,4) by (cases "threads Q ! j") (simp add: page_thread_def, simp add: page_thread_def, simp add: page_thread_def, blast)
qed

text \<open>Its own step keeps that, if it is in a healthy state.\<close>

lemma page_thread_step:
  assumes "page_thread Q i" and "healthy Q i (threads Q ! i)" and "i < length (threads Q)"
  shows "page_thread (run_thread L csk spk i Q) i"
  unfolding page_thread_def
proof (intro allI impI)
  let ?R = "run_thread L csk spk i Q" and ?th = "threads Q ! i"
  fix B req ph assume "begin_thread (born ?R ! i) = Calling B For_page req ph"
  then have b: "begin_thread (born Q ! i) = Calling B For_page req ph" by simp
  have t: "threads ?R ! i = snd (solo L csk spk (shared Q, ?th))" using assms(3) by (simp add: run_threads_nth)
  show "case threads ?R ! i of Fresh B0 \<Rightarrow> B0 = born ?R ! i
    | Calling B1 k r ph1 \<Rightarrow> B1 = B \<and> k = For_page \<and> r = req
    | Gone B1 \<Rightarrow> (\<exists>resp. (i, req, Inr resp) \<in> set (exchanges ?R) \<and> Gone B1 = resume For_page (Inr resp) B)"
  proof (cases ?th)
    case (Fresh B0)
    then show ?thesis using assms(1) b unfolding t by (simp add: page_thread_def)
  next
    case (Calling B1 k r ph1)
    then have k: "B1 = B" "k = For_page" "r = req" using assms(1) b by (simp_all add: page_thread_def)
    from assms(2) Calling consider le a as where "ph1 = Trying le (a # as)"
      | resp where "ph1 = Over (Inr resp)" "(i, req, Inr resp) \<in> set (exchanges Q)" using k by auto
    then show ?thesis
      unfolding t Calling k
      by cases (auto simp: k case_prod_beta resume_def gone_def)
  next
    case (Gone B1)
    then show ?thesis using assms(1) b unfolding t by (auto simp: page_thread_def)
  qed
qed

lemma page_thread_runs:
  assumes "proxy_runs L csk spk P0 P" and "P0 = new_proxy T" and "1 \<le> max_retries T" and "accepting P"
    and "tunnel_calls L csk spk (requests_made P) T = (Inr xs, T')"
  shows "length (threads P) = length (born P) \<and> (\<forall>i < length (threads P). page_thread P i)"
  using assms
proof (induction arbitrary: xs T')
  case (none P)
  then show ?case by (simp add: new_proxy_def)
next
  case (more P Q R)
  from more.hyps(2) show ?case
  proof cases
    case (accept B)
    have IH: "length (threads Q) = length (born Q) \<and> (\<forall>i < length (threads Q). page_thread Q i)"
      by (rule more.IH) (use more.prems accept in simp_all)
    let ?B = "B\<lparr>tun := shared Q\<rparr>"
    have R: "threads R = threads Q @ [Fresh ?B]" "born R = born Q @ [?B]" "exchanges R = exchanges Q"
      by (simp_all add: accept accept_browser_def Let_def)
    have "page_thread R j" if "j < length (threads Q)" for j
      by (rule page_thread_mono [of Q]) (use IH that R in \<open>simp_all add: nth_append\<close>)
    moreover have "page_thread R (length (threads Q))"
      using R IH by (simp add: page_thread_def nth_append)
    ultimately show ?thesis using R IH by (auto simp: less_Suc_eq)
  next
    case (run i)
    obtain ys zs T1 where ys: "tunnel_calls L csk spk (requests_made Q) T = (Inr ys, T1)"
      using more.prems(4) run(1) by (auto simp: tunnel_seq.append_iff)
    have acc: "accepting Q" using more.prems(3) run(1) by simp
    have IH: "length (threads Q) = length (born Q) \<and> (\<forall>j < length (threads Q). page_thread Q j)"
      by (rule more.IH) (use more.prems acc ys in simp_all)
    have h: "healthy Q i (threads Q ! i)" using runs_linear [OF more.hyps(1) more.prems(1,2) acc ys] run(2) by blast
    have "page_thread R i" unfolding run(1) by (rule page_thread_step) (use IH h run(2) in simp_all)
    moreover have "page_thread R j" if "j \<noteq> i" "j < length (threads Q)" for j
      by (rule page_thread_mono [of Q]) (use IH that run in \<open>auto simp: run_threads_nth\<close>)
    ultimately have "page_thread R j" if "j < length (threads Q)" for j using that by (cases "j = i") auto
    then show ?thesis using IH run(1) by simp
  next
    case stop
    then show ?thesis using more.prems(3) by simp
  qed
qed

text \<open>
  Every request has got its answer from \<open>resps\<close>, and a browser that asked for a page and whose thread
  has ended has been sent what the proxy makes of the answer to its own request.
\<close>

definition own_pages :: "proxy \<Rightarrow> bytes list \<Rightarrow> bool" where
  "own_pages P resps \<longleftrightarrow> results_got P = map Inr resps \<and>
     (\<forall>i B req ph B'. i < length (threads P) \<longrightarrow> begin_thread (born P ! i) = Calling B For_page req ph \<longrightarrow>
        threads P ! i = Gone B' \<longrightarrow>
        (\<exists>k < length resps. exchanges P ! k = (i, req, Inr (resps ! k)) \<and>
           B' = (snd (http_end (Inr (resps ! k)) B))\<lparr>b_open := False\<rparr>))"

text \<open>
  C3. Browsers that share the tunnel each get their own page, under every interleaving of their
  threads.  For every sequence of requests that direct calls of the server would answer there are
  byte strings \<open>f\<close> and \<open>g\<close> for the two directions of the tunnel such that, whenever the threads of the
  proxy get the lock in an order in which they make these requests and the network brings \<open>g\<close>, the
  tunnel has sent \<open>f\<close>, each request has got the answer of its direct call, and the browser of every
  plain request whose thread has ended has been sent what the proxy makes of the answer to its own
  request; and a server that receives \<open>f\<close> sends \<open>g\<close>.
\<close>

theorem browsers_get_own_pages:
  assumes "aead_ok L" and "session_up T sid ek mk" and "1 \<le> max_retries T" and "fault_free (conn S)"
    and "direct_calls ip reqs S = (Inr (map (Pair DATA_RESPONSE) resps), S2)"
    and "length resps = length reqs" and "list_all payload_fits reqs" and "list_all payload_fits resps"
  shows "\<exists>f g.
    (\<forall>q rest P. arriving q = g @ rest \<longrightarrow>
       proxy_runs L csk spk (new_proxy (T\<lparr>link := (link T)\<lparr>inq := q\<rparr>\<rparr>)) P \<longrightarrow> accepting P \<longrightarrow> requests_made P = reqs \<longrightarrow>
       own_pages P resps \<and> sent (link (shared P)) = sent (link T) @ f) \<and>
    (\<forall>q rest. arriving q = f @ rest \<longrightarrow>
       (\<exists>c. serve_loop L ip sid ek mk (S\<lparr>conn := (conn S)\<lparr>inq := q\<rparr>\<rparr>)
              = serve_loop L ip sid ek mk (S2\<lparr>conn := c\<rparr>) \<and>
            sent c = sent (conn S) @ g \<and> arriving (inq c) = rest))"
proof -
  from tunnel_simulates [OF assms(1,2,4-8), of csk spk] obtain f g where
    client: "\<forall>q rest. arriving q = g @ rest \<longrightarrow>
       (\<exists>T'. tunnel_calls L csk spk reqs (T\<lparr>link := (link T)\<lparr>inq := q\<rparr>\<rparr>) = (Inr resps, T') \<and>
             sent (link T') = sent (link T) @ f \<and> arriving (inq (link T')) = rest)"
    and server: "\<forall>q rest. arriving q = f @ rest \<longrightarrow>
       (\<exists>c. serve_loop L ip sid ek mk (S\<lparr>conn := (conn S)\<lparr>inq := q\<rparr>\<rparr>)
              = serve_loop L ip sid ek mk (S2\<lparr>conn := c\<rparr>) \<and>
            sent c = sent (conn S) @ g \<and> arriving (inq c) = rest)" by blast
  have "own_pages P resps \<and> sent (link (shared P)) = sent (link T) @ f"
    if q: "arriving q = g @ rest" and run: "proxy_runs L csk spk (new_proxy (T\<lparr>link := (link T)\<lparr>inq := q\<rparr>\<rparr>)) P"
      and acc: "accepting P" and reqs: "requests_made P = reqs" for q rest P
  proof -
    let ?T = "T\<lparr>link := (link T)\<lparr>inq := q\<rparr>\<rparr>"
    obtain T' where T': "tunnel_calls L csk spk (requests_made P) ?T = (Inr resps, T')" "sent (link T') = sent (link T) @ f"
      using client q reqs by blast
    have n: "1 \<le> max_retries ?T" using assms(3) by simp
    have lin: "results_got P = map Inr resps" "shared P = T'"
      using runs_linear [OF run refl n acc T'(1)] by blast+
    have own: "\<exists>k < length resps. exchanges P ! k = (i, req, Inr (resps ! k)) \<and>
             B' = (snd (http_end (Inr (resps ! k)) B))\<lparr>b_open := False\<rparr>"
      if "i < length (threads P)" and "begin_thread (born P ! i) = Calling B For_page req ph"
        and "threads P ! i = Gone B'" for i B req ph B'
    proof -
      note ended = that(2,3)
      have "page_thread P i" using page_thread_runs [OF run refl n acc T'(1)] that(1) by blast
      then obtain resp where "(i, req, Inr resp) \<in> set (exchanges P)" and B': "Gone B' = resume For_page (Inr resp) B"
        using ended by (auto simp: page_thread_def)
      then obtain k where k: "k < length (exchanges P)" "exchanges P ! k = (i, req, Inr resp)"
        by (auto simp: in_set_conv_nth)
      have "results_got P ! k = Inr resp" using k by simp
      moreover have "k < length reqs" using k(1) reqs by auto
      ultimately have "resps ! k = resp" "k < length resps" using lin(1) assms(6) by simp_all
      then show ?thesis using k B' by (auto simp: resume_def gone_def)
    qed
    have "own_pages P resps" unfolding own_pages_def using lin(1) own by blast
    then show ?thesis using lin(2) T'(2) by simp
  qed
  with server show ?thesis by blast
qed

text \<open>One browser with the request line of \<open>demo_line\<close>, and its three steps.\<close>

definition demo_get_a :: bytes where
  "demo_get_a = encode_request (u ''GET'') (u ''a'') [] []"

lemma demo_get_a_direct:
  "\<exists>S2. direct_calls (u ''10.0.0.9'') [demo_get_a] demo_admitted = (Inr [(DATA_RESPONSE, demo_page)], S2)"
proof -
  have up: "upper (u ''GET'') = u ''GET''" by (simp add: upper_def u_Cons)
  have "forward_request demo_get_a = dispatch (u ''GET'') (JStr (u ''a'')) (JObj []) []"
    using forward_encode [of "u ''GET''" "u ''a''" "[]" "[]"] up by (simp add: headers_ok_def demo_get_a_def)
  then have "\<exists>F'. forward_request demo_get_a demo_fw = (Inr demo_page, F')"
    by (simp add: dispatch_def fw_handle_http_def forward_headers_def andThen_def of_result_def
        try_except_def http_request_def read_content_def demo_fw_def ret_def Let_def demo_page_def)
  then show ?thesis
    by (auto simp: direct_call_def lim_is_idle_def lim_touch_def lim_check_rate_def monotonic_def andThen_def
        ret_def forward_or_500_def try_except_def on_fwd_def demo_admitted_def demo_srv_def new_limiter_def
        try_add_connection_def conns_for_def is_idle_def touch_def check_rate_def new_bucket_def consume_def Let_def)
qed

lemma demo_begin:
  "\<exists>B1. begin_thread ((demo_browser [Seg (ascii_bytes demo_line)] [])\<lparr>tun := T\<rparr>) = ask B1 For_page demo_get_a \<and> tun B1 = T"
proof -
  let ?B = "(demo_browser [Seg (ascii_bytes demo_line)] [])\<lparr>tun := T\<rparr>"
  have ne: "ascii_bytes demo_line \<noteq> []" by (simp add: ascii_bytes_def demo_line_def u_Cons)
  have "length (ascii_bytes demo_line) = 11" by (simp add: demo_line_def CRLF_def)
  with ne obtain B1 where r: "browser_recv ?B = (Inr (ascii_bytes demo_line), B1)"
    by (cases "ascii_bytes demo_line") (auto simp: browser_recv_def demo_browser_def BUFFER_SIZE_def)
  have "tun B1 = T" using tun_free_tun [OF tun_free_basic(4) r] by simp
  then show ?thesis using ne r
    by (intro exI [of _ B1]) (simp add: begin_thread_def demo_line_parsed parse_no_headers demo_get_a_def)
qed

lemma single_exchange:
  "map fst xs = [i] \<Longrightarrow> map (\<lambda>(i, req, r). req) xs = [req] \<Longrightarrow> map (\<lambda>(i, req, r). r) xs = [r] \<Longrightarrow> xs = [(i, req, r)]"
  by (cases xs) auto

theorem browsers_get_own_pages_witness:
  "\<exists>g P. proxy_runs model_lib [1] [2] (new_proxy (demo_tunnel\<lparr>link := (link demo_tunnel)\<lparr>inq := [Seg g]\<rparr>\<rparr>)) P \<and>
     exchanges P = [(0, demo_get_a, Inr demo_page)]"
proof -
  obtain S2 where d: "direct_calls (u ''10.0.0.9'') [demo_get_a] demo_admitted
      = (Inr (map (Pair DATA_RESPONSE) [demo_page]), S2)" using demo_get_a_direct by auto
  have up: "session_up demo_tunnel (replicate 16 1) (replicate 32 2) (replicate 32 3)"
    by (simp add: session_up_def demo_tunnel_def demo_lost_def new_tunnel_def fault_free_def wire_simps)
  have n: "max_retries demo_tunnel = 3" by (simp add: demo_tunnel_def demo_lost_def new_tunnel_def)
  then have tries: "1 \<le> max_retries demo_tunnel" by simp
  have ff: "fault_free (conn demo_admitted)"
    by (simp add: demo_admitted_def demo_srv_def fault_free_def world0_def)
  have sizes: "length [demo_page] = length [demo_get_a]" "list_all payload_fits [demo_get_a]"
    "list_all payload_fits [demo_page]" using demo_sizes demo_line_fits by (simp_all add: demo_get_a_def)
  from browsers_get_own_pages [OF model_lib_ok(1) up tries ff d sizes, of "[1]" "[2]"]
  obtain f g where own: "\<forall>q rest P. arriving q = g @ rest \<longrightarrow>
       proxy_runs model_lib [1] [2] (new_proxy (demo_tunnel\<lparr>link := (link demo_tunnel)\<lparr>inq := q\<rparr>\<rparr>)) P \<longrightarrow> accepting P \<longrightarrow>
       requests_made P = [demo_get_a] \<longrightarrow> own_pages P [demo_page] \<and> sent (link (shared P)) = sent (link demo_tunnel) @ f"
    by blast
  let ?T = "demo_tunnel\<lparr>link := (link demo_tunnel)\<lparr>inq := [Seg g]\<rparr>\<rparr>"
  let ?P0 = "new_proxy ?T" and ?B = "demo_browser [Seg (ascii_bytes demo_line)] []"
  let ?P1 = "accept_browser ?B ?P0"
  let ?P2 = "run_thread model_lib [1] [2] 0 ?P1"
  let ?P3 = "run_thread model_lib [1] [2] 0 ?P2"
  obtain B1 where b: "begin_thread (?B\<lparr>tun := ?T\<rparr>) = ask B1 For_page demo_get_a" "tun B1 = ?T"
    using demo_begin by blast
  have 1: "threads ?P1 = [Fresh (?B\<lparr>tun := ?T\<rparr>)]" "exchanges ?P1 = []" "accepting ?P0"
    by (simp_all add: accept_browser_def new_proxy_def Let_def)
  have "run_thread model_lib [1] [2] 0 ?P1 = ?P1\<lparr>threads := (threads ?P1)[0 := begin_thread (?B\<lparr>tun := ?T\<rparr>)]\<rparr>"
    by (rule run_thread_cases(4)) (simp add: 1)
  then have 2: "threads ?P2 = [Calling B1 For_page demo_get_a (Trying None [1 .. 3])]" "exchanges ?P2 = []"
    using 1 b n by (simp_all add: ask_def)
  have 3: "requests_made ?P3 = [demo_get_a]" "map fst (exchanges ?P3) = [0]"
    using 2 by (simp_all add: upto_rec1 del: step_fields(8))
  have "proxy_runs model_lib [1] [2] ?P0 ?P1" by (rule proxy_sys.one) (rule proxy_step.accept [OF 1(3)])
  then have "proxy_runs model_lib [1] [2] ?P0 ?P2" by (rule proxy_runs.more) (rule proxy_step.run, simp add: 1)
  then have run: "proxy_runs model_lib [1] [2] ?P0 ?P3" by (rule proxy_runs.more) (rule proxy_step.run, simp add: 2)
  have arr: "arriving [Seg g] = g @ []" and acc: "accepting ?P3" by (simp_all add: new_proxy_def)
  from own [rule_format, OF arr run acc 3(1)] have "own_pages ?P3 [demo_page]" ..
  then have "results_got ?P3 = map Inr [demo_page]" unfolding own_pages_def by blast
  then have "exchanges ?P3 = [(0, demo_get_a, Inr demo_page)]" using 3 by (intro single_exchange) simp_all
  then show ?thesis using run by blast
qed

subsection \<open>A late reply\<close>

lemma recv_frame_stall:
  "inq w = Stall # q \<Longrightarrow> recv_frame L ek mk w = (Inl (Lib TimeoutErrorC), w\<lparr>inq := q\<rparr>)"
  by (simp add: recv_frame_def recv_exact_def recv_exact_loop.simps wire_simps andThen_def)

lemma exchange_stalls:
  assumes "aead_ok L" and "fault_free w" and "length sid = SESSION_ID_SIZE" and "length ek = AES_KEY_SIZE"
    and "payload_fits req" and "inq w = Stall # q"
  shows "exchange L sid (Some ek) (Some mk) req w = (Inl (Lib TimeoutErrorC), w\<lparr>rnd_pos := rnd_pos w + GCM_NONCE_SIZE,
    sent := sent w @ sealed_frame L ek mk w (DATA_REQUEST, sid, req), inq := q\<rparr>)"
proof -
  have "send_frame L DATA_REQUEST sid req (Some ek) (Some mk) w = (Inr (), w\<lparr>rnd_pos := rnd_pos w + GCM_NONCE_SIZE,
      sent := sent w @ sealed_frame L ek mk w (DATA_REQUEST, sid, req)\<rparr>)"
    by (rule sealed_frame_sent(1)) (use assms in \<open>simp_all add: fault_free_def\<close>)
  then show ?thesis using assms(6) by (simp add: exchange_def andThen_def recv_frame_stall)
qed

text \<open>
  On one tunnel: the first request times out, the second takes the reply that then comes.
\<close>

lemma late_reply_taken:
  assumes "aead_ok L" and "session_up T sid ek mk" and "payload_fits req" and "payload_fits req'"
    and "carries L (Some ek) (Some mk) (DATA_RESPONSE, sid, page) g" and "arriving q = g @ rest"
  obtains w1 w2 f' where
    "do_request L csk spk req (T\<lparr>link := (link T)\<lparr>inq := Stall # q\<rparr>\<rparr>) = (Inl (Lib TimeoutErrorC), T\<lparr>link := w1\<rparr>)"
    "do_request L csk spk req' (T\<lparr>link := w1\<rparr>) = (Inr page, T\<lparr>link := w2\<rparr>)"
    "sent w2 = sent (link T) @ sealed_frame L ek mk (link T) (DATA_REQUEST, sid, req) @ f'"
proof -
  let ?w = "link T" and ?wa = "(link T)\<lparr>inq := Stall # q\<rparr>"
  let ?Ta = "T\<lparr>link := ?wa\<rparr>"
  have up: "is_connected T" "has_sock T" "session_id_of T = Some sid" "enc_key_of T = Some ek" "mac_key_of T = Some mk"
    "fault_free ?w" and len: "length sid = SESSION_ID_SIZE" "length ek = AES_KEY_SIZE"
    using assms(2) by (simp_all add: session_up_def)
  define w1 where "w1 = ?wa\<lparr>rnd_pos := rnd_pos ?wa + GCM_NONCE_SIZE,
      sent := sent ?wa @ sealed_frame L ek mk ?wa (DATA_REQUEST, sid, req), inq := q\<rparr>"
  have f0: "sealed_frame L ek mk ?wa (DATA_REQUEST, sid, req) = sealed_frame L ek mk ?w (DATA_REQUEST, sid, req)"
    by (rule sealed_frame_cong) simp_all
  have ff: "fault_free ?wa" "fault_free w1" and q1: "arriving (inq w1) = g @ rest"
    using up(6) assms(6) by (simp_all add: w1_def fault_free_def)
  have x0: "exchange L sid (Some ek) (Some mk) req ?wa = (Inl (Lib TimeoutErrorC), w1)"
    unfolding w1_def by (rule exchange_stalls [OF assms(1) ff(1) len assms(3)]) simp
  obtain q2 where x1: "exchange L sid (Some ek) (Some mk) req' w1 = (Inr page, w1\<lparr>rnd_pos := rnd_pos w1 + GCM_NONCE_SIZE,
      sent := sent w1 @ sealed_frame L ek mk w1 (DATA_REQUEST, sid, req'), inq := q2\<rparr>)"
    by (rule exchange_run [OF assms(1) ff(2) len assms(4,5) q1])
  show ?thesis
  proof (rule that)
    show "do_request L csk spk req ?Ta = (Inl (Lib TimeoutErrorC), T\<lparr>link := w1\<rparr>)"
      using do_request_connected [of ?Ta sid L csk spk req] up x0 by (simp add: on_link_def)
    show "do_request L csk spk req' (T\<lparr>link := w1\<rparr>) = (Inr page, T\<lparr>link := w1\<lparr>rnd_pos := rnd_pos w1 + GCM_NONCE_SIZE,
        sent := sent w1 @ sealed_frame L ek mk w1 (DATA_REQUEST, sid, req'), inq := q2\<rparr>\<rparr>)"
      using do_request_connected [of "T\<lparr>link := w1\<rparr>" sid L csk spk req'] up x1 by (simp add: on_link_def)
    show "sent (w1\<lparr>rnd_pos := rnd_pos w1 + GCM_NONCE_SIZE, sent := sent w1 @ sealed_frame L ek mk w1 (DATA_REQUEST, sid, req'),
        inq := q2\<rparr>) = sent ?w @ sealed_frame L ek mk ?w (DATA_REQUEST, sid, req) @ sealed_frame L ek mk w1 (DATA_REQUEST, sid, req')"
      by (simp add: w1_def f0)
  qed
qed

text \<open>
  C34. A late reply goes to the wrong browser.  When the reply to one thread's request comes after the
  timeout of the receive, but before that thread has got the lock again to reconnect, another
  thread that gets the lock in between sends its own request on the old connection and takes the
  late reply for its answer: the server's answer to \<open>req\<close> is written to the browser that asked for
  \<open>req'\<close>.
\<close>

theorem late_reply_crosses_browsers:
  assumes "aead_ok L" and "session_up (shared P) sid ek mk" and "fault_free (conn S)"
    and "direct_calls ip [req] S = (Inr [(DATA_RESPONSE, page)], S2)"
    and "payload_fits req" and "payload_fits req'" and "payload_fits page"
    and "i < length (threads P)" and "j < length (threads P)" and "i \<noteq> j"
    and "threads P ! i = Calling B For_page req (Trying None (a # as))"
    and "threads P ! j = Calling B' For_page req' (Trying None (a' # as'))"
  shows "\<exists>f g.
    (\<forall>q rest. arriving q = f @ rest \<longrightarrow>
       (\<exists>c. serve_loop L ip sid ek mk (S\<lparr>conn := (conn S)\<lparr>inq := q\<rparr>\<rparr>)
              = serve_loop L ip sid ek mk (S2\<lparr>conn := c\<rparr>) \<and>
            sent c = sent (conn S) @ g \<and> arriving (inq c) = rest)) \<and>
    (\<forall>q rest. arriving q = g @ rest \<longrightarrow>
       (\<exists>Q f'. proxy_runs L csk spk (P\<lparr>shared := (shared P)\<lparr>link := (link (shared P))\<lparr>inq := Stall # q\<rparr>\<rparr>\<rparr>) Q \<and>
          sent (link (shared Q)) = sent (link (shared P)) @ f @ f' \<and>
          exchanges Q = exchanges P @ [(i, req, Inl (Lib TimeoutErrorC)), (j, req', Inr page)] \<and>
          threads Q ! j = Gone ((snd (http_end (Inr page) B'))\<lparr>b_open := False\<rparr>)))"
proof -
  let ?w = "link (shared P)"
  let ?f = "sealed_frame L ek mk ?w (DATA_REQUEST, sid, req)"
  let ?g = "sealed_frame L ek mk (conn S) (DATA_RESPONSE, sid, page)"
  have len: "length sid = SESSION_ID_SIZE" "length ek = AES_KEY_SIZE" and faults: "send_faults ?w = []"
    using assms(2) by (simp_all add: session_up_def fault_free_def)
  have server: "\<exists>c. serve_loop L ip sid ek mk (S\<lparr>conn := (conn S)\<lparr>inq := q\<rparr>\<rparr>) = serve_loop L ip sid ek mk (S2\<lparr>conn := c\<rparr>) \<and>
      sent c = sent (conn S) @ ?g \<and> arriving (inq c) = rest" if q: "arriving q = ?f @ rest" for q rest
    by (rule server_answers_calls [OF assms(1) len faults assms(3), where ?reqs = "[req]" and ?as = "[(DATA_RESPONSE, page)]", simplified])
      (use assms(4,5,7) q in simp_all)
  have g: "carries L (Some ek) (Some mk) (DATA_RESPONSE, sid, page) ?g"
    by (rule sealed_frame_sent(2)) (use assms len in \<open>simp_all add: fault_free_def\<close>)
  have "\<exists>Q f'. proxy_runs L csk spk (P\<lparr>shared := (shared P)\<lparr>link := ?w\<lparr>inq := Stall # q\<rparr>\<rparr>\<rparr>) Q \<and>
      sent (link (shared Q)) = sent ?w @ ?f @ f' \<and>
      exchanges Q = exchanges P @ [(i, req, Inl (Lib TimeoutErrorC)), (j, req', Inr page)] \<and>
      threads Q ! j = Gone ((snd (http_end (Inr page) B'))\<lparr>b_open := False\<rparr>)" if q: "arriving q = ?g @ rest" for q rest
  proof -
    let ?P0 = "P\<lparr>shared := (shared P)\<lparr>link := ?w\<lparr>inq := Stall # q\<rparr>\<rparr>\<rparr>"
    obtain w1 w2 f' where d0: "do_request L csk spk req (shared ?P0) = (Inl (Lib TimeoutErrorC), (shared P)\<lparr>link := w1\<rparr>)"
      and d1: "do_request L csk spk req' ((shared P)\<lparr>link := w1\<rparr>) = (Inr page, (shared P)\<lparr>link := w2\<rparr>)"
      and s: "sent w2 = sent ?w @ ?f @ f'"
      by (rule late_reply_taken [OF assms(1,2,5,6) g q, of csk spk]) simp
    let ?P1 = "?P0\<lparr>shared := (shared P)\<lparr>link := w1\<rparr>, threads := (threads P)[i := Calling B For_page req (Reconnecting (Lib TimeoutErrorC) a as)],
        exchanges := exchanges P @ [(i, req, Inl (Lib TimeoutErrorC))]\<rparr>"
    let ?P2 = "?P1\<lparr>shared := (shared P)\<lparr>link := w2\<rparr>, threads := (threads ?P1)[j := Calling B' For_page req' (Over (Inr page))],
        exchanges := exchanges ?P1 @ [(j, req', Inr page)]\<rparr>"
    let ?P3 = "?P2\<lparr>threads := (threads ?P2)[j := resume For_page (Inr page) B']\<rparr>"
    have P1: "run_thread L csk spk i ?P0 = ?P1" using assms(11) d0 by (simp add: run_thread_cases(2))
    have P2: "run_thread L csk spk j ?P1 = ?P2" using assms(9,10,12) d1 by (simp add: run_thread_cases(1))
    have P3: "run_thread L csk spk j ?P2 = ?P3" using assms(9) by (simp add: run_thread_cases(3))
    note step = proxy_step.run [of i ?P0 L csk spk, unfolded P1] proxy_step.run [of j ?P1 L csk spk, unfolded P2]
      proxy_step.run [of j ?P2 L csk spk, unfolded P3]
    have "proxy_runs L csk spk ?P0 ?P3"
      by (rule proxy_runs.more [OF proxy_runs.more [OF proxy_sys.one]])
        (rule step(1), simp add: assms(8), rule step(2), simp add: assms(9), rule step(3), simp add: assms(9))
    then show ?thesis
      by (intro exI [of _ ?P3] exI [of _ f']) (use s assms(9) in \<open>simp add: resume_def gone_def\<close>)
  qed
  with server show ?thesis by blast
qed

text \<open>Two browsers whose threads are about to make their first attempts.\<close>

definition demo_two :: proxy where
  "demo_two = (new_proxy demo_tunnel)\<lparr>threads :=
     [Calling (demo_browser [] []) For_page demo_get_a (Trying None [1, 2, 3]),
      Calling (demo_browser [] []) For_page demo_get (Trying None [1, 2, 3])]\<rparr>"

theorem late_reply_crosses_browsers_witness:
  "\<exists>g Q. proxy_runs model_lib [1] [2] (demo_two\<lparr>shared := demo_tunnel\<lparr>link := (link demo_tunnel)\<lparr>inq := Stall # [Seg g]\<rparr>\<rparr>\<rparr>) Q \<and>
    exchanges Q = [(0, demo_get_a, Inl (Lib TimeoutErrorC)), (1, demo_get, Inr demo_page)] \<and> demo_get \<noteq> demo_get_a"
proof -
  obtain S2 where d: "direct_calls (u ''10.0.0.9'') [demo_get_a] demo_admitted = (Inr [(DATA_RESPONSE, demo_page)], S2)"
    using demo_get_a_direct by blast
  have up: "session_up (shared demo_two) (replicate 16 1) (replicate 32 2) (replicate 32 3)"
    by (simp add: session_up_def demo_two_def new_proxy_def demo_tunnel_def demo_lost_def new_tunnel_def fault_free_def wire_simps)
  have ff: "fault_free (conn demo_admitted)"
    by (simp add: demo_admitted_def demo_srv_def fault_free_def world0_def)
  have sizes: "payload_fits demo_get_a" "payload_fits demo_get" "payload_fits demo_page"
    using demo_sizes demo_line_fits by (simp_all add: demo_get_a_def)
  have two: "0 < length (threads demo_two)" "1 < length (threads demo_two)" "(0 :: nat) \<noteq> 1"
    "threads demo_two ! 0 = Calling (demo_browser [] []) For_page demo_get_a (Trying None (1 # [2, 3]))"
    "threads demo_two ! 1 = Calling (demo_browser [] []) For_page demo_get (Trying None (1 # [2, 3]))"
    and s: "shared demo_two = demo_tunnel" "exchanges demo_two = []"
    by (simp_all add: demo_two_def new_proxy_def)
  from late_reply_crosses_browsers [OF model_lib_ok(1) up ff d sizes two, of "[1]" "[2]"]
  obtain f g where late: "\<forall>q rest. arriving q = g @ rest \<longrightarrow>
     (\<exists>Q f'. proxy_runs model_lib [1] [2] (demo_two\<lparr>shared := (shared demo_two)\<lparr>link := (link (shared demo_two))\<lparr>inq := Stall # q\<rparr>\<rparr>\<rparr>) Q \<and>
        sent (link (shared Q)) = sent (link (shared demo_two)) @ f @ f' \<and>
        exchanges Q = exchanges demo_two @ [(0, demo_get_a, Inl (Lib TimeoutErrorC)), (1, demo_get, Inr demo_page)] \<and>
        threads Q ! 1 = Gone ((snd (http_end (Inr demo_page) (demo_browser [] [])))\<lparr>b_open := False\<rparr>))" by blast
  have arr: "arriving [Seg g] = g @ []" by simp
  have "loads_bytes demo_get \<noteq> loads_bytes demo_get_a"
    by (simp add: demo_get_def demo_get_a_def encode_request_def loads_dumps_bytes)
  then have "demo_get \<noteq> demo_get_a" by auto
  with late [rule_format, OF arr] show ?thesis unfolding s by auto
qed

end
