(* ===== verification/Proxy_Runs.thy ===== *)
theory Proxy_Runs
  imports Proxy_Threads
begin

text \<open>
  Whole runs of the proxy with all its browsers: every browser's thread ends after a bounded number of
  its own steps, however the others are scheduled, and closes its socket.
\<close>

subsection \<open>What a thread has left to do\<close>

text \<open>
  How many steps a thread can still make: three for each attempt of its request, two more to give up and
  to take the result up, and as many again for each byte or event its browser may still send.
\<close>

fun call_left :: "call_phase \<Rightarrow> nat" where
  "call_left (Trying le as) = 3 * length as + 2"
| "call_left (Reconnecting e a as) = 3 * length as + 4"
| "call_left (Sleeping e a as) = 3 * length as + 3"
| "call_left (Over r) = 1"

definition round_left :: "browser \<Rightarrow> nat" where
  "round_left B = 3 * nat (max_retries (tun B)) + 3"

fun steps_left :: "thread \<Rightarrow> nat" where
  "steps_left (Fresh B) = Suc (unread (b_inq B)) * round_left B"
| "steps_left (Calling B k req ph) = call_left ph + unread (b_inq B) * round_left B"
| "steps_left (Gone B) = 0"

lemma call_left_pos [simp]: "call_left ph \<noteq> 0"
  by (cases ph) simp_all

lemma steps_left_gone [simp]: "steps_left (gone B) = 0"
  by (simp add: gone_def)

lemma round_left_pos [simp]: "0 < round_left B"
  by (simp add: round_left_def)

lemma steps_left_ask:
  assumes "round_left B1 = round_left B" and "unread (b_inq B1) < n"
  shows "steps_left (ask B1 k req) < n * round_left B"
proof -
  have "steps_left (ask B1 k req) < Suc (unread (b_inq B1)) * round_left B"
    using assms(1) by (simp add: ask_def round_left_def)
  also have "\<dots> \<le> n * round_left B" using assms(2) by (intro mult_le_mono1) simp
  finally show ?thesis .
qed

text \<open>Reading from the browser and writing to it keep these bounds.\<close>

lemma recv_event_left: "recv_event n q = (r, q') \<Longrightarrow> unread q' \<le> unread q"
  by (induction n q rule: recv_event.induct) (auto simp: unread_def split: if_splits)

lemma blocking_recv_left: "blocking_recv n q = (r, q') \<Longrightarrow> unread q' \<le> unread q"
  by (induction n q rule: blocking_recv.induct) (auto simp: unread_def split: if_splits)

lemma recv_left:
  assumes "browser_recv B = (r, B1)"
  shows "round_left B1 = round_left B \<and> unread (b_inq B1) \<le> unread (b_inq B)"
  using assms recv_event_left [of BUFFER_SIZE "b_inq B"] blocking_recv_left [of BUFFER_SIZE "b_inq B"]
  by (auto simp: browser_recv_def round_left_def Let_def split: prod.splits if_splits)

lemma sendall_left: "browser_sendall bs B = (r, B1) \<Longrightarrow> round_left B1 = round_left B \<and> b_inq B1 = b_inq B"
  by (auto simp: browser_sendall_def round_left_def split: list.splits option.splits)

lemma relay_end_left: "relay_end r B = (x, B1) \<Longrightarrow> round_left B1 = round_left B \<and> b_inq B1 = b_inq B"
  by (auto simp: relay_end_def andThen_def of_result_def ret_def split: sum.splits prod.splits if_splits
      dest!: sendall_left)

lemma begin_left: "steps_left (begin_thread B) < steps_left (Fresh B)"
proof -
  have pos: "0 < round_left B + unread (b_inq B) * round_left B" by simp
  show ?thesis
    using steps_left_ask [of _ B "Suc (unread (b_inq B))"]
    by (auto simp: begin_thread_def le_imp_less_Suc pos split: prod.split sum.split parsed.split
        dest!: recv_left sendall_left simp del: mult_Suc)
qed

lemma relay_read_left: "steps_left (relay_read url B) \<le> unread (b_inq B) * round_left B"
proof (induction url B rule: relay_read.induct)
  case (1 url B)
  obtain r B1 where r: "browser_recv B = (r, B1)" by force
  note keep = recv_left [OF r] and read = relay_read.simps [of url B]
  show ?case
  proof (cases r)
    case (Inl e)
    show ?thesis
    proof (cases "catches BlockingIOErrorC e")
      case True
      have "steps_left (relay_read url B1) \<le> unread (b_inq B1) * round_left B1"
        by (rule "1.IH" [OF r [symmetric] Inl True])
      also have "\<dots> \<le> unread (b_inq B) * round_left B" using keep by (simp add: mult_le_mono1)
      finally show ?thesis using r Inl True by (simp add: read)
    qed (use r Inl in \<open>simp add: read\<close>)
  next
    case (Inr data)
    have "steps_left (ask B1 (For_chunk url) (relay_request url data)) < unread (b_inq B) * round_left B" if "data \<noteq> []"
      using keep browser_recv_progress [OF r] that Inr by (intro steps_left_ask) simp_all
    then show ?thesis using r Inr by (simp add: read less_imp_le)
  qed
qed

lemma resume_left: "steps_left (resume k r B) \<le> unread (b_inq B) * round_left B"
proof (cases k)
  case (For_tunnel url)
  have "round_left (B\<lparr>b_blocking := False\<rparr>) = round_left B" by (simp add: round_left_def)
  then show ?thesis using relay_read_left [of url "B\<lparr>b_blocking := False\<rparr>"] For_tunnel
    by (simp add: resume_def split: sum.split)
next
  case (For_chunk url)
  obtain x B1 where x: "relay_end r B = (x, B1)" by force
  then show ?thesis using relay_read_left [of url B1] relay_end_left [OF x] For_chunk
    by (simp add: resume_def split: sum.split)
qed (simp add: resume_def)

text \<open>Every step of a thread that has not ended uses one up, whatever the tunnel does.\<close>

lemma call_next_left: "(\<And>r. ph \<noteq> Over r) \<Longrightarrow> call_left (snd (call_next L csk spk req T ph)) < call_left ph"
  by (cases "(L, csk, spk, req, T, ph)" rule: call_next.cases) (auto split: prod.split sum.split)

lemma solo_left: "steps_left (snd (solo L csk spk (T, th))) \<le> steps_left th - 1"
proof (cases th)
  case (Fresh B)
  then show ?thesis using begin_left [of B] by simp
next
  case (Calling B k req ph)
  show ?thesis
  proof (cases "\<exists>r. ph = Over r")
    case True
    then show ?thesis using Calling resume_left [of k _ B] by auto
  next
    case False
    then have "solo L csk spk (T, th) = (fst (call_next L csk spk req T ph), Calling B k req (snd (call_next L csk spk req T ph)))"
      using Calling by (cases ph) (simp_all add: case_prod_beta)
    then show ?thesis using call_next_left [of ph L csk spk req T] False Calling by auto
  qed
qed simp

text \<open>A thread that has ended has closed its socket.\<close>

fun closed_when_gone :: "thread \<Rightarrow> bool" where
  "closed_when_gone (Gone B) = (\<not> b_open B)"
| "closed_when_gone th = True"

lemma gone_closed [simp]: "closed_when_gone (gone B)" "closed_when_gone (ask B k req)"
  by (simp_all add: gone_def ask_def)

lemma relay_read_closed [simp]: "closed_when_gone (relay_read url B)"
  by (induction url B rule: relay_read.induct) (subst relay_read.simps, auto split: prod.split sum.split)

lemma solo_closed: "closed_when_gone th \<Longrightarrow> closed_when_gone (snd (solo L csk spk (T, th)))"
  by (cases "(L, csk, spk, T, th)" rule: solo.cases)
    (auto simp: begin_thread_def resume_def split: prod.split sum.split parsed.split wait.split)

lemma run_thread_closed:
  "list_all closed_when_gone (threads P) \<Longrightarrow> i < length (threads P) \<Longrightarrow>
    list_all closed_when_gone (threads (run_thread L csk spk i P))"
  by (auto simp: list_all_length run_threads_nth intro: solo_closed)

lemma runs_closed:
  assumes "proxy_runs L csk spk (new_proxy T) P"
  shows "list_all closed_when_gone (threads P)"
  using assms
proof (rule proxy_sys.invariant)
  show "list_all closed_when_gone (threads (new_proxy T))" by (simp add: new_proxy_def)
  show "list_all closed_when_gone (threads R)" if "list_all closed_when_gone (threads Q)" "proxy_step L csk spk Q R" for Q R
    using that(2,1) by cases (auto simp: accept_browser_def stop_proxy_def Let_def intro: run_thread_closed)
qed

subsection \<open>Runs\<close>

text \<open>How often a thread has moved in the first steps of a run.\<close>

definition moves ::
    "('sk, 'pk) crypto_lib \<Rightarrow> 'sk \<Rightarrow> 'pk \<Rightarrow> (nat \<Rightarrow> proxy) \<Rightarrow> nat \<Rightarrow> nat \<Rightarrow> nat" where
  "moves L csk spk P i n = card {t. t < n \<and> P (Suc t) = run_thread L csk spk i (P t)}"

lemma moves_Suc:
  "moves L csk spk P i (Suc n) = moves L csk spk P i n + (if P (Suc n) = run_thread L csk spk i (P n) then 1 else 0)"
proof -
  have "{t. t < Suc n \<and> P (Suc t) = run_thread L csk spk i (P t)} =
      (if P (Suc n) = run_thread L csk spk i (P n) then insert n else id) {t. t < n \<and> P (Suc t) = run_thread L csk spk i (P t)}"
    by (auto simp: less_Suc_eq)
  then show ?thesis by (simp add: moves_def)
qed

lemma proxy_step_left:
  assumes "proxy_step L csk spk P Q" and "i < length (threads P)"
  shows "i < length (threads Q) \<and> steps_left (threads Q ! i) \<le> steps_left (threads P ! i)"
  using assms(1)
proof cases
  case (run j)
  then show ?thesis using assms(2) solo_left [of L csk spk "shared P" "threads P ! i"] by (auto simp: run_threads_nth)
qed (use assms(2) in \<open>auto simp: accept_browser_def stop_proxy_def Let_def nth_append\<close>)

lemma moves_left:
  assumes "\<And>t. proxy_step L csk spk (P t) (P (Suc t))" and "i < length (threads (P 0))"
  shows "i < length (threads (P n)) \<and> steps_left (threads (P n) ! i) \<le> steps_left (threads (P 0) ! i) - moves L csk spk P i n"
proof (induction n)
  case (Suc n)
  then have "i < length (threads (P n))" by simp
  moreover have "steps_left (threads (P (Suc n)) ! i) \<le> steps_left (threads (P n) ! i) - 1"
    if "P (Suc n) = run_thread L csk spk i (P n)"
    using that Suc solo_left [of L csk spk "shared (P n)" "threads (P n) ! i"] by (simp add: run_threads_nth)
  ultimately show ?case using proxy_step_left [OF assms(1) [of n]] Suc by (fastforce simp: moves_Suc)
qed (use assms(2) in \<open>simp add: moves_def\<close>)

lemma nothing_left: "steps_left th = 0 \<Longrightarrow> \<exists>B. th = Gone B"
  by (cases th) (simp_all add: round_left_def)

text \<open>
  C20. No browser's thread hangs.  In every run of the proxy's threads, in any interleaving and while new
  browsers keep arriving, or after the proxy has been stopped, whatever the tunnel, the server and the
  browsers do: a thread that has moved often enough has ended and closed its browser's socket.
  Often enough is a bound known in advance, \<open>steps_left\<close>: for a thread that starts, one more than what its
  browser sends in bytes and events, times three steps for each of the \<open>max_retries\<close> attempts
  of a request and three more.
\<close>

theorem proxy_threads_end:
  assumes "proxy_runs L csk spk (new_proxy T) (P 0)" and "\<And>t. proxy_step L csk spk (P t) (P (Suc t))"
    and "i < length (threads (P 0))" and "steps_left (threads (P 0) ! i) \<le> moves L csk spk P i n"
  shows "\<exists>B. threads (P n) ! i = Gone B \<and> \<not> b_open B"
proof -
  have reach: "proxy_runs L csk spk (new_proxy T) (P n)" by (induction n) (auto intro: assms(1,2) more)
  note left = moves_left [OF assms(2,3), of n]
  then have "steps_left (threads (P n) ! i) = 0" using assms(4) by simp
  then obtain B where B: "threads (P n) ! i = Gone B" using nothing_left by blast
  then show ?thesis using runs_closed [OF reach] left by (auto simp: list_all_length dest!: spec [of _ i])
qed

text \<open>A browser that asks for a page, and its thread.\<close>

definition demo_accepted :: proxy where
  "demo_accepted = accept_browser (demo_browser [Seg (ascii_bytes demo_line)] []) (new_proxy demo_tunnel)"

theorem proxy_threads_end_witness:
  "\<exists>n B. threads ((run_thread model_lib [1] [2] 0 ^^ n) demo_accepted) ! 0 = Gone B \<and> \<not> b_open B"
proof -
  let ?P = "\<lambda>t. (run_thread model_lib [1] [2] 0 ^^ t) demo_accepted" and ?n = "steps_left (threads demo_accepted ! 0)"
  have n: "length (threads (?P t)) = 1" for t
    by (induction t) (simp_all add: demo_accepted_def accept_browser_def new_proxy_def Let_def)
  have "\<exists>B. threads (?P ?n) ! 0 = Gone B \<and> \<not> b_open B"
  proof (rule proxy_threads_end [where P = ?P and n = ?n])
    show "proxy_runs model_lib [1] [2] (new_proxy demo_tunnel) (?P 0)"
      unfolding demo_accepted_def funpow.simps id_apply by (rule more [OF none accept]) (simp add: new_proxy_def)
    show "proxy_step model_lib [1] [2] (?P t) (?P (Suc t))" for t
      using run [of 0 "?P t" model_lib "[1]" "[2]"] n [of t] by simp
    show "0 < length (threads (?P 0))" using n [of 0] by simp
    show "steps_left (threads (?P 0) ! 0) \<le> moves model_lib [1] [2] ?P 0 ?n" by (simp add: moves_def)
  qed
  then show ?thesis by blast
qed

end
