(* ===== verification/Server_Threads.thy ===== *)
theory Server_Threads
  imports Server_Props
begin

text \<open>
  The server with all its clients: the threads of \<open>handle_client\<close> over the one limiter, the one
  forwarder and the clock they share.  A thread is cut into steps where it takes a lock or works
  on something shared: the limiter's operations, the lookup, registration and removal of a CONNECT
  session, and each use of a target's socket.  \<open>client_step\<close> is one such step, \<open>hub_step\<close> any
  interleaving; a thread alone is \<open>handle_client\<close>, and every interleaving is one of \<open>server_step\<close>.
\<close>

subsection \<open>A forwarded request in steps\<close>

text \<open>What \<open>forward_request\<close> will do: a CONNECT, a RELAY, or what takes one step.\<close>

datatype plan = Plan_connect json | Plan_relay json bytes | Plan_whole

definition plan_of :: "bytes \<Rightarrow> plan" where
  "plan_of request_data =
     (case loads_bytes request_data of
        Inr (JObj req) \<Rightarrow>
          (case (upper_json (get_default req (u ''method'') (JStr (u ''GET''))),
                 body_bytes (get_default req (u ''body'') (JStr []))) of
             (Inr verb, Inr body) \<Rightarrow>
               if verb = u ''CONNECT'' then Plan_connect (get_default req (u ''url'') (JStr []))
               else if verb = u ''RELAY'' then Plan_relay (get_default req (u ''url'') (JStr [])) body
               else Plan_whole
           | _ \<Rightarrow> Plan_whole)
      | _ \<Rightarrow> Plan_whole)"

datatype fcall =
    Asked
  | Dialled pystr nat
  | Sending pystr nat bytes
  | Reading pystr nat bytes
  | Ending pystr bytes
  | Failing pystr nat pyexn
  | Closing nat pyexn
  | Replied "pyexn + bytes"

text \<open>One \<open>recv\<close> of the relay on the socket numbered \<open>n\<close>; a closed socket raises.\<close>

definition sock_recv :: "nat \<Rightarrow> (forwarder, bytes) io" where
  "sock_recv n F =
     (case fw_socks F n of
        None \<Rightarrow> (Inl (Lib OSErrorC), F)
      | Some s \<Rightarrow>
          if \<not> t_open s then (Inl (Lib OSErrorC), F)
          else (let (r, q) = recv_event RELAY_CHUNK (t_inq s) in (r, update_sock n (s\<lparr>t_inq := q\<rparr>) F)))"

definition connect_failed :: "pyexn \<Rightarrow> (forwarder, bytes) io" where
  "connect_failed e = andThen (exn_text e) (\<lambda>text. of_result (error_response 502 (u ''CONNECT failed: '' @ text)))"

definition relay_failed :: "pyexn \<Rightarrow> (forwarder, bytes) io" where
  "relay_failed e = andThen (exn_text e) (\<lambda>text. of_result (error_response 502 (u ''Relay error: '' @ text)))"

fun fw_next :: "bytes \<Rightarrow> forwarder \<Rightarrow> fcall \<Rightarrow> forwarder \<times> fcall" where
  "fw_next req F Asked =
     (case plan_of req of
        Plan_whole \<Rightarrow> (let (r, F1) = forward_request req F in (F1, Replied r))
      | Plan_connect target \<Rightarrow>
          (case andThen (of_result (connect_target target)) (\<lambda>(key, host, port).
                andThen (dial host port) (\<lambda>n. ret (key, n))) F of
             (Inl e, F1) \<Rightarrow> (F1, Replied (fst (connect_failed e F1)))
           | (Inr (key, n), F1) \<Rightarrow> (F1, Dialled key n))
      | Plan_relay target data \<Rightarrow>
          (case session_key target of
             Inl e \<Rightarrow> (F, Replied (Inl e))
           | Inr key \<Rightarrow>
               (case Option.bind key (fw_sessions F) of
                  None \<Rightarrow> (F, Replied (error_response 502 (u ''No CONNECT session for '' @ str_scalar target)))
                | Some n \<Rightarrow> (F, Sending (the key) n data))))"
| "fw_next req F (Dialled key n) = (snd (register key n F), Replied (Inr (build_response 200 [] [])))"
| "fw_next req F (Sending key n data) =
     (case (if data = [] then ret () else sock_send n data) F of
        (Inl e, F1) \<Rightarrow> (F1, Failing key n e)
      | (Inr _, F1) \<Rightarrow> (F1, Reading key n []))"
| "fw_next req F (Reading key n response_data) =
     (case sock_recv n F of
        (Inl e, F1) \<Rightarrow> (F1, Replied (Inr (relay_reply response_data False)))
      | (Inr chunk, F1) \<Rightarrow>
          (F1, if chunk = [] then Ending key (relay_reply response_data True)
               else if length chunk < RELAY_CHUNK then Replied (Inr (relay_reply (response_data @ chunk) False))
               else Reading key n (response_data @ chunk)))"
| "fw_next req F (Ending key reply) = (snd (unregister key F), Replied (Inr reply))"
| "fw_next req F (Failing key n e) = (snd (unregister key F), Closing n e)"
| "fw_next req F (Closing n e) = (let F1 = snd (tsock_close n F) in (F1, Replied (fst (relay_failed e F1))))"
| "fw_next req F (Replied r) = (F, Replied r)"

subsection \<open>A client's thread in steps\<close>

type_synonym keys = "bytes \<times> bytes \<times> bytes"

datatype stage =
    At_door pystr
  | At_handshake pystr
  | At_idle pystr keys
  | At_recv pystr keys
  | At_touch pystr keys bytes
  | At_rate pystr keys bytes
  | At_forward pystr keys bytes fcall
  | At_send pystr keys message_type bytes
  | At_leave pystr
  | At_close
  | Finished

text \<open>What is sent for the forwarder's answer or exception.\<close>

definition answer_of :: "pyexn + bytes \<Rightarrow> (server, bytes) io" where
  "answer_of r =
     (case r of
        Inr response \<Rightarrow> ret response
      | Inl e \<Rightarrow> andThen (on_fwd (exn_text e)) (\<lambda>text.
          andThen (of_result (utf8_encode (u ''Forward error: '' @ text))) (\<lambda>body.
          ret (build_response 500 [] body))))"

fun client_step ::
    "('sk, 'pk) crypto_lib \<Rightarrow> 'sk \<Rightarrow> 'pk \<Rightarrow> ip_net list \<Rightarrow> stage \<times> server \<Rightarrow> stage \<times> server" where
  "client_step L ssk cpk networks (At_door ip, S) =
     (if \<not> is_allowed networks ip then (At_close, S)
      else let (admitted, l) = try_add_connection (mono S (mono_pos S)) (lim S) ip
           in (if admitted then At_handshake ip else At_close, S\<lparr>lim := l, mono_pos := Suc (mono_pos S)\<rparr>))"
| "client_step L ssk cpk networks (At_handshake ip, S) =
     (case on_conn (server_handshake L ssk cpk) S of
        (Inl e, S1) \<Rightarrow> (At_leave ip, S1)
      | (Inr keys, S1) \<Rightarrow> (At_idle ip keys, snd (on_conn (settimeout (Some (idle_timeout (lim S1)))) S1)))"
| "client_step L ssk cpk networks (At_idle ip keys, S) =
     (case lim_is_idle ip S of
        (Inr False, S1) \<Rightarrow> (At_recv ip keys, S1)
      | (_, S1) \<Rightarrow> (At_leave ip, S1))"
| "client_step L ssk cpk networks (At_recv ip (sid, ek, mk), S) =
     (case on_conn (recv_frame L (Some ek) (Some mk)) S of
        (Inl e, S1) \<Rightarrow> (At_leave ip, S1)
      | (Inr (msg_type, rx_sid, req), S1) \<Rightarrow>
          (if msg_type \<noteq> DATA_REQUEST then At_idle ip (sid, ek, mk) else At_touch ip (sid, ek, mk) req, S1))"
| "client_step L ssk cpk networks (At_touch ip keys req, S) = (At_rate ip keys req, snd (lim_touch ip S))"
| "client_step L ssk cpk networks (At_rate ip keys req, S) =
     (case lim_check_rate ip S of
        (Inr True, S1) \<Rightarrow> (At_forward ip keys req Asked, S1)
      | (_, S1) \<Rightarrow>
          (case utf8_encode RATE_LIMIT_MSG of
             Inl e \<Rightarrow> (At_leave ip, S1)
           | Inr msg \<Rightarrow> (At_send ip keys ERROR msg, S1)))"
| "client_step L ssk cpk networks (At_forward ip keys req (Replied r), S) =
     (case answer_of r S of
        (Inl e, S1) \<Rightarrow> (At_leave ip, S1)
      | (Inr response, S1) \<Rightarrow> (At_send ip keys DATA_RESPONSE response, S1))"
| "client_step L ssk cpk networks (At_forward ip keys req fc, S) =
     (let (F, fc1) = fw_next req (fwd S) fc in (At_forward ip keys req fc1, S\<lparr>fwd := F\<rparr>))"
| "client_step L ssk cpk networks (At_send ip (sid, ek, mk) msg_type payload, S) =
     (case on_conn (send_frame L msg_type sid payload (Some ek) (Some mk)) S of
        (Inl e, S1) \<Rightarrow> (At_leave ip, S1)
      | (Inr _, S1) \<Rightarrow> (At_idle ip (sid, ek, mk), S1))"
| "client_step L ssk cpk networks (At_leave ip, S) = (At_close, S\<lparr>lim := remove_connection (lim S) ip\<rparr>)"
| "client_step L ssk cpk networks (At_close, S) = (Finished, close_conn S)"
| "client_step L ssk cpk networks (Finished, S) = (Finished, S)"

subsection \<open>A thread alone is \<open>handle_client\<close>\<close>

definition alone ::
    "('sk, 'pk) crypto_lib \<Rightarrow> 'sk \<Rightarrow> 'pk \<Rightarrow> ip_net list \<Rightarrow> stage \<times> server \<Rightarrow> stage \<times> server \<Rightarrow> bool" where
  "alone L ssk cpk networks = rtranclp (\<lambda>s t. t = client_step L ssk cpk networks s)"

interpretation client_machine: machine "client_step L ssk cpk networks" "alone L ssk cpk networks"
  for L ssk cpk networks
  by unfold_locales (simp add: alone_def)

lemmas alone_step = client_machine.advance
lemmas alone_trans = client_machine.trans

lemma client_step_forward:
  "(\<And>r. fc \<noteq> Replied r) \<Longrightarrow> client_step L ssk cpk networks (At_forward ip keys req fc, S)
     = (At_forward ip keys req (snd (fw_next req (fwd S) fc)), S\<lparr>fwd := fst (fw_next req (fwd S) fc)\<rparr>)"
  by (cases fc) (auto simp: case_prod_beta)

text \<open>The plan is what \<open>forward_request\<close> does.\<close>

lemma forward_request_plan:
  "forward_request req = (case plan_of req of
     Plan_connect v \<Rightarrow> fw_handle_connect v | Plan_relay v data \<Rightarrow> fw_handle_relay v data | Plan_whole \<Rightarrow> forward_request req)"
proof (cases "\<exists>d verb body. loads_bytes req = Inr (JObj d) \<and>
    upper_json (get_default d (u ''method'') (JStr (u ''GET''))) = Inr verb \<and>
    body_bytes (get_default d (u ''body'') (JStr [])) = Inr body")
  case True
  then obtain d verb body where "loads_bytes req = Inr (JObj d)"
    "upper_json (get_default d (u ''method'') (JStr (u ''GET''))) = Inr verb"
    "body_bytes (get_default d (u ''body'') (JStr [])) = Inr body" by blast
  then show ?thesis by (simp add: forward_request_def plan_of_def andThen_of_result_Inr dispatch_def u_Cons)
next
  case False
  then have "plan_of req = Plan_whole" by (auto simp: plan_of_def split: sum.split json.split)
  then show ?thesis by simp
qed

text \<open>The forwarder's steps by themselves.\<close>

definition fw_path :: "bytes \<Rightarrow> forwarder \<times> fcall \<Rightarrow> forwarder \<times> fcall \<Rightarrow> bool" where
  "fw_path req = rtranclp (\<lambda>s t. (\<forall>r. snd s \<noteq> Replied r) \<and> t = fw_next req (fst s) (snd s))"

interpretation fw_sys: run_system "\<lambda>s t. (\<forall>r. snd s \<noteq> Replied r) \<and> t = fw_next req (fst s) (snd s)" "fw_path req" for req
  by unfold_locales (simp add: fw_path_def)

lemma fw_path_step:
  "(\<And>r. fc \<noteq> Replied r) \<Longrightarrow> fw_next req F fc = s \<Longrightarrow> fw_path req s t \<Longrightarrow> fw_path req (F, fc) t"
  by (rule fw_sys.first) auto

lemma fw_path_alone:
  assumes "fw_path req s t"
  shows "alone L ssk cpk networks (At_forward ip keys req (snd s), S\<lparr>fwd := fst s\<rparr>)
    (At_forward ip keys req (snd t), S\<lparr>fwd := fst t\<rparr>)"
  using assms
proof (induction rule: fw_sys.first_induct)
  case (first s v)
  then show ?case by (intro alone_step [of _ _ _ _ "(At_forward ip keys req (snd s), S\<lparr>fwd := fst s\<rparr>)"])
      (simp add: client_step_forward)
qed simp

lemma fw_path_done: "(\<And>r. fc \<noteq> Replied r) \<Longrightarrow> fw_next req F fc = t \<Longrightarrow> fw_path req (F, fc) t"
  by (rule fw_path_step [OF _ _ fw_sys.refl])

lemma connect_path:
  assumes "plan_of req = Plan_connect v"
  shows "fw_path req (F, Asked) (snd (fw_handle_connect v F), Replied (fst (fw_handle_connect v F)))"
proof -
  have fails: "snd (connect_failed e F') = F'" for e F'
    by (simp add: connect_failed_def andThen_def exn_text_def of_result_def)
  obtain r F1 where d: "andThen (of_result (connect_target v)) (\<lambda>(key, host, port). andThen (dial host port) (\<lambda>n. ret (key, n))) F
      = (r, F1)" by force
  show ?thesis
  proof (cases r)
    case (Inl e)
    have "fw_handle_connect v F = connect_failed e F1"
      using d Inl unfolding fw_handle_connect_def connect_failed_def
      by (cases "connect_target v") (auto simp: try_except_def andThen_def of_result_def ret_def split: prod.splits sum.splits)
    then show ?thesis using assms d Inl fails by (intro fw_path_done) simp_all
  next
    case (Inr p)
    obtain key n where p: "p = (key, n)" by force
    have "fw_handle_connect v F = (Inr (build_response 200 [] []), snd (register key n F1))"
      using d Inr p unfolding fw_handle_connect_def
      by (cases "connect_target v")
        (auto simp: try_except_def andThen_def of_result_def ret_def register_def split: prod.splits sum.splits)
    then show ?thesis using assms d Inr p
      by (intro fw_path_step [of Asked, OF _ _ fw_path_done [of "Dialled key n"]]) simp_all
  qed
qed

text \<open>The reading loop, one \<open>recv\<close> at a time.\<close>

lemma update_sock_twice [simp]: "update_sock n s (update_sock n t F) = update_sock n s F"
  by (simp add: update_sock_def)

lemma update_sock_at [simp]: "fw_socks (update_sock n s F) n = Some s"
  by (simp add: update_sock_def)

lemma loop_path:
  assumes "fw_socks F n = Some s" and "t_open s" and "relay_loop acc q0 = ((shut, out), q)" and "t_inq s = q0"
  shows "fw_path req (F, Reading key n acc)
    (if shut then snd (unregister key (update_sock n (s\<lparr>t_inq := q\<rparr>) F)) else update_sock n (s\<lparr>t_inq := q\<rparr>) F,
     Replied (Inr (relay_reply out shut)))"
  using assms
proof (induction acc q0 arbitrary: F s rule: relay_loop.induct)
  case (1 acc q0 F s)
  obtain r q1 where r: "recv_event RELAY_CHUNK q0 = (r, q1)" by force
  let ?s1 = "s\<lparr>t_inq := q1\<rparr>"
  have recv: "sock_recv n F = (r, update_sock n ?s1 F)" using "1.prems" r by (simp add: sock_recv_def)
  note loop = relay_loop.simps [of acc q0]
  consider (fails) e where "r = Inl e" | (ends) "r = Inr []"
    | (last) c where "r = Inr c" "c \<noteq> []" "length c < RELAY_CHUNK"
    | (full) c where "r = Inr c" "c \<noteq> []" "\<not> length c < RELAY_CHUNK" by (cases r) auto
  then show ?case
  proof cases
    case fails
    then show ?thesis using "1.prems"(3) r recv by (intro fw_path_done) (simp_all add: loop)
  next
    case ends
    then show ?thesis using "1.prems"(3) r recv
      by (intro fw_path_step [of "Reading key n acc", OF _ _ fw_path_done [of "Ending key (relay_reply acc True)"]])
        (auto simp: loop)
  next
    case last
    then show ?thesis using "1.prems"(3) r recv by (intro fw_path_done) (auto simp: loop)
  next
    case full
    have l: "relay_loop (acc @ c) q1 = ((shut, out), q)" using "1.prems"(3) r full by (simp add: loop)
    have "fw_path req (update_sock n ?s1 F, Reading key n (acc @ c))
      (if shut then snd (unregister key (update_sock n (s\<lparr>t_inq := q\<rparr>) F)) else update_sock n (s\<lparr>t_inq := q\<rparr>) F,
       Replied (Inr (relay_reply out shut)))"
      using "1.IH" [OF r [symmetric] full, of "update_sock n ?s1 F" ?s1] "1.prems"(2) l by (cases shut) simp_all
    then show ?thesis by (rule fw_path_step [rotated 2]) (use full recv in simp_all)
  qed
qed

lemma read_path:
  assumes "sock_read n F = (Inr (shut, out), F')"
  shows "fw_path req (F, Reading key n []) (if shut then snd (unregister key F') else F', Replied (Inr (relay_reply out shut)))"
proof (cases "\<exists>s. fw_socks F n = Some s \<and> t_open s")
  case True
  then obtain s where s: "fw_socks F n = Some s" "t_open s" by blast
  obtain q where "relay_loop [] (t_inq s) = ((shut, out), q)" "F' = update_sock n (s\<lparr>t_inq := q\<rparr>) F"
    using assms s by (auto simp: sock_read_def split: prod.splits)
  with loop_path [OF s this(1) refl, of req key] show ?thesis by (cases shut) simp_all
next
  case False
  then have "sock_recv n F = (Inl (Lib OSErrorC), F)" "shut = False" "out = []" "F' = F"
    using assms by (auto simp: sock_recv_def sock_read_def split: option.splits if_splits)
  then show ?thesis by (intro fw_path_done) simp_all
qed

lemma sock_read_Inr: "\<exists>shut out F'. sock_read n F = (Inr (shut, out), F')"
  by (auto simp: sock_read_def split: option.split prod.split)

lemma relay_path:
  assumes "plan_of req = Plan_relay v data"
  shows "fw_path req (F, Asked) (snd (fw_handle_relay v data F), Replied (fst (fw_handle_relay v data F)))"
proof (cases "\<exists>key n. session_key v = Inr (Some key) \<and> fw_sessions F key = Some n")
  case False
  then have "fw_next req F Asked = (snd (fw_handle_relay v data F), Replied (fst (fw_handle_relay v data F)))"
    using assms by (auto simp: fw_handle_relay_def andThen_def of_result_def split: sum.split option.split)
      (auto simp: bind_eq_Some_conv)
  then show ?thesis by (intro fw_path_done) simp_all
next
  case True
  then obtain key n where k: "session_key v = Inr (Some key)" "fw_sessions F key = Some n" by blast
  obtain r1 F1 where s: "(if data = [] then ret () else sock_send n data) F = (r1, F1)" by force
  have 1: "fw_next req F Asked = (F, Sending key n data)" using assms k by simp
  show ?thesis
  proof (cases r1)
    case (Inl e)
    let ?F2 = "snd (tsock_close n (snd (unregister key F1)))"
    have "fw_handle_relay v data F = relay_failed e ?F2"
      using k s Inl by (simp add: fw_handle_relay_def relay_failed_def andThen_def of_result_def try_except_def
          unregister_def tsock_close_def split: option.split)
    moreover have "snd (relay_failed e ?F2) = ?F2" by (simp add: relay_failed_def andThen_def exn_text_def of_result_def)
    ultimately show ?thesis
      by (intro fw_path_step [OF _ 1 fw_path_step [of "Sending key n data", OF _ _ fw_path_step [of "Failing key n e",
            OF _ _ fw_path_done [of "Closing n e"]]]]) (use s Inl in \<open>simp_all add: Let_def\<close>)
  next
    case (Inr x)
    obtain shut out F2 where rd: "sock_read n F1 = (Inr (shut, out), F2)" using sock_read_Inr by blast
    have r: "fw_handle_relay v data F = (Inr (relay_reply out shut), if shut then snd (unregister key F2) else F2)"
      using k s Inr rd by (simp add: fw_handle_relay_def andThen_def of_result_def try_except_def unregister_def ret_def)
    have "fw_path req (F1, Reading key n []) (if shut then snd (unregister key F2) else F2, Replied (Inr (relay_reply out shut)))"
      by (rule read_path [OF rd])
    then show ?thesis unfolding r
      by (intro fw_path_step [OF _ 1 fw_path_step [of "Sending key n data"]]) (use s Inr in simp_all)
  qed
qed

lemma forward_path: "fw_path req (F, Asked) (snd (forward_request req F), Replied (fst (forward_request req F)))"
proof (cases "plan_of req")
  case Plan_whole
  then show ?thesis by (intro fw_path_done) (simp_all add: case_prod_beta)
next
  case (Plan_connect v)
  then show ?thesis using connect_path [OF Plan_connect] forward_request_plan [of req] by simp
next
  case (Plan_relay v data)
  then show ?thesis using relay_path [OF Plan_relay] forward_request_plan [of req] by simp
qed

lemma forward_or_500_answer:
  "forward_or_500 req S = (let (r, F) = forward_request req (fwd S) in answer_of r (S\<lparr>fwd := F\<rparr>))"
  by (simp add: forward_or_500_def answer_of_def on_fwd_def try_except_def ret_def Let_def split: prod.split sum.split)

lemma forward_alone:
  assumes "forward_or_500 req S = (x, S1)"
  shows "alone L ssk cpk networks (At_forward ip keys req Asked, S)
    (case x of Inl e \<Rightarrow> At_leave ip | Inr response \<Rightarrow> At_send ip keys DATA_RESPONSE response, S1)"
proof -
  obtain r F where f: "forward_request req (fwd S) = (r, F)" by force
  have 1: "alone L ssk cpk networks (At_forward ip keys req Asked, S) (At_forward ip keys req (Replied r), S\<lparr>fwd := F\<rparr>)"
    using fw_path_alone [OF forward_path [of req "fwd S"], of L ssk cpk networks ip keys S] f by simp
  have "answer_of r (S\<lparr>fwd := F\<rparr>) = (x, S1)" using assms f by (simp add: forward_or_500_answer)
  then have "client_step L ssk cpk networks (At_forward ip keys req (Replied r), S\<lparr>fwd := F\<rparr>)
      = (case x of Inl e \<Rightarrow> At_leave ip | Inr response \<Rightarrow> At_send ip keys DATA_RESPONSE response, S1)"
    by (simp split: sum.split)
  then have 2: "alone L ssk cpk networks (At_forward ip keys req (Replied r), S\<lparr>fwd := F\<rparr>)
      (case x of Inl e \<Rightarrow> At_leave ip | Inr response \<Rightarrow> At_send ip keys DATA_RESPONSE response, S1)"
    by (intro alone_step [of _ _ _ _ "(At_forward ip keys req (Replied r), S\<lparr>fwd := F\<rparr>)"]) simp
  show ?thesis by (rule alone_trans [OF 1 2])
qed

lemma send_alone:
  assumes "on_conn (send_frame L msg_type sid payload (Some ek) (Some mk)) S = (x, S1)"
  shows "alone L ssk cpk networks (At_send ip (sid, ek, mk) msg_type payload, S)
    (case x of Inl e \<Rightarrow> At_leave ip | Inr _ \<Rightarrow> At_idle ip (sid, ek, mk), S1)"
  by (rule alone_step) (use assms in \<open>simp split: sum.split\<close>)

lemma request_alone:
  assumes "serve_request L ip sid ek mk req S = (x, S')"
  shows "alone L ssk cpk networks (At_touch ip (sid, ek, mk) req, S)
    (case x of Inl e \<Rightarrow> At_leave ip | Inr _ \<Rightarrow> At_idle ip (sid, ek, mk), S')"
proof -
  let ?k = "(sid, ek, mk)"
  obtain S1 where t: "lim_touch ip S = (Inr (), S1)" by (simp add: lim_touch_def monotonic_def andThen_def)
  obtain ok S2 where c: "lim_check_rate ip S1 = (Inr ok, S2)"
    by (cases "buckets (lim S1) ip = None")
      (auto simp: lim_check_rate_def monotonic_def andThen_def ret_def Let_def case_prod_beta)
  have 1: "alone L ssk cpk networks (At_touch ip ?k req, S) (At_rate ip ?k req, S1)"
    by (rule alone_step) (simp add: t)
  have "alone L ssk cpk networks (At_rate ip ?k req, S1) (case x of Inl e \<Rightarrow> At_leave ip | Inr _ \<Rightarrow> At_idle ip ?k, S')"
  proof (cases ok)
    case False
    show ?thesis
    proof (cases "utf8_encode RATE_LIMIT_MSG")
      case (Inl e)
      then have "x = Inl e" "S' = S2" using assms t c False by (simp_all add: serve_request_def andThen_def of_result_def)
      then show ?thesis using c False Inl by (intro alone_step [of _ _ _ _ "(At_rate ip ?k req, S1)"]) simp
    next
      case (Inr msg)
      then have s: "on_conn (send_frame L ERROR sid msg (Some ek) (Some mk)) S2 = (x, S')"
        using assms t c False by (simp add: serve_request_def andThen_def of_result_def)
      show ?thesis
        using send_alone [OF s, of ssk cpk networks ip] c False Inr
        by (intro alone_step [of _ _ _ _ "(At_rate ip ?k req, S1)"]) simp
    qed
  next
    case True
    obtain y S3 where f: "forward_or_500 req S2 = (y, S3)" by force
    note fa = forward_alone [OF f, of L ssk cpk networks ip ?k]
    have "alone L ssk cpk networks (At_forward ip ?k req Asked, S2)
        (case x of Inl e \<Rightarrow> At_leave ip | Inr _ \<Rightarrow> At_idle ip ?k, S')"
    proof (cases y)
      case (Inl e)
      then show ?thesis using fa assms t c True f by (auto simp: serve_request_def andThen_def)
    next
      case (Inr response)
      then have s: "on_conn (send_frame L DATA_RESPONSE sid response (Some ek) (Some mk)) S3 = (x, S')"
        using assms t c True f by (simp add: serve_request_def andThen_def)
      show ?thesis using alone_trans [OF _ send_alone [OF s]] fa Inr by simp
    qed
    then show ?thesis using c True by (intro alone_step [of _ _ _ _ "(At_rate ip ?k req, S1)"]) simp
  qed
  then show ?thesis by (rule alone_trans [OF 1])
qed

lemma lim_is_idle_eq: "lim_is_idle ip S = (Inr (is_idle (mono S (mono_pos S)) (lim S) ip), S\<lparr>mono_pos := Suc (mono_pos S)\<rparr>)"
  by (simp add: lim_is_idle_def monotonic_def andThen_def)

lemma loop_alone:
  "alone L ssk cpk networks (At_idle ip (sid, ek, mk), S) (At_leave ip, snd (serve_loop L ip sid ek mk S))"
proof (induction L ip sid ek mk S rule: serve_loop.induct)
  case (1 L ip sid ek mk S)
  let ?k = "(sid, ek, mk)" and ?S1 = "S\<lparr>mono_pos := Suc (mono_pos S)\<rparr>"
  let ?left = "(At_leave ip, snd (serve_loop L ip sid ek mk S))"
  note loop = serve_loop.simps [of L ip sid ek mk S]
  obtain r w where r: "recv_frame L (Some ek) (Some mk) (conn ?S1) = (r, w)" by force
  let ?S2 = "?S1\<lparr>conn := w\<rparr>"
  have start: "alone L ssk cpk networks (At_idle ip ?k, S) ?left"
    if "\<not> is_idle (mono S (mono_pos S)) (lim ?S1) ip" "alone L ssk cpk networks (At_recv ip ?k, ?S1) ?left"
    by (intro alone_step [of _ _ _ _ "(At_idle ip ?k, S)"]) (use that in \<open>simp add: lim_is_idle_eq\<close>)
  consider (idle) "is_idle (mono S (mono_pos S)) (lim ?S1) ip"
    | (error) e where "\<not> is_idle (mono S (mono_pos S)) (lim ?S1) ip" "r = Inl e"
    | (skip) t rx req where "\<not> is_idle (mono S (mono_pos S)) (lim ?S1) ip" "r = Inr (t, rx, req)" "t \<noteq> DATA_REQUEST"
    | (request) rx req where "\<not> is_idle (mono S (mono_pos S)) (lim ?S1) ip" "r = Inr (DATA_REQUEST, rx, req)"
    by (cases r) (auto, blast)
  then show ?case
  proof cases
    case idle
    then show ?thesis by (intro alone_step [of _ _ _ _ "(At_idle ip ?k, S)"]) (simp add: lim_is_idle_eq loop)
  next
    case error
    show ?thesis
      by (rule start [OF error(1) alone_step]) (use error r in \<open>simp add: on_conn_def loop\<close>)
  next
    case skip
    have "alone L ssk cpk networks (At_idle ip ?k, ?S2) (At_leave ip, snd (serve_loop L ip sid ek mk ?S2))"
      by (rule "1.IH"(1) [OF refl refl skip(1) r [symmetric] skip(2) refl refl refl skip(3)])
    then show ?thesis
      by (intro start [OF skip(1)] alone_step [of _ _ _ _ "(At_recv ip ?k, ?S1)"]) (use skip r in \<open>simp add: on_conn_def loop\<close>)
  next
    case request
    obtain x S3 where x: "serve_request L ip sid ek mk req ?S2 = (x, S3)" by force
    have "alone L ssk cpk networks (At_touch ip ?k req, ?S2) ?left"
    proof (cases x)
      case (Inl e)
      then show ?thesis using request_alone [OF x] request r x by (simp add: loop)
    next
      case (Inr u)
      have "alone L ssk cpk networks (At_idle ip ?k, S3) (At_leave ip, snd (serve_loop L ip sid ek mk S3))"
        by (rule "1.IH"(2) [OF refl refl request(1) r [symmetric] request(2) refl refl refl _ x [symmetric] Inr]) simp
      then show ?thesis using alone_trans [OF request_alone [OF x]] request r x Inr by (simp add: loop)
    qed
    then show ?thesis
      by (intro start [OF request(1)] alone_step [of _ _ _ _ "(At_recv ip ?k, ?S1)"]) (use request r in \<open>simp add: on_conn_def\<close>)
  qed
qed

lemma session_alone:
  "alone L ssk cpk networks (At_handshake ip, S) (At_leave ip, snd (run_session L ssk cpk ip S))"
proof (cases "on_conn (server_handshake L ssk cpk) S")
  case (Pair r S1)
  show ?thesis
  proof (cases r)
    case (Inl e)
    then show ?thesis using Pair
      by (intro alone_step [of _ _ _ _ "(At_handshake ip, S)"]) (simp add: run_session_def)
  next
    case (Inr keys)
    obtain sid ek mk where k: "keys = (sid, ek, mk)" by (cases keys)
    let ?S2 = "snd (on_conn (settimeout (Some (idle_timeout (lim S1)))) S1)"
    have "run_session L ssk cpk ip S = serve_loop L ip sid ek mk ?S2"
      using Pair Inr k by (simp add: run_session_def andThen_def on_conn_def settimeout_def)
    then show ?thesis using loop_alone [of L ssk cpk networks ip sid ek mk ?S2] Pair Inr k
      by (intro alone_step [of _ _ _ _ "(At_handshake ip, S)"]) simp
  qed
qed

text \<open>
  A client's thread that runs alone, lock step by lock step, computes \<open>handle_client\<close>: it ends, and
  the state in which it ends, with the connection, the limiter, the forwarder's tables and the
  clock, is the one the whole function reaches and no other, whatever the client, the web and the
  targets do.
\<close>

lemma client_alone:
  "alone L ssk cpk networks (At_door ip, S) (Finished, S') \<longleftrightarrow> S' = handle_client L ssk cpk networks ip S"
proof -
  have close: "alone L ssk cpk networks (At_close, T) (Finished, close_conn T)" for T
    by (rule alone_step) simp
  have leave: "alone L ssk cpk networks (At_leave ip, T) (Finished, close_conn (T\<lparr>lim := remove_connection (lim T) ip\<rparr>))" for T
    by (rule alone_step) (simp add: close)
  obtain ok l where add: "try_add_connection (mono S (mono_pos S)) (lim S) ip = (ok, l)" by force
  let ?S1 = "S\<lparr>lim := l, mono_pos := Suc (mono_pos S)\<rparr>"
  have "alone L ssk cpk networks (client_step L ssk cpk networks (At_door ip, S)) (Finished, handle_client L ssk cpk networks ip S)"
    using add close alone_trans [OF session_alone [of L ssk cpk networks ip ?S1] leave]
    by (simp add: handle_client_def Let_def case_prod_beta)
  then have run: "alone L ssk cpk networks (At_door ip, S) (Finished, handle_client L ssk cpk networks ip S)"
    by (rule alone_step)
  then show ?thesis using client_machine.final_unique [OF run] by auto
qed

subsection \<open>All threads\<close>

text \<open>
  The accept loop and its threads: \<open>common\<close> holds what the threads share (its \<open>conn\<close> is the
  connection of the thread that ran last), \<open>clients\<close> the stage and the connection of each thread,
  \<open>arrivals\<close> the address and the connection with which each thread was started.
\<close>

record hub =
  common :: server
  clients :: "(stage \<times> world) list"
  arrivals :: "(pystr \<times> world) list"

definition new_hub :: "server \<Rightarrow> hub" where
  "new_hub S = \<lparr>common = S, clients = [], arrivals = []\<rparr>"

definition accept_client :: "pystr \<Rightarrow> world \<Rightarrow> hub \<Rightarrow> hub" where
  "accept_client ip w H =
     H\<lparr>clients := clients H @ [(At_door ip, w)], arrivals := arrivals H @ [(ip, w)]\<rparr>"

definition run_client ::
    "('sk, 'pk) crypto_lib \<Rightarrow> 'sk \<Rightarrow> 'pk \<Rightarrow> ip_net list \<Rightarrow> nat \<Rightarrow> hub \<Rightarrow> hub" where
  "run_client L ssk cpk networks i H =
     (let (st, w) = clients H ! i; (st1, S) = client_step L ssk cpk networks (st, (common H)\<lparr>conn := w\<rparr>)
      in H\<lparr>common := S, clients := (clients H)[i := (st1, conn S)]\<rparr>)"

inductive hub_step ::
    "('sk, 'pk) crypto_lib \<Rightarrow> 'sk \<Rightarrow> 'pk \<Rightarrow> ip_net list \<Rightarrow> hub \<Rightarrow> hub \<Rightarrow> bool" for L ssk cpk networks where
  accepted: "hub_step L ssk cpk networks H (accept_client ip w H)"
| ran: "i < length (clients H) \<Longrightarrow> hub_step L ssk cpk networks H (run_client L ssk cpk networks i H)"

inductive hub_runs ::
    "('sk, 'pk) crypto_lib \<Rightarrow> 'sk \<Rightarrow> 'pk \<Rightarrow> ip_net list \<Rightarrow> hub \<Rightarrow> hub \<Rightarrow> bool" for L ssk cpk networks where
  hub_none: "hub_runs L ssk cpk networks H H"
| hub_more: "hub_runs L ssk cpk networks H H1 \<Longrightarrow> hub_step L ssk cpk networks H1 H2 \<Longrightarrow> hub_runs L ssk cpk networks H H2"

lemma hub_runs_rtranclp: "hub_runs L ssk cpk networks = rtranclp (hub_step L ssk cpk networks)"
proof (intro ext iffI)
  show "hub_runs L ssk cpk networks s t \<Longrightarrow> rtranclp (hub_step L ssk cpk networks) s t" for s t
    by (induction rule: hub_runs.induct) auto
  show "rtranclp (hub_step L ssk cpk networks) s t \<Longrightarrow> hub_runs L ssk cpk networks s t" for s t
    by (induction rule: rtranclp_induct) (auto intro: hub_runs.intros)
qed

interpretation hub_sys: run_system "hub_step L ssk cpk networks" "hub_runs L ssk cpk networks" for L ssk cpk networks
  by unfold_locales (rule hub_runs_rtranclp)

abbreviation stage_of :: "hub \<Rightarrow> nat \<Rightarrow> stage" where
  "stage_of H i \<equiv> fst (clients H ! i)"

lemma run_client_fields:
  assumes "i < length (clients H)"
    and "client_step L ssk cpk networks (stage_of H i, (common H)\<lparr>conn := snd (clients H ! i)\<rparr>) = (st, S)"
  shows "run_client L ssk cpk networks i H = H\<lparr>common := S, clients := (clients H)[i := (st, conn S)]\<rparr>"
  using assms by (simp add: run_client_def case_prod_beta)

subsection \<open>Every interleaving is one of the limiter's\<close>

text \<open>The phase of a stage, and the phases of all threads, as \<open>server_step\<close> sees them.\<close>

fun phase_of :: "stage \<Rightarrow> phase" where
  "phase_of (At_door ip) = Arrived ip"
| "phase_of (At_handshake ip) = Serving ip"
| "phase_of (At_idle ip k) = Serving ip"
| "phase_of (At_recv ip k) = Serving ip"
| "phase_of (At_touch ip k req) = Serving ip"
| "phase_of (At_rate ip k req) = Serving ip"
| "phase_of (At_forward ip k req fc) = Serving ip"
| "phase_of (At_send ip k msg_type payload) = Serving ip"
| "phase_of (At_leave ip) = Serving ip"
| "phase_of At_close = Ended"
| "phase_of Finished = Ended"

definition phases :: "hub \<Rightarrow> nat \<Rightarrow> phase option" where
  "phases H k = (if k < length (clients H) then Some (phase_of (stage_of H k)) else None)"

text \<open>What the steps outside the limiter leave alone.\<close>

lemma lim_kept [simp]:
  "on_conn m S = (r, S1) \<Longrightarrow> lim S1 = lim S" "on_fwd m' S = (r', S2) \<Longrightarrow> lim S2 = lim S"
  "fwd (snd (on_conn m S)) = fwd S" "lim (snd (on_conn m S)) = lim S"
  by (auto simp: on_conn_def on_fwd_def Let_def case_prod_beta)

lemma answer_of_lim: "answer_of r S = (x, S1) \<Longrightarrow> lim S1 = lim S \<and> fwd S1 = fwd S"
  by (auto simp: answer_of_def ret_def andThen_def of_result_def on_fwd_def exn_text_def Let_def split: sum.splits)

text \<open>A step inside a session is a step of a serving thread on the limiter, or none.\<close>

lemma session_step_lim:
  assumes "client_step L ssk cpk networks (st, S) = (st1, S1)" and "phase_of st = Serving ip" and "phase_of st1 \<noteq> Ended"
  shows "rtranclp (lim_op ip) (lim S) (lim S1) \<and> phase_of st1 = Serving ip"
proof (cases "\<exists>k req. st = At_touch ip k req \<or> st = At_rate ip k req")
  case True
  then obtain k req where "st = At_touch ip k req \<or> st = At_rate ip k req" by blast
  moreover have "rtranclp (lim_op ip) (lim S) (lim (snd (lim_touch ip S)))"
    "rtranclp (lim_op ip) (lim S) (lim (snd (lim_check_rate ip S)))"
    using lim_path_basic(7) [of ip] lim_path_basic(8) [of ip] unfolding lim_path_def by blast+
  ultimately show ?thesis using assms(1)
    by (auto split: prod.splits sum.splits bool.splits)
next
  case False
  have "lim S1 = lim S \<and> phase_of st1 = Serving ip"
    using assms False
    by (cases "(L, ssk, cpk, networks, st, S)" rule: client_step.cases)
      (auto simp: lim_is_idle_eq Let_def split: prod.splits sum.splits if_splits bool.splits dest: answer_of_lim)
  then show ?thesis by simp
qed

lemma client_step_refines:
  assumes "client_step L ssk cpk networks (st, S) = (st1, S1)" and "ph k = Some (phase_of st)"
  shows "server_runs networks (lim S, ph) (lim S1, ph(k \<mapsto> phase_of st1))"
proof (cases "phase_of st")
  case (Arrived ip)
  then have st: "st = At_door ip" by (cases st) auto
  note one = limiter_sys.one
  show ?thesis
  proof (cases "is_allowed networks ip")
    case False
    then show ?thesis using assms st one [OF deny [of ph k ip networks "lim S"]] by auto
  next
    case True
    then show ?thesis
      using assms st one [OF refuse [of ph k ip networks "mono S (mono_pos S)" "lim S"]]
        one [OF admit [of ph k ip networks "mono S (mono_pos S)" "lim S"]]
      by (auto split: prod.splits if_splits)
  qed
next
  case (Serving ip)
  show ?thesis
  proof (cases "phase_of st1 = Ended")
    case True
    then have "st = At_leave ip"
      using assms Serving
      by (cases "(L, ssk, cpk, networks, st, S)" rule: client_step.cases)
        (auto simp: Let_def split: prod.splits sum.splits if_splits bool.splits)
    then show ?thesis using assms limiter_sys.one [OF leave [of ph k ip networks "lim S"]] by auto
  next
    case False
    from session_step_lim [OF assms(1) Serving this]
    have star: "rtranclp (lim_op ip) (lim S) (lim S1)" and p: "phase_of st1 = Serving ip" by simp_all
    have "server_runs networks (lim S, ph) (lim S1, ph)"
      by (rule serving_steps [OF star limiter_sys.refl, where k = k]) (simp add: assms(2) Serving)
    moreover have "ph(k \<mapsto> phase_of st1) = ph" using assms(2) Serving p by auto
    ultimately show ?thesis by simp
  qed
next
  case Ended
  then have "st = At_close \<or> st = Finished" by (cases st) auto
  then have "lim S1 = lim S" "ph(k \<mapsto> phase_of st1) = ph" using assms by (auto simp: close_conn_def)
  then show ?thesis by (simp)
qed

lemma hub_step_refines:
  assumes "hub_step L ssk cpk networks H H1"
  shows "server_runs networks (lim (common H), phases H) (lim (common H1), phases H1)"
  using assms
proof cases
  case (accepted ip w)
  have "phases H1 = (phases H)(length (clients H) \<mapsto> Arrived ip)"
    by (auto simp: phases_def accepted accept_client_def nth_append fun_eq_iff)
  moreover have "phases H (length (clients H)) = None" by (simp add: phases_def)
  ultimately show ?thesis
    using limiter_sys.one [OF server_step.accept [of "phases H" "length (clients H)" networks "lim (common H)" ip]]
    by (simp add: accepted accept_client_def)
next
  case (ran i)
  let ?S = "(common H)\<lparr>conn := snd (clients H ! i)\<rparr>"
  obtain st1 S1 where s: "client_step L ssk cpk networks (stage_of H i, ?S) = (st1, S1)" by force
  have H1: "H1 = H\<lparr>common := S1, clients := (clients H)[i := (st1, conn S1)]\<rparr>"
    using run_client_fields [OF ran(2) s] ran(1) by simp
  have "phases H i = Some (phase_of (stage_of H i))" using ran(2) by (simp add: phases_def)
  from client_step_refines [where ph = "phases H" and k = i, OF s this]
  have "server_runs networks (lim (common H), phases H) (lim S1, (phases H)(i \<mapsto> phase_of st1))" by simp
  moreover have "phases H1 = (phases H)(i \<mapsto> phase_of st1)"
    using ran(2) by (auto simp: phases_def H1 fun_eq_iff)
  ultimately show ?thesis by (simp add: H1)
qed

interpretation hub_refines_limiter: run_refinement "server_step networks" "server_runs networks"
  "hub_step L ssk cpk networks" "hub_runs L ssk cpk networks" "\<lambda>H. (lim (common H), phases H)"
  for L ssk cpk networks
  by unfold_locales (rule hub_step_refines)

lemma limiter_counts_threads:
  assumes "hub_runs L ssk cpk networks (new_hub S) H" and "lim S = new_limiter rate cap mi mt idle"
  shows "conns_for (lim (common H)) ip = int (card (serving (phases H) ip)) \<and>
    total_conns (lim (common H)) = int (card (all_serving (phases H))) \<and>
    int (card (serving (phases H) ip)) \<le> max 0 mi \<and> int (card (all_serving (phases H))) \<le> max 0 mt \<and>
    (serving (phases H) ip = {} \<or> is_allowed networks ip)"
proof -
  have "phases (new_hub S) = Map.empty" by (simp add: phases_def new_hub_def fun_eq_iff)
  with hub_refines_limiter.runs_refine [OF assms(1)] assms(2)
  have "server_runs networks (new_limiter rate cap mi mt idle, Map.empty) (lim (common H), phases H)"
    by (simp add: new_hub_def)
  then show ?thesis by (rule limiter_threads_capped)
qed

text \<open>
  C11. Any number of client threads, interleaved at every lock and every shared object: the limiter's
  count of an address is the number of threads whose connection from that address is being
  served, its total the number of all that are being served; these never exceed the two caps; and
  only whitelisted addresses are served.
\<close>

theorem server_threads_capped:
  assumes "hub_runs L ssk cpk networks (new_hub S) H" and "lim S = new_limiter rate cap mi mt idle"
  shows "conns_for (lim (common H)) ip = int (card (serving (phases H) ip)) \<and>
    total_conns (lim (common H)) = int (card (all_serving (phases H))) \<and>
    int (card (serving (phases H) ip)) \<le> max 0 mi \<and> int (card (all_serving (phases H))) \<le> max 0 mt \<and>
    (serving (phases H) ip = {} \<or> is_allowed networks ip)"
  by (rule limiter_counts_threads [OF assms])

text \<open>A client has been accepted and has passed the door.\<close>

definition demo_hub :: hub where
  "demo_hub = run_client model_lib demo_sk demo_ck [] 0 (accept_client (u ''10.0.0.9'') world0 (new_hub demo_srv))"

lemma demo_hub_runs: "hub_runs model_lib demo_sk demo_ck [] (new_hub demo_srv) demo_hub"
  unfolding demo_hub_def
  by (rule hub_more [OF hub_more [OF hub_none accepted]], rule ran) (simp add: accept_client_def new_hub_def)

lemma demo_hub_stage: "clients demo_hub = [(At_handshake (u ''10.0.0.9''), world0)]" "fwd (common demo_hub) = demo_fw"
proof -
  have "fst (try_add_connection 0 (new_limiter 10 20 5 50 300) (u ''10.0.0.9''))"
    by (simp add: lim.add_iff) (simp add: new_limiter_def conns_for_def)
  then obtain l where add: "try_add_connection 0 (new_limiter 10 20 5 50 300) (u ''10.0.0.9'') = (True, l)"
    by (cases "try_add_connection 0 (new_limiter 10 20 5 50 300) (u ''10.0.0.9'')") auto
  let ?H = "accept_client (u ''10.0.0.9'') world0 (new_hub demo_srv)"
  have "\<exists>S1. client_step model_lib demo_sk demo_ck [] (At_door (u ''10.0.0.9''), demo_srv\<lparr>conn := world0\<rparr>)
      = (At_handshake (u ''10.0.0.9''), S1) \<and> conn S1 = world0 \<and> fwd S1 = demo_fw"
    using add by (simp add: is_allowed_def demo_srv_def)
  then obtain S1 where s: "client_step model_lib demo_sk demo_ck [] (At_door (u ''10.0.0.9''), demo_srv\<lparr>conn := world0\<rparr>)
      = (At_handshake (u ''10.0.0.9''), S1)" and S1: "conn S1 = world0" "fwd S1 = demo_fw" by blast
  have h: "demo_hub = ?H\<lparr>common := S1, clients := (clients ?H)[0 := (At_handshake (u ''10.0.0.9''), conn S1)]\<rparr>"
    unfolding demo_hub_def by (rule run_client_fields) (use s in \<open>simp_all add: accept_client_def new_hub_def\<close>)
  show "clients demo_hub = [(At_handshake (u ''10.0.0.9''), world0)]" unfolding h S1
    by (simp add: accept_client_def new_hub_def)
  show "fwd (common demo_hub) = demo_fw" unfolding h by (simp add: S1)
qed

theorem server_threads_capped_witness:
  "conns_for (lim (common demo_hub)) (u ''10.0.0.9'') = 1 \<and> total_conns (lim (common demo_hub)) = 1"
proof -
  have p: "phases demo_hub = [0 \<mapsto> Serving (u ''10.0.0.9'')]"
    by (rule ext) (simp add: phases_def demo_hub_stage)
  have "serving (phases demo_hub) (u ''10.0.0.9'') = {0}" "all_serving (phases demo_hub) = {0}"
    unfolding p by (auto simp: serving_def all_serving_def split: if_splits)
  then show ?thesis
    using server_threads_capped [OF demo_hub_runs, of 10 20 5 50 300 "u ''10.0.0.9''"] by (simp add: demo_srv_def)
qed

subsection \<open>A session lost\<close>

lemma run_forward:
  assumes "i < length (clients H)" and "clients H ! i = (At_forward ip keys req fc, w)" and "\<And>r. fc \<noteq> Replied r"
    and "fw_next req (fwd (common H)) fc = (F, fc1)"
  shows "run_client L ssk cpk networks i H = H\<lparr>common := (common H)\<lparr>conn := w, fwd := F\<rparr>,
    clients := (clients H)[i := (At_forward ip keys req fc1, w)]\<rparr>"
  by (subst run_client_fields [OF assms(1), where st = "At_forward ip keys req fc1" and S = "(common H)\<lparr>conn := w, fwd := F\<rparr>"])
    (use assms in \<open>simp_all add: client_step_forward\<close>)

lemma run_replied:
  assumes "i < length (clients H)" and "clients H ! i = (At_forward ip keys req (Replied (Inr response)), w)"
  shows "run_client L ssk cpk networks i H = H\<lparr>common := (common H)\<lparr>conn := w\<rparr>,
    clients := (clients H)[i := (At_send ip keys DATA_RESPONSE response, w)]\<rparr>"
  by (subst run_client_fields [OF assms(1), where st = "At_send ip keys DATA_RESPONSE response" and S = "(common H)\<lparr>conn := w\<rparr>"])
    (use assms in \<open>simp_all add: answer_of_def ret_def\<close>)

text \<open>
  C37. A relay that ends can take down a session that is not its own.  When a relay has read the end
  of its target's stream and another thread registers a new connection to the same target before
  the relay removes the session, the removal, by the name of the target, removes the new one: the
  other client is answered 200, its socket is open, and its next relay is refused because there is
  no session.
\<close>

theorem stale_close_drops_session:
  assumes "i < length (clients H)" and "j < length (clients H)" and "i \<noteq> j" and "m \<noteq> n"
    and "clients H ! i = (At_forward ip keys req (Reading key n data), w)"
    and "clients H ! j = (At_forward ip' keys' req' (Dialled key m), w')"
    and "sock_recv n (fwd (common H)) = (Inr [], F)"
  shows "\<exists>H'. hub_runs L ssk cpk networks H H' \<and>
    stage_of H' i = At_forward ip keys req (Replied (Inr (relay_reply data True))) \<and>
    stage_of H' j = At_send ip' keys' DATA_RESPONSE (build_response 200 [] []) \<and>
    fw_socks (fwd (common H')) m = fw_socks (fwd (common H)) m \<and>
    fw_handle_relay (JStr key) data' (fwd (common H'))
      = (error_response 502 (u ''No CONNECT session for '' @ key), fwd (common H'))"
proof -
  let ?G = "common H" and ?c = "clients H"
  let ?F2 = "snd (register key m F)" and ?ok = "build_response 200 [] []" and ?r = "relay_reply data True"
  let ?H1 = "H\<lparr>common := ?G\<lparr>conn := w, fwd := F\<rparr>, clients := ?c[i := (At_forward ip keys req (Ending key ?r), w)]\<rparr>"
  let ?H2 = "?H1\<lparr>common := (common ?H1)\<lparr>conn := w', fwd := ?F2\<rparr>,
    clients := (clients ?H1)[j := (At_forward ip' keys' req' (Replied (Inr ?ok)), w')]\<rparr>"
  let ?H3 = "?H2\<lparr>common := (common ?H2)\<lparr>conn := w'\<rparr>, clients := (clients ?H2)[j := (At_send ip' keys' DATA_RESPONSE ?ok, w')]\<rparr>"
  let ?F3 = "snd (unregister key ?F2)"
  let ?H4 = "?H3\<lparr>common := (common ?H3)\<lparr>conn := w, fwd := ?F3\<rparr>,
    clients := (clients ?H3)[i := (At_forward ip keys req (Replied (Inr ?r)), w)]\<rparr>"
  have 1: "run_client L ssk cpk networks i H = ?H1"
    by (rule run_forward [OF assms(1,5)]) (use assms(7) in simp_all)
  have 2: "run_client L ssk cpk networks j ?H1 = ?H2"
    by (rule run_forward [where fc = "Dialled key m" and req = req']) (use assms(2,3,6) in simp_all)
  have 3: "run_client L ssk cpk networks j ?H2 = ?H3"
    by (rule run_replied) (use assms(2,3) in simp_all)
  have 4: "run_client L ssk cpk networks i ?H3 = ?H4"
    by (rule run_forward [where fc = "Ending key ?r" and req = req]) (use assms(1-3) in simp_all)
  note step = ran [of i H L ssk cpk networks, unfolded 1] ran [of j ?H1 L ssk cpk networks, unfolded 2]
    ran [of j ?H2 L ssk cpk networks, unfolded 3] ran [of i ?H3 L ssk cpk networks, unfolded 4]
  have "hub_runs L ssk cpk networks H ?H4"
    by (rule hub_more [OF hub_more [OF hub_more [OF hub_more [OF hub_none]]]])
      (rule step(1), simp add: assms, rule step(2), simp add: assms, rule step(3), simp add: assms, rule step(4), simp add: assms)
  moreover have "fw_socks F m = fw_socks (fwd ?G) m"
    using assms(4,7) by (auto simp: sock_recv_def update_sock_def split: option.splits if_splits prod.splits)
  moreover have "fw_handle_relay (JStr key) data' ?F3 = (error_response 502 (u ''No CONNECT session for '' @ key), ?F3)"
    by (simp add: fw_handle_relay_def session_key_def andThen_def of_result_def unregister_def str_scalar_def)
  ultimately show ?thesis
    by (intro exI [of _ ?H4]) (use assms(1-3) in \<open>simp add: register_def unregister_def\<close>)
qed

text \<open>Two clients of one target: the first relay is about to read its end, the second has just dialled.\<close>

definition demo_race :: hub where
  "demo_race =
     (let k = ([], [], []);
          sock = \<lambda>q. \<lparr>peer = (u ''h'', 443), t_inq = q, t_sent = [], t_faults = [], t_timeout = Some 5, t_open = True\<rparr>;
          F = demo_fw\<lparr>fw_sessions := [u ''h:443'' \<mapsto> 0], fw_socks := [0 \<mapsto> sock [], 1 \<mapsto> sock [Seg [104]]]\<rparr>
      in \<lparr>common = demo_srv\<lparr>fwd := F\<rparr>,
          clients = [(At_forward (u ''a'') k [] (Reading (u ''h:443'') 0 []), world0),
                     (At_forward (u ''b'') k [] (Dialled (u ''h:443'') 1), world0)],
          arrivals = [(u ''a'', world0), (u ''b'', world0)]\<rparr>)"

theorem stale_close_drops_session_witness:
  "\<exists>H'. hub_runs model_lib demo_sk demo_ck [] demo_race H' \<and>
    stage_of H' 1 = At_send (u ''b'') ([], [], []) DATA_RESPONSE (build_response 200 [] []) \<and>
    fst (fw_handle_relay (JStr (u ''h:443'')) [7] (fwd (common H'))) = error_response 502 (u ''No CONNECT session for h:443'')"
proof -
  have 1: "0 < length (clients demo_race)" "1 < length (clients demo_race)"
    and 2: "clients demo_race ! 0 = (At_forward (u ''a'') ([], [], []) [] (Reading (u ''h:443'') 0 []), world0)"
    "clients demo_race ! 1 = (At_forward (u ''b'') ([], [], []) [] (Dialled (u ''h:443'') 1), world0)"
    by (simp_all add: demo_race_def Let_def)
  obtain F where "sock_recv 0 (fwd (common demo_race)) = (Inr [], F)"
    by (simp add: sock_recv_def demo_race_def Let_def)
  from stale_close_drops_session [OF 1 _ _ 2 this, of model_lib demo_sk demo_ck "[]" "[7]"]
  show ?thesis by (auto simp: u_Cons)
qed

end
