(* ===== verification/Server_Runs.thy ===== *)
theory Server_Runs
  imports Server_Threads Tunnel_Refine "HOL-Library.Product_Lexorder"
begin

text \<open>
  Whole runs of the server with all its threads: what is true of a thread because of what happened on
  its own connection since it was accepted, who reaches the forwarder, and how all threads end.
\<close>

subsection \<open>What a thread keeps\<close>

text \<open>
  A relation between what a thread was started with and its stage and connection that every step of a
  thread keeps holds of every thread of every run.
\<close>

lemma thread_invariant:
  assumes "hub_runs L ssk cpk networks (new_hub S) H"
    and start: "\<And>ip w. I (ip, w) (At_door ip, w)"
    and step: "\<And>a st S st1 S1. I a (st, conn S) \<Longrightarrow> client_step L ssk cpk networks (st, S) = (st1, S1) \<Longrightarrow> I a (st1, conn S1)"
  shows "list_all2 I (arrivals H) (clients H)"
proof (rule hub_sys.invariant [OF assms(1)])
  show "list_all2 I (arrivals (new_hub S)) (clients (new_hub S))" by (simp add: new_hub_def)
  show "list_all2 I (arrivals H2) (clients H2)"
    if IH: "list_all2 I (arrivals H1) (clients H1)" and "hub_step L ssk cpk networks H1 H2" for H1 H2
    using that(2)
  proof cases
    case (accepted ip w)
    then show ?thesis using IH start by (simp add: accept_client_def list_all2_appendI)
  next
    case (ran k)
    obtain st1 S1 where s: "client_step L ssk cpk networks (stage_of H1 k, (common H1)\<lparr>conn := snd (clients H1 ! k)\<rparr>) = (st1, S1)"
      by force
    have "I (arrivals H1 ! k) (st1, conn S1)"
      by (rule step [OF _ s]) (use list_all2_nthD2 [OF IH ran(2)] in simp)
    then have "list_all2 I ((arrivals H1)[k := arrivals H1 ! k]) ((clients H1)[k := (st1, conn S1)])"
      using IH by (intro list_all2_update_cong)
    then show ?thesis using run_client_fields [OF ran(2) s] ran(1) by simp
  qed
qed

subsection \<open>Who reaches the forwarder\<close>

text \<open>
  The states of one connection, from the moment it was accepted: a completed handshake on it, then
  frames received and sent under the keys of that handshake.
\<close>

inductive in_session :: "('sk, 'pk) crypto_lib \<Rightarrow> 'sk \<Rightarrow> 'pk \<Rightarrow> world \<Rightarrow> keys \<Rightarrow> world \<Rightarrow> bool" for L ssk cpk w0 where
  shaken: "server_handshake L ssk cpk w0 = (Inr keys, w) \<Longrightarrow> in_session L ssk cpk w0 keys (w\<lparr>sock_timeout := Some t\<rparr>)"
| took: "in_session L ssk cpk w0 (sid, ek, mk) w \<Longrightarrow> recv_frame L (Some ek) (Some mk) w = (r, w1)
    \<Longrightarrow> in_session L ssk cpk w0 (sid, ek, mk) w1"
| gave: "in_session L ssk cpk w0 (sid, ek, mk) w \<Longrightarrow> send_frame L msg_type sid payload (Some ek) (Some mk) w = (r', w1)
    \<Longrightarrow> in_session L ssk cpk w0 (sid, ek, mk) w1"

text \<open>The last thing that happened on the connection: a request came in a frame of its session.\<close>

definition received :: "('sk, 'pk) crypto_lib \<Rightarrow> 'sk \<Rightarrow> 'pk \<Rightarrow> world \<Rightarrow> keys \<Rightarrow> bytes \<Rightarrow> world \<Rightarrow> bool" where
  "received L ssk cpk w0 keys req w \<longleftrightarrow>
     (\<exists>w1 rx. in_session L ssk cpk w0 keys w1 \<and>
       recv_frame L (Some (fst (snd keys))) (Some (snd (snd keys))) w1 = (Inr (DATA_REQUEST, rx, req), w))"

lemma received_in_session: "received L ssk cpk w0 keys req w \<Longrightarrow> in_session L ssk cpk w0 keys w"
  by (cases keys) (auto simp: received_def intro: took)

fun stage_ok ::
    "('sk, 'pk) crypto_lib \<Rightarrow> 'sk \<Rightarrow> 'pk \<Rightarrow> ip_net list \<Rightarrow> pystr \<times> world \<Rightarrow> stage \<times> world \<Rightarrow> bool" where
  "stage_ok L ssk cpk networks (ip0, w0) (At_door ip, w) = (ip = ip0 \<and> w = w0)"
| "stage_ok L ssk cpk networks (ip0, w0) (At_handshake ip, w) = (ip = ip0 \<and> is_allowed networks ip \<and> w = w0)"
| "stage_ok L ssk cpk networks (ip0, w0) (At_idle ip k, w) =
     (ip = ip0 \<and> is_allowed networks ip \<and> in_session L ssk cpk w0 k w)"
| "stage_ok L ssk cpk networks (ip0, w0) (At_recv ip k, w) =
     (ip = ip0 \<and> is_allowed networks ip \<and> in_session L ssk cpk w0 k w)"
| "stage_ok L ssk cpk networks (ip0, w0) (At_touch ip k req, w) =
     (ip = ip0 \<and> is_allowed networks ip \<and> received L ssk cpk w0 k req w)"
| "stage_ok L ssk cpk networks (ip0, w0) (At_rate ip k req, w) =
     (ip = ip0 \<and> is_allowed networks ip \<and> received L ssk cpk w0 k req w)"
| "stage_ok L ssk cpk networks (ip0, w0) (At_forward ip k req fc, w) =
     (ip = ip0 \<and> is_allowed networks ip \<and> received L ssk cpk w0 k req w)"
| "stage_ok L ssk cpk networks (ip0, w0) (At_send ip k msg_type payload, w) =
     (ip = ip0 \<and> is_allowed networks ip \<and> in_session L ssk cpk w0 k w)"
| "stage_ok L ssk cpk networks a s = True"

lemma gave_snd:
  "in_session L ssk cpk w0 (sid, ek, mk) w
    \<Longrightarrow> in_session L ssk cpk w0 (sid, ek, mk) (snd (send_frame L msg_type sid payload (Some ek) (Some mk) w))"
  by (rule gave) (auto intro: prod.collapse [symmetric])

lemma receivedI:
  "in_session L ssk cpk w0 (sid, ek, mk) w1 \<Longrightarrow> recv_frame L (Some ek) (Some mk) w1 = (Inr (DATA_REQUEST, rx, req), w)
    \<Longrightarrow> received L ssk cpk w0 (sid, ek, mk) req w"
  by (auto simp: received_def)

text \<open>The steps that do not use the connection leave it alone.\<close>

lemma conn_touch [simp]: "conn (snd (lim_touch ip S)) = conn S"
  by (simp add: lim_touch_def monotonic_def andThen_def)

lemma conn_check_rate: "lim_check_rate ip S = (r, S1) \<Longrightarrow> conn S1 = conn S"
  by (auto simp: lim_check_rate_def monotonic_def andThen_def ret_def Let_def split: if_splits option.splits prod.splits)

lemma conn_answer_of: "answer_of x S = (y, S1) \<Longrightarrow> conn S1 = conn S"
  by (auto simp: answer_of_def ret_def andThen_def of_result_def on_fwd_def exn_text_def Let_def split: sum.splits)

lemma on_conn_eq: "on_conn m S = (fst (m (conn S)), S\<lparr>conn := snd (m (conn S))\<rparr>)"
  by (simp add: on_conn_def case_prod_beta)

lemma client_step_ok:
  assumes "stage_ok L ssk cpk networks a (st, conn S)" and "client_step L ssk cpk networks (st, S) = (st1, S1)"
  shows "stage_ok L ssk cpk networks a (st1, conn S1)"
proof (cases a)
  case (Pair ip0 w0)
  note simps = Pair on_conn_eq lim_is_idle_eq settimeout_def Let_def
  show ?thesis
  proof (cases "(L, ssk, cpk, networks, st, S)" rule: client_step.cases)
    case (2 L ssk cpk networks ip S)
    then show ?thesis using assms
      by (cases "server_handshake L ssk cpk (conn S)") (auto simp: simps intro: shaken split: sum.splits)
  next
    case (4 L ssk cpk networks ip sid ek mk S)
    then show ?thesis using assms
      by (cases "recv_frame L (Some ek) (Some mk) (conn S)")
        (auto simp: simps intro: took receivedI split: sum.splits prod.splits if_splits)
  qed (use assms in \<open>auto simp: simps intro: gave_snd received_in_session dest!: conn_check_rate conn_answer_of
      split: sum.splits prod.splits if_splits bool.splits\<close>)
qed

lemma hub_runs_ok:
  assumes "hub_runs L ssk cpk networks (new_hub S) H" and "i < length (clients H)"
  shows "stage_ok L ssk cpk networks (arrivals H ! i) (clients H ! i)"
proof -
  have "list_all2 (stage_ok L ssk cpk networks) (arrivals H) (clients H)"
    by (rule thread_invariant [OF assms(1)]) (auto intro: client_step_ok)
  then show ?thesis using assms(2) by (rule list_all2_nthD2)
qed

lemma client_step_fwd:
  assumes "client_step L ssk cpk networks (st, S) = (st1, S1)"
  shows "fwd S1 = fwd S \<or> (\<exists>ip keys req fc. st = At_forward ip keys req fc)"
  using assms
  by (cases "(L, ssk, cpk, networks, st, S)" rule: client_step.cases)
    (auto simp: on_conn_def lim_is_idle_eq lim_touch_def lim_check_rate_def monotonic_def ret_def andThen_def
      close_conn_def Let_def split: prod.splits sum.splits if_splits bool.splits)

text \<open>
  C13. The web and the targets are reached only on behalf of authenticated clients, under every
  interleaving: whichever thread runs next, the forwarder's sessions, sockets and calls stay as they
  are, unless that thread is in the middle of a request of its own client.  Then the address it was
  accepted from is allowed, the handshake on the connection it was accepted on has completed, with
  the keys the thread uses, all that has happened on that connection since is frames under these
  keys, and the last of them carried this very request.  No thread touches the connection of another.
\<close>

theorem forwarder_needs_authentication:
  assumes "hub_runs L ssk cpk networks (new_hub S) H" and "i < length (clients H)"
  shows "(fwd (common (run_client L ssk cpk networks i H)) = fwd (common H) \<or>
     (\<exists>ip w0 keys req fc w. arrivals H ! i = (ip, w0) \<and> clients H ! i = (At_forward ip keys req fc, w) \<and>
        is_allowed networks ip \<and> received L ssk cpk w0 keys req w)) \<and>
    (\<forall>j. j = i \<or> clients (run_client L ssk cpk networks i H) ! j = clients H ! j)"
proof -
  obtain st1 S1 where s: "client_step L ssk cpk networks (stage_of H i, (common H)\<lparr>conn := snd (clients H ! i)\<rparr>) = (st1, S1)"
    by force
  obtain ip w0 st w where a: "arrivals H ! i = (ip, w0)" and c: "clients H ! i = (st, w)" by force
  have "stage_ok L ssk cpk networks (ip, w0) (st, w)" using hub_runs_ok [OF assms] a c by simp
  then have "fwd S1 = fwd (common H) \<or> (\<exists>keys req fc. st = At_forward ip keys req fc \<and> is_allowed networks ip \<and>
      received L ssk cpk w0 keys req w)"
    using client_step_fwd [OF s] c by auto
  moreover have "j = i \<or> (clients H)[i := (st1, conn S1)] ! j = clients H ! j" for j by (cases "i = j") simp_all
  ultimately show ?thesis using a c by (simp add: run_client_fields [OF assms(2) s])
qed

text \<open>
  For the witness: a client's whole side of a handshake and a request, in one segment, and the server
  after six steps of its thread, when the request has been received and granted.
\<close>

definition asking_client :: world where
  "asking_client = demo_sw\<lparr>inq := [Seg (ch_frame demo_cw @ cr_frame model_lib demo_ck (random_at demo_sw 0 16) demo_cw @
     (let (sid, ek, mk) = agreed model_lib demo_sw in sealed_frame model_lib ek mk world0 (DATA_REQUEST, sid, demo_get)))]\<rparr>"

definition demo_asked :: hub where
  "demo_asked = (run_client model_lib demo_sk demo_ck [] 0 ^^ 6)
     (accept_client (u ''10.0.0.9'') asking_client (new_hub demo_srv))"

definition only_client :: "pystr \<times> world \<Rightarrow> stage \<times> server \<Rightarrow> hub" where
  "only_client a s = \<lparr>common = snd s, clients = [(fst s, conn (snd s))], arrivals = [a]\<rparr>"

lemma run_only_client [simp]:
  "run_client L ssk cpk networks 0 (only_client a s) = only_client a (client_step L ssk cpk networks s)"
  by (cases s) (simp add: run_client_def only_client_def case_prod_beta)

lemma asking_session:
  obtains keys w1 w2 where "server_handshake model_lib demo_sk demo_ck asking_client = (Inr keys, w1)"
    and "recv_frame model_lib (Some (fst (snd keys))) (Some (snd (snd keys))) (w1\<lparr>sock_timeout := t\<rparr>)
      = (Inr (DATA_REQUEST, fst keys, demo_get), w2)"
proof -
  obtain sid ek mk where k: "agreed model_lib demo_sw = (sid, ek, mk)" by (cases "agreed model_lib demo_sw")
  let ?f = "sealed_frame model_lib ek mk world0 (DATA_REQUEST, sid, demo_get)"
  have keys: "length sid = 16" "length ek = 32"
    using k derive_keys_length(1) [OF model_lib_ok(2)] by (auto simp: agreed_def Let_def AES_KEY_SIZE_def)
  have ar: "arriving (inq asking_client) = ch_frame demo_cw @ cr_frame model_lib demo_ck (random_at asking_client 0 16) demo_cw @ ?f"
    by (simp add: asking_client_def k)
  have ok: "send_faults asking_client = []" "clocks_agree demo_cw asking_client" by (simp_all add: asking_client_def)
  obtain w1 where w1: "server_handshake model_lib demo_sk (public_key model_lib demo_ck) asking_client = (Inr (agreed model_lib asking_client), w1)"
    "arriving (inq w1) = ?f"
    using server_run [OF ar ok model_lib_rsa model_lib_ok(3)] by blast
  have a: "agreed model_lib asking_client = (sid, ek, mk)" using k by (simp add: agreed_def asking_client_def)
  have c: "carries model_lib (Some ek) (Some mk) (DATA_REQUEST, sid, demo_get) ?f"
    by (rule sealed_frame_sent(2)) (simp_all add: model_lib_ok demo_sizes keys wire_simps world0_def)
  have "arriving (inq (w1\<lparr>sock_timeout := t\<rparr>)) = ?f @ []" using w1(2) by simp
  from carries_received [OF c this] obtain w2 where
    "recv_frame model_lib (Some ek) (Some mk) (w1\<lparr>sock_timeout := t\<rparr>) = (Inr (DATA_REQUEST, sid, demo_get), w2)" by metis
  with w1(1) a show ?thesis by (intro that [of "(sid, ek, mk)"]) (simp_all add: model_lib_def)
qed

lemma demo_asked_runs: "hub_runs model_lib demo_sk demo_ck [] (new_hub demo_srv) demo_asked"
proof -
  let ?H = "accept_client (u ''10.0.0.9'') asking_client (new_hub demo_srv)"
  let ?run = "run_client model_lib demo_sk demo_ck [] 0"
  have "hub_runs model_lib demo_sk demo_ck [] (new_hub demo_srv) ((?run ^^ n) ?H) \<and> length (clients ((?run ^^ n) ?H)) = 1" for n
  proof (induction n)
    case 0
    have "hub_runs model_lib demo_sk demo_ck [] (new_hub demo_srv) ?H" by (rule hub_more [OF hub_none accepted])
    then show ?case by (simp add: accept_client_def new_hub_def)
  next
    case (Suc n)
    then have "0 < length (clients ((?run ^^ n) ?H))" by simp
    with Suc have "hub_runs model_lib demo_sk demo_ck [] (new_hub demo_srv) (?run ((?run ^^ n) ?H))"
      by (blast intro: hub_more ran)
    moreover have "length (clients (?run H)) = length (clients H)" for H
      by (simp add: run_client_def case_prod_beta Let_def)
    ultimately show ?case using Suc by simp
  qed
  then show ?thesis by (simp add: demo_asked_def)
qed

text \<open>The limiter once the door is passed.\<close>

lemma demo_door:
  "try_add_connection 0 (new_limiter 10 20 5 50 300) ip = (True, lim_in)
    \<Longrightarrow> idle_timeout lim_in = 300 \<and> last_activity lim_in = [ip \<mapsto> 0] \<and> buckets lim_in = Map.empty \<and> rps lim_in = 10 \<and> burst lim_in = 20"
  by (auto simp: try_add_connection_def new_limiter_def conns_for_def Let_def split: if_splits)

lemma demo_door_open: "\<exists>l. try_add_connection 0 (new_limiter 10 20 5 50 300) ip = (True, l)"
proof -
  have "fst (try_add_connection 0 (new_limiter 10 20 5 50 300) ip)"
    by (simp add: lim.add_iff) (simp add: new_limiter_def conns_for_def)
  then show ?thesis by (metis prod.collapse eq_True)
qed

lemma demo_asked_state:
  "\<exists>keys S w. demo_asked = \<lparr>common = S, clients = [(At_forward (u ''10.0.0.9'') keys demo_get Asked, w)],
    arrivals = [(u ''10.0.0.9'', asking_client)]\<rparr> \<and> fwd S = demo_fw"
proof -
  let ?ip = "u ''10.0.0.9''" and ?l0 = "new_limiter 10 20 5 50 300"
  let ?step = "client_step model_lib demo_sk demo_ck []" and ?run = "run_client model_lib demo_sk demo_ck [] 0" and ?t = "Some (300 :: rat)"
  obtain l where add: "try_add_connection 0 ?l0 ?ip = (True, l)" using demo_door_open by blast
  note l = demo_door [OF add]
  obtain keys w1 w2 where h: "server_handshake model_lib demo_sk demo_ck asking_client = (Inr keys, w1)"
    and r: "recv_frame model_lib (Some (fst (snd keys))) (Some (snd (snd keys))) (w1\<lparr>sock_timeout := ?t\<rparr>)
      = (Inr (DATA_REQUEST, fst keys, demo_get), w2)"
    by (rule asking_session)
  obtain sid ek mk where k: "keys = (sid, ek, mk)" by (cases keys)
  let ?S1 = "demo_srv\<lparr>conn := asking_client, lim := l, mono_pos := 1\<rparr>"
  let ?S2 = "?S1\<lparr>conn := w1\<lparr>sock_timeout := ?t\<rparr>\<rparr>"
  let ?S3 = "?S2\<lparr>mono_pos := 2\<rparr>" let ?S4 = "?S3\<lparr>conn := w2\<rparr>"
  let ?S5 = "?S4\<lparr>mono_pos := 3, lim := touch 2 l ?ip\<rparr>"
  have 1: "?step (At_door ?ip, demo_srv\<lparr>conn := asking_client\<rparr>) = (At_handshake ?ip, ?S1)"
    using add by (simp add: is_allowed_def demo_srv_def)
  have 2: "?step (At_handshake ?ip, ?S1) = (At_idle ?ip keys, ?S2)"
    using h l by (simp add: on_conn_eq settimeout_def)
  have 3: "?step (At_idle ?ip keys, ?S2) = (At_recv ?ip keys, ?S3)"
    using l by (simp add: lim_is_idle_eq is_idle_def demo_srv_def)
  have 4: "?step (At_recv ?ip keys, ?S3) = (At_touch ?ip keys demo_get, ?S4)"
    using r by (simp add: k on_conn_eq)
  have 5: "?step (At_touch ?ip keys demo_get, ?S4) = (At_rate ?ip keys demo_get, ?S5)"
    by (simp add: lim_touch_def monotonic_def andThen_def demo_srv_def)
  have 6: "\<exists>S6. ?step (At_rate ?ip keys demo_get, ?S5) = (At_forward ?ip keys demo_get Asked, S6) \<and> fwd S6 = demo_fw \<and> conn S6 = w2"
    using l by (simp add: lim_check_rate_def monotonic_def andThen_def ret_def check_rate_def new_bucket_def
        consume_def touch_def demo_srv_def Let_def)
  then obtain S6 where 6: "?step (At_rate ?ip keys demo_get, ?S5) = (At_forward ?ip keys demo_get Asked, S6)"
    and S6: "fwd S6 = demo_fw" "conn S6 = w2" by blast
  have five: "(f ^^ 5) x = f (f (f (f (f x))))" for f :: "hub \<Rightarrow> hub" and x by (simp add: numeral_eq_Suc)
  have "?run (accept_client ?ip asking_client (new_hub demo_srv))
      = only_client (?ip, asking_client) (?step (At_door ?ip, demo_srv\<lparr>conn := asking_client\<rparr>))"
    by (simp add: run_client_def accept_client_def new_hub_def only_client_def case_prod_beta)
  then have "demo_asked = (?run ^^ 5) (only_client (?ip, asking_client) (At_handshake ?ip, ?S1))"
    unfolding demo_asked_def 1 [symmetric] by (simp add: funpow_swap1 numeral_eq_Suc)
  also have "\<dots> = only_client (?ip, asking_client) (At_forward ?ip keys demo_get Asked, S6)"
    unfolding five run_only_client 2 3 4 5 6 ..
  finally show ?thesis using S6 by (intro exI [of _ keys] exI [of _ S6] exI [of _ w2]) (simp add: only_client_def)
qed

text \<open>The next step of that thread makes a call.\<close>

lemma demo_get_called: "\<exists>r F'. fw_next demo_get demo_fw Asked = (F', Replied r) \<and> length (fw_calls F') = 1"
proof -
  have up: "upper (u ''GET'') = u ''GET''" by (simp add: upper_def u_Cons)
  have l: "loads_bytes demo_get = Inr (JObj [(u ''method'', JStr (u ''GET'')), (u ''url'', JStr (u ''example.org'')),
      (u ''headers'', JObj []), (u ''body'', JStr [])])"
    by (simp add: demo_get_def loads_encode headers_ok_def)
  have "plan_of demo_get = Plan_whole" using up by (simp add: plan_of_def l get_default_def upper_json_def)
  moreover have "forward_request demo_get = dispatch (u ''GET'') (JStr (u ''example.org'')) (JObj []) []"
    using forward_encode [of "u ''GET''" "u ''example.org''" "[]" "[]"] up by (simp add: headers_ok_def demo_get_def)
  then have "length (fw_calls (snd (forward_request demo_get demo_fw))) = 1"
    by (simp add: dispatch_def fw_handle_http_def forward_headers_def andThen_def of_result_def
        try_except_def http_request_def read_content_def demo_fw_def ret_def Let_def)
  ultimately show ?thesis by (simp add: case_prod_beta)
qed

theorem forwarder_needs_authentication_witness:
  "\<exists>keys w. clients demo_asked ! 0 = (At_forward (u ''10.0.0.9'') keys demo_get Asked, w) \<and>
    received model_lib demo_sk demo_ck asking_client keys demo_get w \<and>
    fwd (common (run_client model_lib demo_sk demo_ck [] 0 demo_asked)) \<noteq> fwd (common demo_asked)"
proof -
  obtain keys S w where s: "demo_asked = \<lparr>common = S, clients = [(At_forward (u ''10.0.0.9'') keys demo_get Asked, w)],
      arrivals = [(u ''10.0.0.9'', asking_client)]\<rparr>" and F: "fwd S = demo_fw"
    using demo_asked_state by blast
  obtain r F' where n: "fw_next demo_get demo_fw Asked = (F', Replied r)" "length (fw_calls F') = 1"
    using demo_get_called by blast
  have i: "0 < length (clients demo_asked)" by (simp add: s)
  have "fwd (common (run_client model_lib demo_sk demo_ck [] 0 demo_asked)) = F'"
    by (subst run_forward [OF i, of "u ''10.0.0.9''" keys demo_get Asked w F' "Replied r"])
      (use n(1) F in \<open>simp_all add: s del: fw_next.simps\<close>)
  moreover have "F' \<noteq> fwd (common demo_asked)" using n(2) by (auto simp: s F demo_fw_def)
  ultimately show ?thesis
    using forwarder_needs_authentication [OF demo_asked_runs i] by (auto simp: s)
qed

subsection \<open>Every thread ends\<close>




definition target_bytes :: "nat \<Rightarrow> forwarder \<Rightarrow> nat" where
  "target_bytes n F = (case fw_socks F n of None \<Rightarrow> 0 | Some s \<Rightarrow> stream_size (t_inq s))"



text \<open>
  What every use of the forwarder keeps: sockets are numbered in the order of the dials, and reading
  takes bytes out of a socket that nothing puts back.
\<close>

definition fw_after :: "forwarder \<Rightarrow> forwarder \<Rightarrow> bool" where
  "fw_after F F' \<longleftrightarrow> fw_dialled F \<le> fw_dialled F' \<and>
     (\<forall>n. n < fw_dialled F \<or> fw_dialled F' = fw_dialled F \<longrightarrow> target_bytes n F' \<le> target_bytes n F)"

lemma fw_after_same [simp]: "fw_dialled F' = fw_dialled F \<Longrightarrow> fw_socks F' = fw_socks F \<Longrightarrow> fw_after F F'"
  by (simp add: fw_after_def target_bytes_def)





















end
