(* ===== verification/Arg_Parse.thy ===== *)
theory Arg_Parse
  imports Canonical
begin

text \<open>
  What the programs use of \<open>argparse\<close>: a parser of options that take one value each, with the
  implicit \<open>-h\<close>, as \<open>ArgumentParser.parse_args\<close> of CPython 3.11 works.  An option is a word of its own or is joined
  to its value by \<open>=\<close>, and may be abbreviated; the result is the namespace or the code with which
  the program exits, 0 after the help text and 2 after an error.
\<close>

subsection \<open>Options\<close>

record cli_option =
  opt_flag :: pystr
  opt_int :: bool
  opt_default :: json
  opt_choices :: "pystr list option"

definition text_option :: "string \<Rightarrow> json \<Rightarrow> cli_option" where
  "text_option flag v = \<lparr>opt_flag = u flag, opt_int = False, opt_default = v, opt_choices = None\<rparr>"

definition int_option :: "string \<Rightarrow> json \<Rightarrow> cli_option" where
  "int_option flag v = \<lparr>opt_flag = u flag, opt_int = True, opt_default = v, opt_choices = None\<rparr>"

definition HELP :: "pystr list" where
  "HELP = [u ''-h'', u ''--help'']"

definition flags :: "cli_option list \<Rightarrow> pystr list" where
  "flags P = HELP @ map opt_flag P"

text \<open>
  The value of an option: converted, then checked against the choices.  A value \<open>--\<close>, possible only
  after \<open>=\<close>, is dropped and leaves the empty list.
\<close>

definition value_of :: "cli_option \<Rightarrow> pystr \<Rightarrow> json option" where
  "value_of opt x =
     (if x = u ''--'' then Some (JList [])
      else if opt_int opt then map_option JInt (py_int x)
      else if (case opt_choices opt of None \<Rightarrow> True | Some cs \<Rightarrow> x \<in> set cs) then Some (JStr x) else None)"

subsection \<open>Words\<close>

text \<open>A word of the command line: no option, \<open>--\<close>, an unknown option, or an option with what is joined to it.\<close>

datatype word_kind = Plain | Dashes | Unknown | Flag pystr "pystr option"

text \<open>The options a word may abbreviate: \<open>_get_option_tuples\<close>.\<close>

definition abbreviated :: "cli_option list \<Rightarrow> pystr \<Rightarrow> word_kind list" where
  "abbreviated P x =
     (if take 2 x = u ''--'' then
        (let (p, joined) = (case split_once (u ''='') x of [a, b] \<Rightarrow> (a, Some b) | _ \<Rightarrow> (x, None))
         in map (\<lambda>f. Flag f joined) (filter (starts_with p) (flags P)))
      else concat (map (\<lambda>f. if f = take 2 x then [Flag f (Some (drop 2 x))]
                            else if starts_with x f then [Flag f None] else []) (flags P)))"

text \<open>\<open>^-\d+$|^-\d*\.\d+$\<close>, where the end may be before a final line feed.\<close>

definition negative_number :: "pystr \<Rightarrow> bool" where
  "negative_number x =
     (case x of
        c # r \<Rightarrow>
          c = 45 \<and>
          (let t = (if r \<noteq> [] \<and> last r = 10 then butlast r else r)
           in (t \<noteq> [] \<and> list_all is_digit t) \<or>
              (case split_once (u ''.'') t of [a, b] \<Rightarrow> list_all is_digit a \<and> b \<noteq> [] \<and> list_all is_digit b | _ \<Rightarrow> False))
      | [] \<Rightarrow> False)"

text \<open>\<open>_parse_optional\<close>; \<open>None\<close> for an ambiguous abbreviation.\<close>

definition classify :: "cli_option list \<Rightarrow> pystr \<Rightarrow> word_kind option" where
  "classify P x =
     (if x = [] \<or> hd x \<noteq> 45 then Some Plain
      else if x \<in> set (flags P) then Some (Flag x None)
      else if length x = 1 then Some Plain
      else
        let joined = (case split_once (u ''='') x of [a, b] \<Rightarrow> if a \<in> set (flags P) then Some (Flag a (Some b)) else None | _ \<Rightarrow> None)
        in case joined of Some k \<Rightarrow> Some k
           | None \<Rightarrow>
               (case abbreviated P x of
                  [] \<Rightarrow> Some (if negative_number x \<or> 32 \<in> set x then Plain else Unknown)
                | [k] \<Rightarrow> Some k
                | _ \<Rightarrow> None))"

text \<open>After a first \<open>--\<close> no word is an option.\<close>

fun classify_all :: "cli_option list \<Rightarrow> pystr list \<Rightarrow> (pystr \<times> word_kind) list option" where
  "classify_all P [] = Some []"
| "classify_all P (x # xs) =
     (if x = u ''--'' then Some ((x, Dashes) # map (\<lambda>y. (y, Plain)) xs)
      else Option.bind (classify P x) (\<lambda>k. map_option (Cons (x, k)) (classify_all P xs)))"

subsection \<open>Parsing\<close>

text \<open>\<open>-h\<close> with more letters joined to it is a cluster of short options, and \<open>-h\<close> is the only one.\<close>

definition help_exit :: "pystr \<Rightarrow> pystr option \<Rightarrow> nat" where
  "help_exit f joined =
     (case joined of None \<Rightarrow> 0 | Some x \<Rightarrow> if f = u ''-h'' \<and> x \<noteq> [] \<and> list_all (\<lambda>c. c = 104) x then 0 else 2)"

text \<open>
  Words that are no option and follow none, and unknown options, are an error, reported only after
  all the others have been dealt with.
\<close>

fun consume_words :: "cli_option list \<Rightarrow> bool \<Rightarrow> dict \<Rightarrow> (pystr \<times> word_kind) list \<Rightarrow> nat + dict" where
  "consume_words P extras ns [] = (if extras then Inl 2 else Inr ns)"
| "consume_words P extras ns ((x, Flag f joined) # rest) =
     (if f \<in> set HELP then Inl (help_exit f joined)
      else case find (\<lambda>opt. opt_flag opt = f) P of
          None \<Rightarrow> Inl 2
        | Some opt \<Rightarrow>
            (case joined of
               Some y \<Rightarrow>
                 (case value_of opt y of None \<Rightarrow> Inl 2 | Some v \<Rightarrow> consume_words P extras (dict_set f v ns) rest)
             | None \<Rightarrow>
                 (case rest of
                    (y, Plain) # rest' \<Rightarrow>
                      (case value_of opt y of None \<Rightarrow> Inl 2 | Some v \<Rightarrow> consume_words P extras (dict_set f v ns) rest')
                  | _ \<Rightarrow> Inl 2)))"
| "consume_words P extras ns (_ # rest) = consume_words P True ns rest"

definition defaults :: "cli_option list \<Rightarrow> dict" where
  "defaults P = map (\<lambda>opt. (opt_flag opt, opt_default opt)) P"

definition parse_args :: "cli_option list \<Rightarrow> pystr list \<Rightarrow> nat + dict" where
  "parse_args P argv =
     (case classify_all P argv of None \<Rightarrow> Inl 2 | Some ws \<Rightarrow> consume_words P False (defaults P) ws)"

text \<open>\<open>args.name\<close>.\<close>

definition arg :: "dict \<Rightarrow> string \<Rightarrow> json" where
  "arg ns flag = get_default ns (u flag) JNull"

subsection \<open>Rendered command lines\<close>

text \<open>A parser whose options are long, distinct and none of them the help option.\<close>

definition parser_ok :: "cli_option list \<Rightarrow> bool" where
  "parser_ok P \<longleftrightarrow> distinct (map opt_flag P) \<and>
     list_all (\<lambda>opt. starts_with (u ''--'') (opt_flag opt) \<and> 2 < length (opt_flag opt) \<and> 61 \<notin> set (opt_flag opt) \<and>
       opt_flag opt \<notin> set HELP) P"

text \<open>An option with its value, as one word or as two.\<close>

datatype setting = Joined cli_option pystr | Apart cli_option pystr

fun render :: "setting \<Rightarrow> pystr list" where
  "render (Joined opt x) = [opt_flag opt @ u ''='' @ x]"
| "render (Apart opt x) = [opt_flag opt, x]"

fun apply_setting :: "dict \<Rightarrow> setting \<Rightarrow> dict" where
  "apply_setting ns (Joined opt x) = dict_set (opt_flag opt) (the (value_of opt x)) ns"
| "apply_setting ns (Apart opt x) = dict_set (opt_flag opt) (the (value_of opt x)) ns"

text \<open>What can be rendered: a value apart from its option must not look like one.\<close>

fun setting_ok :: "cli_option list \<Rightarrow> setting \<Rightarrow> bool" where
  "setting_ok P (Joined opt x) \<longleftrightarrow> opt \<in> set P \<and> value_of opt x \<noteq> None"
| "setting_ok P (Apart opt x) \<longleftrightarrow> opt \<in> set P \<and> value_of opt x \<noteq> None \<and> x \<noteq> u ''--'' \<and> classify P x = Some Plain"

lemma parser_okD:
  assumes "parser_ok P" and "opt \<in> set P"
  shows "starts_with (u ''--'') (opt_flag opt)" and "2 < length (opt_flag opt)" and "61 \<notin> set (opt_flag opt)"
    and "opt_flag opt \<notin> set HELP" and "opt_flag opt \<in> set (flags P)" and "find (\<lambda>o'. opt_flag o' = opt_flag opt) P = Some opt"
proof -
  show "starts_with (u ''--'') (opt_flag opt)" "2 < length (opt_flag opt)" "61 \<notin> set (opt_flag opt)"
    "opt_flag opt \<notin> set HELP" "opt_flag opt \<in> set (flags P)"
    using assms by (auto simp: parser_ok_def list_all_iff flags_def)
  have "distinct (map opt_flag P)" using assms(1) by (simp add: parser_ok_def)
  then show "find (\<lambda>o'. opt_flag o' = opt_flag opt) P = Some opt" using assms(2)
    by (induction P) (auto simp: image_iff)
qed

lemma find_sub_absent: "c \<notin> set s \<Longrightarrow> find_sub [c] s = None"
  by (induction s) auto

lemma find_sub_first: "c \<notin> set s \<Longrightarrow> find_sub [c] (s @ c # t) = Some (s, t)"
  by (induction s) auto

lemma flag_shape:
  assumes "parser_ok P" and "opt \<in> set P"
  obtains r where "opt_flag opt = 45 # 45 # r" and "r \<noteq> []"
proof -
  obtain a b r where f: "opt_flag opt = a # b # r" "r \<noteq> []"
    using parser_okD(2) [OF assms] by (cases "opt_flag opt"; cases "tl (opt_flag opt)"; cases "tl (tl (opt_flag opt))") auto
  then have "a = 45" "b = 45" using parser_okD(1) [OF assms] by (auto simp: starts_with_def u_Cons)
  with f show ?thesis using that by simp
qed

lemma classify_joined:
  assumes "parser_ok P" and "opt \<in> set P"
  shows "classify P (opt_flag opt @ u ''='' @ x) = Some (Flag (opt_flag opt) (Some x))"
proof -
  obtain r where f: "opt_flag opt = 45 # 45 # r" "r \<noteq> []" by (rule flag_shape [OF assms])
  have eq: "u ''='' = [61]" by (simp add: u_Cons)
  have "61 \<notin> set f'" if "f' \<in> set (flags P)" for f'
    using that parser_okD(3) [OF assms(1)] by (auto simp: flags_def HELP_def u_Cons)
  then have "opt_flag opt @ 61 # x \<notin> set (flags P)" by force
  then show ?thesis using parser_okD(3,5) [OF assms] f
    by (simp add: classify_def eq split_once_def find_sub_first Let_def)
qed

lemma classify_flag:
  assumes "parser_ok P" and "opt \<in> set P"
  shows "classify P (opt_flag opt) = Some (Flag (opt_flag opt) None)" and "opt_flag opt \<noteq> u ''--''"
proof -
  obtain r where f: "opt_flag opt = 45 # 45 # r" "r \<noteq> []" by (rule flag_shape [OF assms])
  show "classify P (opt_flag opt) = Some (Flag (opt_flag opt) None)" using parser_okD(5) [OF assms] f by (simp add: classify_def)
  show "opt_flag opt \<noteq> u ''--''" using f by (simp add: u_Cons)
qed

lemma parse_settings:
  assumes "parser_ok P" and "list_all (setting_ok P) ss"
  shows "\<exists>ws. classify_all P (concat (map render ss)) = Some ws \<and>
    consume_words P False ns ws = Inr (foldl apply_setting ns ss)"
  using assms(2)
proof (induction ss arbitrary: ns)
  case (Cons s ss)
  obtain ws where ws: "classify_all P (concat (map render ss)) = Some ws" using Cons by auto
  have rest: "consume_words P False ns' ws = Inr (foldl apply_setting ns' ss)" for ns'
    using Cons.IH [of ns'] Cons.prems ws by auto
  show ?case
  proof (cases s)
    case (Joined opt x)
    let ?w = "opt_flag opt @ u ''='' @ x"
    have opt: "opt \<in> set P" and "value_of opt x \<noteq> None" using Cons.prems Joined by simp_all
    then obtain v where v: "value_of opt x = Some v" by blast
    have "?w \<noteq> u ''--''" by (rule flag_shape [OF assms(1) opt]) (auto simp: u_Cons)
    then have "classify_all P (concat (map render (s # ss))) = Some ((?w, Flag (opt_flag opt) (Some x)) # ws)"
      using classify_joined [OF assms(1) opt, of x] ws by (simp add: Joined)
    then show ?thesis using parser_okD(4,6) [OF assms(1) opt] rest by (simp add: Joined v)
  next
    case (Apart opt x)
    have opt: "opt \<in> set P" and "value_of opt x \<noteq> None" and x: "x \<noteq> u ''--''" "classify P x = Some Plain"
      using Cons.prems Apart by simp_all
    then obtain v where v: "value_of opt x = Some v" by blast
    have "classify_all P (concat (map render (s # ss))) = Some ((opt_flag opt, Flag (opt_flag opt) None) # (x, Plain) # ws)"
      using classify_flag [OF assms(1) opt] ws x by (simp add: Apart)
    then show ?thesis using parser_okD(4,6) [OF assms(1) opt] rest by (simp add: Apart v)
  qed
qed simp

lemma parse_rendered:
  assumes "parser_ok P" and "list_all (setting_ok P) ss"
  shows "parse_args P (concat (map render ss)) = Inr (foldl apply_setting (defaults P) ss)"
  using parse_settings [OF assms, of "defaults P"] by (auto simp: parse_args_def)

text \<open>A program that exits does so with one of the two codes.\<close>

lemma consume_words_exit: "consume_words P extras ns ws = Inl n \<Longrightarrow> n = 0 \<or> n = 2"
  by (induction P extras ns ws rule: consume_words.induct)
    (auto simp: help_exit_def split: if_splits option.splits list.splits prod.splits word_kind.splits)

lemma parse_args_exit: "parse_args P argv = Inl n \<Longrightarrow> n = 0 \<or> n = 2"
  by (auto simp: parse_args_def split: option.splits dest: consume_words_exit)

end
