(* ===== verification/Server_Config.thy ===== *)
theory Server_Config
  imports Server_Props
begin

text \<open>
  The configuration of \<open>server/server_main.py\<close>: defaults, the JSON file, the command line, and the
  limiter and whitelist that \<open>start_server\<close> builds from it.  The file's bytes are an argument,
  \<open>None\<close> where no path is given or nothing is there.
\<close>

definition DEFAULT_CONFIG :: dict where
  "DEFAULT_CONFIG =
     [(u ''listen_ip'', JStr (u ''0.0.0.0'')), (u ''listen_port'', JInt 4433),
      (u ''server_private_key'', JStr (u ''keys/server_private.pem'')),
      (u ''client_public_key'', JStr (u ''keys/client_public.pem'')),
      (u ''whitelist_file'', JStr (u ''config/whitelist.txt'')),
      (u ''rate_limit_requests_per_second'', JInt 10), (u ''rate_limit_burst'', JInt 20),
      (u ''max_connections_per_ip'', JInt 5), (u ''max_total_connections'', JInt 50),
      (u ''idle_timeout_seconds'', JInt 300), (u ''log_level'', JStr (u ''INFO''))]"

subsection \<open>Merging\<close>

text \<open>
  \<open>cfg.update(v)\<close>: a dictionary's entries, or a sequence of pairs.  Keys that are not strings are
  never looked up and are left out.
\<close>

definition update_entries :: "dict \<Rightarrow> dict \<Rightarrow> dict" where
  "update_entries cfg new = foldl (\<lambda>d (k, v). dict_set k v d) cfg new"

definition pair_in :: "json \<Rightarrow> pyexn + json \<times> json" where
  "pair_in v =
     (case v of
        JList [a, b] \<Rightarrow> Inr (a, b) | JStr [a, b] \<Rightarrow> Inr (JStr [a], JStr [b])
      | JObj [(a, _), (b, _)] \<Rightarrow> Inr (JStr a, JStr b)
      | JList _ \<Rightarrow> Inl (Lib ValueErrorC) | JStr _ \<Rightarrow> Inl (Lib ValueErrorC) | JObj _ \<Rightarrow> Inl (Lib ValueErrorC)
      | _ \<Rightarrow> Inl (Lib TypeErrorC))"

definition set_pair :: "dict \<Rightarrow> json \<times> json \<Rightarrow> pyexn + dict" where
  "set_pair cfg kv =
     (case fst kv of JStr k \<Rightarrow> Inr (dict_set k (snd kv) cfg)
      | JList _ \<Rightarrow> Inl (Lib TypeErrorC) | JObj _ \<Rightarrow> Inl (Lib TypeErrorC) | _ \<Rightarrow> Inr cfg)"

fun update_pairs :: "dict \<Rightarrow> json list \<Rightarrow> pyexn + dict" where
  "update_pairs cfg [] = Inr cfg"
| "update_pairs cfg (v # vs) = bind_res (bind_res (pair_in v) (set_pair cfg)) (\<lambda>cfg'. update_pairs cfg' vs)"

definition update_config :: "dict \<Rightarrow> json \<Rightarrow> pyexn + dict" where
  "update_config cfg v =
     (case v of
        JObj d \<Rightarrow> Inr (update_entries cfg d)
      | JList vs \<Rightarrow> update_pairs cfg vs
      | JStr s \<Rightarrow> update_pairs cfg (map (\<lambda>c. JStr [c]) s)
      | _ \<Rightarrow> Inl (Lib TypeErrorC))"

definition load_config :: "bytes option \<Rightarrow> pyexn + dict" where
  "load_config file =
     (case file of
        None \<Rightarrow> Inr DEFAULT_CONFIG
      | Some data \<Rightarrow> bind_res (loads_bytes data) (update_config DEFAULT_CONFIG))"

subsection \<open>The command line\<close>

record cli_args =
  arg_listen_ip :: "pystr option"
  arg_listen_port :: "int option"
  arg_server_key :: "pystr option"
  arg_client_pubkey :: "pystr option"
  arg_whitelist :: "pystr option"

text \<open>An option replaces an entry if it was given and is neither empty nor zero.\<close>

definition override_str :: "string \<Rightarrow> pystr option \<Rightarrow> dict \<Rightarrow> dict" where
  "override_str key arg cfg =
     (case arg of Some s \<Rightarrow> if s \<noteq> [] then dict_set (u key) (JStr s) cfg else cfg | None \<Rightarrow> cfg)"

definition override_int :: "string \<Rightarrow> int option \<Rightarrow> dict \<Rightarrow> dict" where
  "override_int key arg cfg =
     (case arg of Some n \<Rightarrow> if n \<noteq> 0 then dict_set (u key) (JInt n) cfg else cfg | None \<Rightarrow> cfg)"

definition apply_args :: "cli_args \<Rightarrow> dict \<Rightarrow> dict" where
  "apply_args args cfg =
     override_str ''whitelist_file'' (arg_whitelist args)
       (override_str ''client_public_key'' (arg_client_pubkey args)
         (override_str ''server_private_key'' (arg_server_key args)
           (override_int ''listen_port'' (arg_listen_port args)
             (override_str ''listen_ip'' (arg_listen_ip args) cfg))))"

subsection \<open>The policies\<close>

text \<open>
  A number of the configuration; \<open>None\<close> is outside the model: no number, on which the limiter would
  fail when it is used, an infinity, or a fraction where the limiter's model keeps an integer.
\<close>

definition rat_of :: "json \<Rightarrow> rat option" where
  "rat_of v = (case v of JInt i \<Rightarrow> Some (of_int i) | JBool b \<Rightarrow> Some (if b then 1 else 0) | JFloat (Fin m k) \<Rightarrow> Some (of_int m / 10 ^ k) | _ \<Rightarrow> None)"

definition int_of :: "json \<Rightarrow> int option" where
  "int_of v = (case v of JInt i \<Rightarrow> Some i | JBool b \<Rightarrow> Some (if b then 1 else 0) | _ \<Rightarrow> None)"

definition config_rat :: "dict \<Rightarrow> string \<Rightarrow> int \<Rightarrow> rat option" where
  "config_rat cfg key fallback = rat_of (get_default cfg (u key) (JInt fallback))"

definition config_int :: "dict \<Rightarrow> string \<Rightarrow> int \<Rightarrow> int option" where
  "config_int cfg key fallback = int_of (get_default cfg (u key) (JInt fallback))"

definition configured_limiter :: "dict \<Rightarrow> rate_limiter option" where
  "configured_limiter cfg =
     Option.bind (config_rat cfg ''rate_limit_requests_per_second'' 10) (\<lambda>rate.
     Option.bind (config_int cfg ''rate_limit_burst'' 20) (\<lambda>cap.
     Option.bind (config_int cfg ''max_connections_per_ip'' 5) (\<lambda>per_ip.
     Option.bind (config_int cfg ''max_total_connections'' 50) (\<lambda>all.
     Option.bind (config_rat cfg ''idle_timeout_seconds'' 300) (\<lambda>idle.
     Some (new_limiter rate cap per_ip all idle))))))"

subsection \<open>What the server runs with\<close>

lemma update_entries_get:
  assumes "distinct (map fst new)"
  shows "dict_get (update_entries cfg new) k
    = (case dict_get new k of Some v \<Rightarrow> Some v | None \<Rightarrow> dict_get cfg k)"
  using assms
proof (induction new arbitrary: cfg)
  case (Cons e new)
  obtain k' v where e: "e = (k', v)" by (cases e)
  have "update_entries cfg (e # new) = update_entries (dict_set k' v cfg) new"
    by (simp add: update_entries_def e)
  moreover have "dict_get new k' = None" using Cons.prems by (auto simp: e dict_get_def map_of_eq_None_iff)
  ultimately show ?case using Cons by (auto simp: e dict_get_set split: option.split)
qed (simp add: update_entries_def)

lemma apply_args_get:
  assumes "k \<notin> {u ''listen_ip'', u ''listen_port'', u ''server_private_key'', u ''client_public_key'', u ''whitelist_file''}"
  shows "dict_get (apply_args args cfg) k = dict_get cfg k"
  using assms
  by (auto simp: apply_args_def override_str_def override_int_def dict_get_set split: option.split)

text \<open>
  C31. The configuration file overrides the defaults entry by entry: for every JSON object in it, each
  setting the server starts with is the file's value if the file has the key, and the default
  otherwise; the command line does not touch the limiter's settings.  In particular, when the
  file sets only the two caps, the limiter runs with these caps and the default rates.
\<close>

theorem configuration_overrides_defaults:
  assumes "loads_bytes data = Inr (JObj user)" and "distinct (map fst user)"
  shows "\<exists>cfg. load_config (Some data) = Inr cfg \<and>
    (\<forall>k. dict_get cfg k = (case dict_get user k of Some v \<Rightarrow> Some v | None \<Rightarrow> dict_get DEFAULT_CONFIG k)) \<and>
    configured_limiter (apply_args args cfg) = configured_limiter cfg \<and>
    (user = [(u ''max_connections_per_ip'', JInt per_ip), (u ''max_total_connections'', JInt all)] \<longrightarrow>
       configured_limiter cfg = Some (new_limiter 10 20 per_ip all 300))"
proof -
  let ?cfg = "update_entries DEFAULT_CONFIG user"
  have get: "dict_get ?cfg k = (case dict_get user k of Some v \<Rightarrow> Some v | None \<Rightarrow> dict_get DEFAULT_CONFIG k)" for k
    by (rule update_entries_get [OF assms(2)])
  have "load_config (Some data) = Inr ?cfg" using assms(1) by (simp add: load_config_def update_config_def)
  moreover have "configured_limiter (apply_args args ?cfg) = configured_limiter ?cfg"
    by (simp add: configured_limiter_def config_rat_def config_int_def get_default_def apply_args_get)
  moreover have "configured_limiter ?cfg = Some (new_limiter 10 20 per_ip all 300)"
    if "user = [(u ''max_connections_per_ip'', JInt per_ip), (u ''max_total_connections'', JInt all)]"
    using get unfolding that
    by (simp add: configured_limiter_def config_rat_def config_int_def get_default_def DEFAULT_CONFIG_def
        rat_of_def int_of_def)
  ultimately show ?thesis using get by blast
qed

theorem configuration_overrides_defaults_witness:
  "\<exists>cfg. load_config (Some (dumps_bytes (JObj [(u ''max_connections_per_ip'', JInt 2), (u ''max_total_connections'', JInt 3)])))
      = Inr cfg \<and> configured_limiter cfg = Some (new_limiter 10 20 2 3 300) \<and>
      dict_get cfg (u ''listen_port'') = Some (JInt 4433)"
proof -
  let ?user = "[(u ''max_connections_per_ip'', JInt 2), (u ''max_total_connections'', JInt 3)]"
  have "wf_json (JObj ?user)" by simp
  then have d: "loads_bytes (dumps_bytes (JObj ?user)) = Inr (JObj ?user)" by (rule loads_dumps_bytes)
  have dist: "distinct (map fst ?user)" by simp
  obtain cfg where "load_config (Some (dumps_bytes (JObj ?user))) = Inr cfg"
    and "\<forall>k. dict_get cfg k = (case dict_get ?user k of Some v \<Rightarrow> Some v | None \<Rightarrow> dict_get DEFAULT_CONFIG k)"
    and "configured_limiter cfg = Some (new_limiter 10 20 2 3 300)"
    using configuration_overrides_defaults [OF d dist, of _ 2 3] by blast
  then show ?thesis by (simp add: DEFAULT_CONFIG_def)
qed

end
