(* ===== verification/Command_Line.thy ===== *)
theory Command_Line
  imports Arg_Parse Server_Config
begin

text \<open>
  The command lines of the three programs that have one: \<open>main\<close> of \<open>server/server_main.py\<close>,
  \<open>client/client_proxy.py\<close> and \<open>scripts/load_test.py\<close> as far as their parsers and \<open>logging.basicConfig\<close>.
\<close>

subsection \<open>The parsers\<close>

definition LOCALHOST :: json where "LOCALHOST = JStr (u ''127.0.0.1'')"

definition CLIENT_PARSER :: "cli_option list" where
  "CLIENT_PARSER =
     [text_option ''--server-host'' LOCALHOST, int_option ''--server-port'' (JInt 4433),
      text_option ''--proxy-host'' LOCALHOST, int_option ''--proxy-port'' (JInt 8888),
      text_option ''--client-key'' (JStr (u ''keys/client_private.pem'')),
      text_option ''--server-pubkey'' (JStr (u ''keys/server_public.pem'')),
      (text_option ''--log-level'' (JStr (u ''INFO'')))
        \<lparr>opt_choices := Some [u ''DEBUG'', u ''INFO'', u ''WARNING'', u ''ERROR'']\<rparr>]"

definition SERVER_PARSER :: "cli_option list" where
  "SERVER_PARSER =
     [text_option ''--config'' (JStr (u ''config/server_config.json'')), text_option ''--listen-ip'' JNull,
      int_option ''--listen-port'' JNull, text_option ''--server-key'' JNull, text_option ''--client-pubkey'' JNull,
      text_option ''--whitelist'' JNull, text_option ''--log-level'' JNull]"

definition LOAD_PARSER :: "cli_option list" where
  "LOAD_PARSER =
     [int_option ''--proxy-port'' (JInt 8888), int_option ''--requests'' (JInt 100), int_option ''--threads'' (JInt 10),
      text_option ''--url'' (JStr (u ''http://httpbin.org/get''))]"

lemma parsers_ok: "parser_ok CLIENT_PARSER" "parser_ok SERVER_PARSER" "parser_ok LOAD_PARSER"
  by (simp_all add: parser_ok_def CLIENT_PARSER_def SERVER_PARSER_def LOAD_PARSER_def text_option_def int_option_def
      HELP_def starts_with_def u_Cons)

subsection \<open>The programs' use of the namespace\<close>

text \<open>A program ends by \<open>SystemExit\<close> while it parses, or with the result of its body.\<close>

datatype 'a ending = Exited nat | Ended "pyexn + 'a"

definition run_program :: "cli_option list \<Rightarrow> pystr list \<Rightarrow> (dict \<Rightarrow> ('s, 'a) io) \<Rightarrow> 's \<Rightarrow> 'a ending \<times> 's" where
  "run_program P argv body s =
     (case parse_args P argv of Inl code \<Rightarrow> (Exited code, s) | Inr ns \<Rightarrow> (let (r, s') = body ns s in (Ended r, s')))"

text \<open>
  \<open>logging.basicConfig(level=getattr(logging, name))\<close>.  What happens for a name that is no level is up
  to the attributes of the module \<open>logging\<close>: \<open>other\<close>.
\<close>

definition LEVELS :: "pystr list" where
  "LEVELS = [u ''CRITICAL'', u ''FATAL'', u ''ERROR'', u ''WARN'', u ''WARNING'', u ''INFO'', u ''DEBUG'', u ''NOTSET'']"

definition log_setup :: "(pystr \<Rightarrow> pyexn option) \<Rightarrow> json \<Rightarrow> pyexn + unit" where
  "log_setup other name =
     (case name of
        JStr s \<Rightarrow> if s \<in> set LEVELS then Inr () else (case other s of None \<Rightarrow> Inr () | Some e \<Rightarrow> Inl e)
      | _ \<Rightarrow> Inl (Lib TypeErrorC))"

text \<open>An option of the server that was not given, or is the empty list, overrides nothing.\<close>

definition text_arg :: "json \<Rightarrow> pystr option" where
  "text_arg v = (case v of JStr s \<Rightarrow> Some s | _ \<Rightarrow> None)"

definition int_arg :: "json \<Rightarrow> int option" where
  "int_arg v = (case v of JInt n \<Rightarrow> Some n | _ \<Rightarrow> None)"

definition server_args :: "dict \<Rightarrow> cli_args" where
  "server_args ns =
     \<lparr>arg_listen_ip = text_arg (arg ns ''--listen-ip''), arg_listen_port = int_arg (arg ns ''--listen-port''),
      arg_server_key = text_arg (arg ns ''--server-key''), arg_client_pubkey = text_arg (arg ns ''--client-pubkey''),
      arg_whitelist = text_arg (arg ns ''--whitelist'')\<rparr>"

definition server_log_level :: "dict \<Rightarrow> json" where
  "server_log_level ns = (let level = arg ns ''--log-level'' in if truthy level then level else JStr (u ''INFO''))"

definition config_path :: "dict \<Rightarrow> pystr" where
  "config_path ns = (case arg ns ''--config'' of JStr s \<Rightarrow> s | _ \<Rightarrow> [])"

record client_args =
  c_client_key :: json
  c_server_pubkey :: json

definition client_args_of :: "dict \<Rightarrow> client_args" where
  "client_args_of ns = \<lparr>c_client_key = arg ns ''--client-key'', c_server_pubkey = arg ns ''--server-pubkey''\<rparr>"

text \<open>What an option has after a rendered command line: the last setting of it, or its default.\<close>

fun set_flag :: "setting \<Rightarrow> pystr" where
  "set_flag (Joined opt x) = opt_flag opt"
| "set_flag (Apart opt x) = opt_flag opt"

fun set_value :: "setting \<Rightarrow> json" where
  "set_value (Joined opt x) = the (value_of opt x)"
| "set_value (Apart opt x) = the (value_of opt x)"

lemma apply_settings_get:
  "dict_get (foldl apply_setting ns ss) f
    = (case find (\<lambda>s. set_flag s = f) (rev ss) of Some s \<Rightarrow> Some (set_value s) | None \<Rightarrow> dict_get ns f)"
proof (induction ss rule: rev_induct)
  case (snoc s ss)
  then show ?case by (cases s) (auto simp: dict_get_set)
qed simp

subsection \<open>What a command line sets\<close>

text \<open>
  An option given on the command line: whether its value is joined to it by \<open>=\<close>, its name and its
  value.  The last of several values counts.
\<close>

type_synonym given = "bool \<times> pystr \<times> pystr"

fun arg_words :: "given \<Rightarrow> pystr list" where
  "arg_words (True, flag, x) = [flag @ u ''='' @ x]"
| "arg_words (False, flag, x) = [flag, x]"

abbreviation command_line :: "given list \<Rightarrow> pystr list" where
  "command_line gs \<equiv> concat (map arg_words gs)"

definition last_given :: "given list \<Rightarrow> string \<Rightarrow> pystr option" where
  "last_given gs flag = map_of (rev (map snd gs)) (u flag)"

text \<open>The options of text and of whole numbers; a value of its own must not begin with a dash.\<close>

definition takes :: "string list \<Rightarrow> string list \<Rightarrow> given \<Rightarrow> bool" where
  "takes texts ints g =
     (case g of (joined, flag, x) \<Rightarrow>
        x \<noteq> u ''--'' \<and> (joined \<or> x = [] \<or> hd x \<noteq> 45) \<and>
        (flag \<in> set (map u texts) \<or> flag \<in> set (map u ints) \<and> py_int x \<noteq> None))"

definition given_text :: "given list \<Rightarrow> string \<Rightarrow> string \<Rightarrow> json" where
  "given_text gs flag fallback = JStr (case last_given gs flag of Some x \<Rightarrow> x | None \<Rightarrow> u fallback)"

definition given_int :: "given list \<Rightarrow> string \<Rightarrow> int \<Rightarrow> json" where
  "given_int gs flag fallback = JInt (case last_given gs flag of Some x \<Rightarrow> the (py_int x) | None \<Rightarrow> fallback)"

text \<open>The setting of the parser's model that an option given is.\<close>

definition option_of :: "cli_option list \<Rightarrow> pystr \<Rightarrow> cli_option" where
  "option_of P flag = the (find (\<lambda>opt. opt_flag opt = flag) P)"

fun setting_of :: "cli_option list \<Rightarrow> given \<Rightarrow> setting" where
  "setting_of P (True, flag, x) = Joined (option_of P flag) x"
| "setting_of P (False, flag, x) = Apart (option_of P flag) x"

definition given_ok :: "cli_option list \<Rightarrow> given \<Rightarrow> bool" where
  "given_ok P g =
     (case g of (joined, flag, x) \<Rightarrow> x \<noteq> u ''--'' \<and> (joined \<or> x = [] \<or> hd x \<noteq> 45) \<and>
        (\<exists>opt\<in>set P. opt_flag opt = flag \<and> value_of opt x \<noteq> None))"

lemma defaults_get:
  "distinct (map opt_flag P) \<Longrightarrow> opt \<in> set P \<Longrightarrow> dict_get (defaults P) (opt_flag opt) = Some (opt_default opt)"
  by (induction P) (auto simp: defaults_def dict_get_def image_iff)

lemma option_ofI: "parser_ok P \<Longrightarrow> opt \<in> set P \<Longrightarrow> option_of P (opt_flag opt) = opt"
  by (simp add: option_of_def parser_okD(6))

lemma setting_of_ok:
  assumes "parser_ok P" and "given_ok P g"
  shows "setting_ok P (setting_of P g) \<and> render (setting_of P g) = arg_words g"
proof -
  obtain j f x where g: "g = (j, f, x)" by (cases g)
  obtain opt where opt: "opt \<in> set P" "f = opt_flag opt" "value_of opt x \<noteq> None"
    using assms(2) by (auto simp: given_ok_def g)
  have "classify P x = Some Plain" if "\<not> j" using assms(2) that by (auto simp: given_ok_def g classify_def)
  then show ?thesis using assms(2) opt option_ofI [OF assms(1) opt(1)] by (cases j) (auto simp: g given_ok_def)
qed

lemma given_parsed:
  assumes "parser_ok P" and "list_all (given_ok P) gs"
  shows "\<exists>ns. parse_args P (command_line gs) = Inr ns \<and>
    (\<forall>opt\<in>set P. dict_get ns (opt_flag opt) =
       Some (case map_of (rev (map snd gs)) (opt_flag opt) of Some x \<Rightarrow> the (value_of opt x) | None \<Rightarrow> opt_default opt))"
proof -
  have ok: "list_all (setting_ok P) (map (setting_of P) gs)" and r: "map render (map (setting_of P) gs) = map arg_words gs"
    using assms(2) setting_of_ok [OF assms(1)] by (induction gs) auto
  have parsed: "parse_args P (command_line gs) = Inr (foldl apply_setting (defaults P) (map (setting_of P) gs))"
    using parse_rendered [OF assms(1) ok] unfolding r .
  have "dict_get (foldl apply_setting (defaults P) (map (setting_of P) gs)) (opt_flag opt) =
      Some (case map_of (rev (map snd gs)) (opt_flag opt) of Some x \<Rightarrow> the (value_of opt x) | None \<Rightarrow> opt_default opt)"
    if "opt \<in> set P" for opt
    using assms(2)
  proof (induction gs rule: rev_induct)
    case Nil
    show ?case using defaults_get [OF _ that] assms(1) by (simp add: parser_ok_def)
  next
    case (snoc g gs)
    obtain j f x where g: "g = (j, f, x)" by (cases g)
    obtain opt' where o': "opt' \<in> set P" "f = opt_flag opt'" using snoc.prems by (auto simp: given_ok_def g)
    let ?ns = "foldl apply_setting (defaults P) (map (setting_of P) gs)"
    have "foldl apply_setting (defaults P) (map (setting_of P) (gs @ [g])) = dict_set f (the (value_of opt' x)) ?ns"
      using option_ofI [OF assms(1) o'(1)] o'(2) by (cases j) (simp_all add: g)
    then have get: "dict_get (foldl apply_setting (defaults P) (map (setting_of P) (gs @ [g]))) (opt_flag opt)
        = (if opt_flag opt = f then Some (the (value_of opt' x)) else dict_get ?ns (opt_flag opt))"
      by (simp only: dict_get_set)
    have last: "map_of (rev (map snd (gs @ [g]))) = (map_of (rev (map snd gs)))(f \<mapsto> x)" by (simp add: g)
    show ?case
    proof (cases "opt_flag opt = f")
      case True
      have "opt' = opt"
        using option_ofI [OF assms(1) o'(1)] option_ofI [OF assms(1) \<open>opt \<in> set P\<close>] o'(2) True by metis
      then show ?thesis unfolding get last using True by simp
    next
      case False
      have "list_all (given_ok P) gs" using snoc.prems by simp
      from snoc.IH [OF this] False show ?thesis unfolding get last by simp
    qed
  qed
  with parsed show ?thesis by blast
qed

text \<open>A parser has the options of text and of numbers, and the values given are among the choices.\<close>

definition has_options :: "cli_option list \<Rightarrow> string list \<Rightarrow> string list \<Rightarrow> bool" where
  "has_options P texts ints \<longleftrightarrow>
     list_all (\<lambda>t. list_ex (\<lambda>opt. opt_flag opt = u t \<and> \<not> opt_int opt) P) texts \<and>
     list_all (\<lambda>t. list_ex (\<lambda>opt. opt_flag opt = u t \<and> opt_int opt) P) ints"

definition choices_kept :: "cli_option list \<Rightarrow> given list \<Rightarrow> bool" where
  "choices_kept P gs \<longleftrightarrow>
     list_all (\<lambda>opt. case opt_choices opt of None \<Rightarrow> True | Some cs \<Rightarrow> list_all (\<lambda>(j, f, x). f = opt_flag opt \<longrightarrow> x \<in> set cs) gs) P"

lemma choice_value:
  assumes "choices_kept P gs" and "opt \<in> set P" and "\<not> opt_int opt" and "(j, opt_flag opt, x) \<in> set gs" and "x \<noteq> u ''--''"
  shows "value_of opt x = Some (JStr x)"
proof -
  have "x \<in> set cs" if "opt_choices opt = Some cs" for cs
    using assms(1,2,4) that by (force simp: choices_kept_def list_all_iff)
  then show ?thesis using assms(3,5) by (auto simp: value_of_def split: option.split)
qed

lemma takes_ok:
  assumes "has_options P texts ints" and "list_all (takes texts ints) gs" and "choices_kept P gs"
  shows "list_all (given_ok P) gs"
  unfolding list_all_iff
proof
  fix g assume g: "g \<in> set gs"
  obtain j f x where gx: "g = (j, f, x)" by (cases g)
  have t: "takes texts ints (j, f, x)" using assms(2) g by (simp add: list_all_iff gx)
  have "\<exists>opt\<in>set P. opt_flag opt = f \<and> value_of opt x \<noteq> None"
  proof (cases "f \<in> set (map u texts)")
    case True
    then obtain opt where opt: "opt \<in> set P" "opt_flag opt = f" "\<not> opt_int opt"
      using assms(1) by (auto simp: has_options_def list_all_iff list_ex_iff)
    have "value_of opt x = Some (JStr x)"
      by (rule choice_value [OF assms(3) opt(1,3), of j]) (use g t gx opt(2) in \<open>simp_all add: takes_def\<close>)
    then show ?thesis using opt by auto
  next
    case False
    then obtain n where n: "n \<in> set ints" "f = u n" "py_int x \<noteq> None" "x \<noteq> u ''--''" using t by (auto simp: takes_def)
    then obtain opt where "opt \<in> set P" "opt_flag opt = f" "opt_int opt"
      using assms(1) by (auto simp: has_options_def list_all_iff list_ex_iff)
    then show ?thesis using n by (auto simp: value_of_def)
  qed
  then show "given_ok P g" using t by (auto simp: given_ok_def takes_def gx)
qed

lemma last_given_in: "last_given gs flag = Some x \<Longrightarrow> \<exists>j. (j, u flag, x) \<in> set gs"
proof -
  assume l: "last_given gs flag = Some x"
  have "(u flag, x) \<in> snd ` set gs" using map_of_SomeD [OF l [unfolded last_given_def]] by simp
  then show ?thesis by force
qed

text \<open>The namespace of a command line, option by option.\<close>

definition namespace_of :: "cli_option list \<Rightarrow> given list \<Rightarrow> dict \<Rightarrow> bool" where
  "namespace_of P gs ns \<longleftrightarrow>
     (\<forall>opt\<in>set P. dict_get ns (opt_flag opt) =
       Some (case map_of (rev (map snd gs)) (opt_flag opt) of Some x \<Rightarrow> the (value_of opt x) | None \<Rightarrow> opt_default opt))"

lemma arg_text:
  assumes "list_all (takes texts ints) gs" and "choices_kept P gs" and "namespace_of P gs ns"
    and "opt \<in> set P" and "opt_flag opt = u flag" and "\<not> opt_int opt"
  shows "arg ns flag = (case last_given gs flag of Some x \<Rightarrow> JStr x | None \<Rightarrow> opt_default opt)"
proof -
  have "value_of opt x = Some (JStr x)" if l: "last_given gs flag = Some x" for x
  proof -
    obtain j where j: "(j, opt_flag opt, x) \<in> set gs" using last_given_in [OF l] assms(5) by auto
    then have "x \<noteq> u ''--''" using assms(1) by (auto simp: list_all_iff takes_def)
    then show ?thesis by (rule choice_value [OF assms(2,4,6) j])
  qed
  moreover have "dict_get ns (u flag) = Some (case last_given gs flag of Some x \<Rightarrow> the (value_of opt x) | None \<Rightarrow> opt_default opt)"
    using assms(3,4) unfolding namespace_of_def last_given_def assms(5) [symmetric] by blast
  ultimately show ?thesis by (simp add: arg_def get_default_def split: option.split)
qed

lemma arg_int:
  assumes "list_all (takes texts ints) gs" and "namespace_of P gs ns"
    and "opt \<in> set P" and "opt_flag opt = u flag" and "opt_int opt" and "flag \<notin> set texts"
  shows "arg ns flag = (case last_given gs flag of Some x \<Rightarrow> JInt (the (py_int x)) | None \<Rightarrow> opt_default opt)"
proof -
  have "value_of opt x = Some (JInt (the (py_int x)))" if l: "last_given gs flag = Some x" for x
  proof -
    obtain j where j: "(j, u flag, x) \<in> set gs" using last_given_in [OF l] by blast
    then have "takes texts ints (j, u flag, x)" using assms(1) by (simp add: list_all_iff)
    then have "x \<noteq> u ''--''" "py_int x \<noteq> None" using assms(6) by (auto simp: takes_def)
    then show ?thesis using assms(5) by (auto simp: value_of_def)
  qed
  moreover have "dict_get ns (u flag) = Some (case last_given gs flag of Some x \<Rightarrow> the (value_of opt x) | None \<Rightarrow> opt_default opt)"
    using assms(2,3) unfolding namespace_of_def last_given_def assms(4) [symmetric] by blast
  ultimately show ?thesis by (simp add: arg_def get_default_def split: option.split)
qed

lemma given_namespace:
  assumes "parser_ok P" and "has_options P texts ints" and "list_all (takes texts ints) gs" and "choices_kept P gs"
  shows "\<exists>ns. parse_args P (command_line gs) = Inr ns \<and> namespace_of P gs ns"
  using given_parsed [OF assms(1) takes_ok [OF assms(2-4)]] by (simp add: namespace_of_def)

text \<open>The client.\<close>

definition CLIENT_TEXTS :: "string list" where
  "CLIENT_TEXTS = [''--server-host'', ''--proxy-host'', ''--client-key'', ''--server-pubkey'', ''--log-level'']"

lemma client_line:
  assumes "list_all (takes CLIENT_TEXTS [''--server-port'', ''--proxy-port'']) gs"
    and "list_all (\<lambda>(j, f, x). f = u ''--log-level'' \<longrightarrow> x \<in> {u ''DEBUG'', u ''INFO'', u ''WARNING'', u ''ERROR''}) gs"
  shows "\<exists>ns. parse_args CLIENT_PARSER (command_line gs) = Inr ns \<and>
    arg ns ''--server-host'' = given_text gs ''--server-host'' ''127.0.0.1'' \<and>
    arg ns ''--server-port'' = given_int gs ''--server-port'' 4433 \<and>
    arg ns ''--proxy-host'' = given_text gs ''--proxy-host'' ''127.0.0.1'' \<and>
    arg ns ''--proxy-port'' = given_int gs ''--proxy-port'' 8888 \<and>
    arg ns ''--client-key'' = given_text gs ''--client-key'' ''keys/client_private.pem'' \<and>
    arg ns ''--server-pubkey'' = given_text gs ''--server-pubkey'' ''keys/server_public.pem'' \<and>
    arg ns ''--log-level'' = given_text gs ''--log-level'' ''INFO''"
proof -
  let ?log = "(text_option ''--log-level'' (JStr (u ''INFO'')))
        \<lparr>opt_choices := Some [u ''DEBUG'', u ''INFO'', u ''WARNING'', u ''ERROR'']\<rparr>"
  have options: "has_options CLIENT_PARSER CLIENT_TEXTS [''--server-port'', ''--proxy-port'']"
    by (simp add: has_options_def CLIENT_TEXTS_def CLIENT_PARSER_def text_option_def int_option_def)
  have choices: "choices_kept CLIENT_PARSER gs"
    using assms(2) by (simp add: choices_kept_def CLIENT_PARSER_def text_option_def int_option_def)
  obtain ns where ns: "parse_args CLIENT_PARSER (command_line gs) = Inr ns" "namespace_of CLIENT_PARSER gs ns"
    using given_namespace [OF parsers_ok(1) options assms(1) choices] by blast
  note words = arg_text [OF assms(1) choices ns(2)] and numbers = arg_int [OF assms(1) ns(2)]
  note shape = text_option_def int_option_def given_text_def given_int_def
  have "arg ns flag = given_text gs flag v" if "text_option flag (JStr (u v)) \<in> set CLIENT_PARSER" for flag v
    using words [OF that] by (simp add: shape split: option.split)
  moreover have "arg ns flag = given_int gs flag v" if "int_option flag (JInt v) \<in> set CLIENT_PARSER" "flag \<notin> set CLIENT_TEXTS" for flag v
    using numbers [OF that(1)] that(2) by (simp add: shape split: option.split)
  moreover have "arg ns ''--log-level'' = given_text gs ''--log-level'' ''INFO''"
    using words [of ?log "''--log-level''"] by (simp add: shape CLIENT_PARSER_def split: option.split)
  ultimately show ?thesis using ns(1) by (intro exI [of _ ns]) (simp add: CLIENT_PARSER_def CLIENT_TEXTS_def LOCALHOST_def)
qed

text \<open>The server: what is given overrides the configuration, unless it is empty or zero.\<close>

definition SERVER_TEXTS :: "string list" where
  "SERVER_TEXTS = [''--config'', ''--listen-ip'', ''--server-key'', ''--client-pubkey'', ''--whitelist'', ''--log-level'']"

definition text_over :: "given list \<Rightarrow> string \<Rightarrow> json option \<Rightarrow> json option" where
  "text_over gs flag old =
     (case last_given gs flag of None \<Rightarrow> old | Some x \<Rightarrow> if x = [] then old else Some (JStr x))"

definition int_over :: "given list \<Rightarrow> string \<Rightarrow> json option \<Rightarrow> json option" where
  "int_over gs flag old =
     (case last_given gs flag of None \<Rightarrow> old
      | Some x \<Rightarrow> if the (py_int x) = 0 then old else Some (JInt (the (py_int x))))"

lemma override_given:
  "dict_get (override_str key (last_given gs flag) cfg) k = (if k = u key then text_over gs flag (dict_get cfg k) else dict_get cfg k)"
  "dict_get (override_int key (map_option (the \<circ> py_int) (last_given gs flag)) cfg) k
    = (if k = u key then int_over gs flag (dict_get cfg k) else dict_get cfg k)"
  by (simp_all add: override_str_def override_int_def text_over_def int_over_def dict_get_set split: option.split)

lemma server_line:
  assumes "list_all (takes SERVER_TEXTS [''--listen-port'']) gs"
  shows "\<exists>ns. parse_args SERVER_PARSER (command_line gs) = Inr ns \<and>
    JStr (config_path ns) = given_text gs ''--config'' ''config/server_config.json'' \<and>
    Some (server_log_level ns) = text_over gs ''--log-level'' (Some (JStr (u ''INFO''))) \<and>
    (\<forall>cfg. dict_get (apply_args (server_args ns) cfg) (u ''listen_ip'') = text_over gs ''--listen-ip'' (dict_get cfg (u ''listen_ip'')) \<and>
      dict_get (apply_args (server_args ns) cfg) (u ''listen_port'') = int_over gs ''--listen-port'' (dict_get cfg (u ''listen_port'')) \<and>
      dict_get (apply_args (server_args ns) cfg) (u ''server_private_key'')
        = text_over gs ''--server-key'' (dict_get cfg (u ''server_private_key'')) \<and>
      dict_get (apply_args (server_args ns) cfg) (u ''client_public_key'')
        = text_over gs ''--client-pubkey'' (dict_get cfg (u ''client_public_key'')) \<and>
      dict_get (apply_args (server_args ns) cfg) (u ''whitelist_file'')
        = text_over gs ''--whitelist'' (dict_get cfg (u ''whitelist_file'')))"
proof -
  have options: "has_options SERVER_PARSER SERVER_TEXTS [''--listen-port'']"
    by (simp add: has_options_def SERVER_TEXTS_def SERVER_PARSER_def text_option_def int_option_def)
  have choices: "choices_kept SERVER_PARSER gs"
    by (simp add: choices_kept_def SERVER_PARSER_def text_option_def int_option_def)
  obtain ns where ns: "parse_args SERVER_PARSER (command_line gs) = Inr ns" "namespace_of SERVER_PARSER gs ns"
    using given_namespace [OF parsers_ok(2) options assms choices] by blast
  have words: "arg ns flag = (case last_given gs flag of Some x \<Rightarrow> JStr x | None \<Rightarrow> v)"
    if "text_option flag v \<in> set SERVER_PARSER" for flag v
    using arg_text [OF assms choices ns(2) that] by (simp add: text_option_def split: option.splits)
  have port: "arg ns ''--listen-port'' = (case last_given gs ''--listen-port'' of Some x \<Rightarrow> JInt (the (py_int x)) | None \<Rightarrow> JNull)"
    using arg_int [OF assms ns(2), of "int_option ''--listen-port'' JNull" "''--listen-port''"]
    by (simp add: SERVER_PARSER_def SERVER_TEXTS_def int_option_def split: option.splits)
  have given: "text_arg (arg ns flag) = last_given gs flag" if "text_option flag JNull \<in> set SERVER_PARSER" for flag
    using words [OF that] by (simp add: text_arg_def split: option.split)
  have number: "int_arg (arg ns ''--listen-port'') = map_option (the \<circ> py_int) (last_given gs ''--listen-port'')"
    by (simp add: port int_arg_def split: option.split)
  have cfg: "JStr (config_path ns) = given_text gs ''--config'' ''config/server_config.json''"
    using words [of "''--config''" "JStr (u ''config/server_config.json'')"]
    by (simp add: SERVER_PARSER_def config_path_def given_text_def split: option.split)
  have level: "Some (server_log_level ns) = text_over gs ''--log-level'' (Some (JStr (u ''INFO'')))"
    using words [of "''--log-level''" JNull]
    by (simp add: SERVER_PARSER_def server_log_level_def text_over_def truthy_def Let_def split: option.split)
  have args: "server_args ns = \<lparr>arg_listen_ip = last_given gs ''--listen-ip'',
      arg_listen_port = map_option (the \<circ> py_int) (last_given gs ''--listen-port''),
      arg_server_key = last_given gs ''--server-key'', arg_client_pubkey = last_given gs ''--client-pubkey'',
      arg_whitelist = last_given gs ''--whitelist''\<rparr>"
    by (simp add: server_args_def number given SERVER_PARSER_def)
  show ?thesis
    by (rule exI [of _ ns], intro conjI allI ns(1) cfg level; unfold args)
      (simp_all add: apply_args_def override_given)
qed

text \<open>The load test.\<close>

lemma load_line:
  assumes "list_all (takes [''--url''] [''--proxy-port'', ''--requests'', ''--threads'']) gs"
  shows "\<exists>ns. parse_args LOAD_PARSER (command_line gs) = Inr ns \<and>
    arg ns ''--proxy-port'' = given_int gs ''--proxy-port'' 8888 \<and>
    arg ns ''--requests'' = given_int gs ''--requests'' 100 \<and>
    arg ns ''--threads'' = given_int gs ''--threads'' 10 \<and>
    arg ns ''--url'' = given_text gs ''--url'' ''http://httpbin.org/get''"
proof -
  have options: "has_options LOAD_PARSER [''--url''] [''--proxy-port'', ''--requests'', ''--threads'']"
    by (simp add: has_options_def LOAD_PARSER_def text_option_def int_option_def)
  have choices: "choices_kept LOAD_PARSER gs"
    by (simp add: choices_kept_def LOAD_PARSER_def text_option_def int_option_def)
  obtain ns where ns: "parse_args LOAD_PARSER (command_line gs) = Inr ns" "namespace_of LOAD_PARSER gs ns"
    using given_namespace [OF parsers_ok(3) options assms choices] by blast
  have number: "arg ns flag = given_int gs flag v" if "int_option flag (JInt v) \<in> set LOAD_PARSER" "flag \<noteq> ''--url''" for flag v
    using arg_int [OF assms ns(2) that(1)] that(2) by (simp add: int_option_def given_int_def split: option.split)
  have "arg ns ''--url'' = given_text gs ''--url'' ''http://httpbin.org/get''"
    using arg_text [OF assms choices ns(2), of "text_option ''--url'' (JStr (u ''http://httpbin.org/get''))" "''--url''"]
    by (simp add: LOAD_PARSER_def text_option_def given_text_def split: option.split)
  then show ?thesis using ns(1) number by (intro exI [of _ ns]) (simp add: LOAD_PARSER_def)
qed

text \<open>
  C40. What the command line of each program means.  Take the options of a program in any order, with
  repetitions, each with its value after it or joined to it.  The client then runs with the last host,
  port, key path and level given and otherwise with 127.0.0.1 and 4433 for the server,
  127.0.0.1 and 8888 for its own socket, the key files under \<open>keys/\<close> and \<open>INFO\<close>.  The server
  reads the configuration file given or \<open>config/server_config.json\<close>, and its address, port, keys and
  whitelist are those of the command line where they are given and neither empty nor zero, and those of
  the configuration otherwise.  The load test makes 100 requests from 10 threads to the default URL
  unless it is told otherwise.
\<close>

theorem command_line_understood:
  "(list_all (takes CLIENT_TEXTS [''--server-port'', ''--proxy-port'']) gs \<and>
      list_all (\<lambda>(j, f, x). f = u ''--log-level'' \<longrightarrow> x \<in> {u ''DEBUG'', u ''INFO'', u ''WARNING'', u ''ERROR''}) gs \<longrightarrow>
    (\<exists>ns. parse_args CLIENT_PARSER (command_line gs) = Inr ns \<and>
      arg ns ''--server-host'' = given_text gs ''--server-host'' ''127.0.0.1'' \<and>
      arg ns ''--server-port'' = given_int gs ''--server-port'' 4433 \<and>
      arg ns ''--proxy-host'' = given_text gs ''--proxy-host'' ''127.0.0.1'' \<and>
      arg ns ''--proxy-port'' = given_int gs ''--proxy-port'' 8888 \<and>
      arg ns ''--client-key'' = given_text gs ''--client-key'' ''keys/client_private.pem'' \<and>
      arg ns ''--server-pubkey'' = given_text gs ''--server-pubkey'' ''keys/server_public.pem'' \<and>
      arg ns ''--log-level'' = given_text gs ''--log-level'' ''INFO'')) \<and>
   (list_all (takes SERVER_TEXTS [''--listen-port'']) gs \<longrightarrow>
    (\<exists>ns. parse_args SERVER_PARSER (command_line gs) = Inr ns \<and>
      JStr (config_path ns) = given_text gs ''--config'' ''config/server_config.json'' \<and>
      Some (server_log_level ns) = text_over gs ''--log-level'' (Some (JStr (u ''INFO''))) \<and>
      (\<forall>cfg. dict_get (apply_args (server_args ns) cfg) (u ''listen_ip'') = text_over gs ''--listen-ip'' (dict_get cfg (u ''listen_ip'')) \<and>
        dict_get (apply_args (server_args ns) cfg) (u ''listen_port'') = int_over gs ''--listen-port'' (dict_get cfg (u ''listen_port'')) \<and>
        dict_get (apply_args (server_args ns) cfg) (u ''server_private_key'')
          = text_over gs ''--server-key'' (dict_get cfg (u ''server_private_key'')) \<and>
        dict_get (apply_args (server_args ns) cfg) (u ''client_public_key'')
          = text_over gs ''--client-pubkey'' (dict_get cfg (u ''client_public_key'')) \<and>
        dict_get (apply_args (server_args ns) cfg) (u ''whitelist_file'')
          = text_over gs ''--whitelist'' (dict_get cfg (u ''whitelist_file''))))) \<and>
   (list_all (takes [''--url''] [''--proxy-port'', ''--requests'', ''--threads'']) gs \<longrightarrow>
    (\<exists>ns. parse_args LOAD_PARSER (command_line gs) = Inr ns \<and>
      arg ns ''--proxy-port'' = given_int gs ''--proxy-port'' 8888 \<and>
      arg ns ''--requests'' = given_int gs ''--requests'' 100 \<and>
      arg ns ''--threads'' = given_int gs ''--threads'' 10 \<and>
      arg ns ''--url'' = given_text gs ''--url'' ''http://httpbin.org/get''))"
  by (intro conjI impI client_line server_line load_line) auto

text \<open>A client with a port given twice, the second time joined; and a server with a port and an empty whitelist.\<close>

theorem command_line_understood_witness:
  "(\<exists>ns. parse_args CLIENT_PARSER [u ''--server-port'', u ''1'', u ''--server-host'', u ''h'', u ''--server-port=2''] = Inr ns \<and>
      arg ns ''--server-port'' = JInt 2 \<and> arg ns ''--server-host'' = JStr (u ''h'') \<and> arg ns ''--proxy-port'' = JInt 8888) \<and>
   (\<exists>ns. parse_args SERVER_PARSER [u ''--listen-port'', u ''1'', u ''--whitelist=''] = Inr ns \<and>
      (\<forall>cfg. dict_get (apply_args (server_args ns) cfg) (u ''listen_port'') = Some (JInt 1) \<and>
        dict_get (apply_args (server_args ns) cfg) (u ''whitelist_file'') = dict_get cfg (u ''whitelist_file'')))"
proof -
  have n: "py_int (u ''1'') = Some 1" "py_int (u ''2'') = Some 2"
    by (simp_all add: u_Cons py_int_def strip_def py_space_def is_digit_def Let_def digits_val_def)
  let ?c = "[(False, u ''--server-port'', u ''1''), (False, u ''--server-host'', u ''h''), (True, u ''--server-port'', u ''2'')]"
  let ?s = "[(False, u ''--listen-port'', u ''1''), (True, u ''--whitelist'', [])]"
  have c: "list_all (takes CLIENT_TEXTS [''--server-port'', ''--proxy-port'']) ?c"
    "list_all (\<lambda>(j, f, x). f = u ''--log-level'' \<longrightarrow> x \<in> {u ''DEBUG'', u ''INFO'', u ''WARNING'', u ''ERROR''}) ?c"
    and s: "list_all (takes SERVER_TEXTS [''--listen-port'']) ?s"
    using n by (simp_all add: takes_def CLIENT_TEXTS_def SERVER_TEXTS_def) (simp_all add: u_Cons)
  have lines: "command_line ?c = [u ''--server-port'', u ''1'', u ''--server-host'', u ''h'', u ''--server-port=2'']"
    "command_line ?s = [u ''--listen-port'', u ''1'', u ''--whitelist='']"
    by (simp_all flip: u_append)
  from mp [OF conjunct1 [OF command_line_understood [of ?c]] conjI [OF c]] obtain ns where ns: "parse_args CLIENT_PARSER (command_line ?c) = Inr ns"
    "arg ns ''--server-port'' = given_int ?c ''--server-port'' 4433"
    "arg ns ''--server-host'' = given_text ?c ''--server-host'' ''127.0.0.1''"
    "arg ns ''--proxy-port'' = given_int ?c ''--proxy-port'' 8888" by (elim exE conjE)
  have 1: "arg ns ''--server-port'' = JInt 2" "arg ns ''--server-host'' = JStr (u ''h'')" "arg ns ''--proxy-port'' = JInt 8888"
    unfolding ns using n by (simp_all add: given_int_def given_text_def last_given_def)
  from mp [OF conjunct1 [OF conjunct2 [OF command_line_understood [of ?s]]] s] obtain ms where ms: "parse_args SERVER_PARSER (command_line ?s) = Inr ms"
    "\<And>cfg. dict_get (apply_args (server_args ms) cfg) (u ''listen_port'') = int_over ?s ''--listen-port'' (dict_get cfg (u ''listen_port''))"
    "\<And>cfg. dict_get (apply_args (server_args ms) cfg) (u ''whitelist_file'') = text_over ?s ''--whitelist'' (dict_get cfg (u ''whitelist_file''))"
    by (elim exE conjE) simp
  have 2: "dict_get (apply_args (server_args ms) cfg) (u ''listen_port'') = Some (JInt 1)"
    "dict_get (apply_args (server_args ms) cfg) (u ''whitelist_file'') = dict_get cfg (u ''whitelist_file'')" for cfg
    unfolding ms using n by (simp_all add: int_over_def text_over_def last_given_def)
  show ?thesis using ns(1) 1 ms(1) 2 unfolding lines by blast
qed

end
