(* ===== verification/Key_Files.thy ===== *)
theory Key_Files
  imports Handshake_Run
begin

text \<open>
  \<open>auth/key_manager.py\<close> and \<open>scripts/generate_keys.py\<close>: RSA keys in PEM files.  The PEM format and
  the key generator of the \<open>cryptography\<close> package are the record \<open>key_lib\<close>; the state is the file
  system and the number of keys drawn.  \<open>denied\<close> are the paths that cannot be read or written.
\<close>

record ('sk, 'pk) key_lib =
  draw_key :: "nat \<Rightarrow> nat \<Rightarrow> nat \<Rightarrow> 'sk"
  private_pem :: "'sk \<Rightarrow> bytes option \<Rightarrow> bytes"
  public_pem :: "'pk \<Rightarrow> bytes"
  load_private_pem :: "bytes \<Rightarrow> bytes option \<Rightarrow> pyexn + 'sk"
  load_public_pem :: "bytes \<Rightarrow> pyexn + 'pk"

text \<open>
  What the package documents: loading inverts saving under the same password, and a password for
  a key that is not encrypted is a \<open>TypeError\<close>.
\<close>

definition pem_ok :: "('sk, 'pk) key_lib \<Rightarrow> bool" where
  "pem_ok K \<longleftrightarrow> (\<forall>k p. load_private_pem K (private_pem K k p) p = Inr k) \<and>
     (\<forall>k p. load_private_pem K (private_pem K k None) (Some p) = Inl (Lib TypeErrorC)) \<and>
     (\<forall>k. load_public_pem K (public_pem K k) = Inr k)"

record files =
  contents :: "pystr \<Rightarrow> bytes option"
  denied :: "pystr \<Rightarrow> bool"
  drawn :: nat

definition DEFAULT_KEY_SIZE :: nat where "DEFAULT_KEY_SIZE = 2048"
definition DEFAULT_PUBLIC_EXPONENT :: nat where "DEFAULT_PUBLIC_EXPONENT = 65537"

definition write_bytes :: "pystr \<Rightarrow> bytes \<Rightarrow> (files, unit) io" where
  "write_bytes path data FS =
     (if denied FS path then (Inl (Lib OSErrorC), FS)
      else (Inr (), FS\<lparr>contents := (contents FS)(path \<mapsto> data)\<rparr>))"

definition read_bytes :: "pystr \<Rightarrow> (files, bytes) io" where
  "read_bytes path FS =
     (case contents FS path of
        Some data \<Rightarrow> if denied FS path then (Inl (Lib OSErrorC), FS) else (Inr data, FS)
      | None \<Rightarrow> (Inl (Lib OSErrorC), FS))"

subsection \<open>The key manager\<close>

definition generate_rsa_keypair ::
    "('sk, 'pk) crypto_lib \<Rightarrow> ('sk, 'pk) key_lib \<Rightarrow> nat \<Rightarrow> (files, 'sk \<times> 'pk) io" where
  "generate_rsa_keypair L K bits FS =
     (let private_key = draw_key K DEFAULT_PUBLIC_EXPONENT bits (drawn FS)
      in (Inr (private_key, public_key L private_key), FS\<lparr>drawn := Suc (drawn FS)\<rparr>))"

text \<open>An empty passphrase counts as none.\<close>

definition save_private_key ::
    "('sk, 'pk) key_lib \<Rightarrow> 'sk \<Rightarrow> pystr \<Rightarrow> bytes option \<Rightarrow> (files, unit) io" where
  "save_private_key K key path passphrase =
     write_bytes path (private_pem K key (case passphrase of Some p \<Rightarrow> if p \<noteq> [] then Some p else None | None \<Rightarrow> None))"

definition save_public_key :: "('sk, 'pk) key_lib \<Rightarrow> 'pk \<Rightarrow> pystr \<Rightarrow> (files, unit) io" where
  "save_public_key K key path = write_bytes path (public_pem K key)"

definition load_private_key :: "('sk, 'pk) key_lib \<Rightarrow> pystr \<Rightarrow> bytes option \<Rightarrow> (files, 'sk) io" where
  "load_private_key K path passphrase =
     andThen (read_bytes path) (\<lambda>data. of_result (load_private_pem K data passphrase))"

definition load_public_key :: "('sk, 'pk) key_lib \<Rightarrow> pystr \<Rightarrow> (files, 'pk) io" where
  "load_public_key K path = andThen (read_bytes path) (\<lambda>data. of_result (load_public_pem K data))"

text \<open>The two PEM formats as encoders and decoders.\<close>

interpretation private_file: codec
  "\<lambda>k. private_pem K k p" "\<lambda>data. load_private_pem K data p" "\<lambda>_. pem_ok K"
  for K :: "('sk, 'pk) key_lib" and p
  by unfold_locales (simp add: pem_ok_def)

interpretation public_file: codec "public_pem K" "load_public_pem K" "\<lambda>_. pem_ok K"
  for K :: "('sk, 'pk) key_lib"
  by unfold_locales (simp add: pem_ok_def)

text \<open>A key that was saved is loaded, under the same non-empty passphrase or none.\<close>

lemma saved_private_loads:
  assumes "pem_ok K" and "passphrase \<noteq> Some []" and "save_private_key K key path passphrase FS = (Inr (), FS')"
  shows "load_private_key K path passphrase FS' = (Inr key, FS')"
  using assms(2,3)
  by (auto simp: save_private_key_def write_bytes_def load_private_key_def read_bytes_def andThen_def of_result_def
      private_file.dec_enc [OF assms(1)] split: if_splits option.splits)

lemma saved_public_loads:
  assumes "pem_ok K" and "save_public_key K key path FS = (Inr (), FS')"
  shows "load_public_key K path FS' = (Inr key, FS')"
  using assms(2)
  by (auto simp: save_public_key_def write_bytes_def load_public_key_def read_bytes_def andThen_def of_result_def
      public_file.dec_enc [OF assms(1)] split: if_splits)

text \<open>
  With an empty passphrase the key is written unencrypted, and cannot be loaded with that
  passphrase.
\<close>

lemma empty_passphrase:
  assumes "pem_ok K" and "save_private_key K key path (Some []) FS = (Inr (), FS')"
  shows "contents FS' path = Some (private_pem K key None)"
    and "load_private_key K path (Some []) FS' = (Inl (Lib TypeErrorC), FS')"
  using assms
  by (auto simp: save_private_key_def write_bytes_def load_private_key_def read_bytes_def andThen_def of_result_def
      pem_ok_def split: if_splits)

subsection \<open>The key generation script\<close>

definition key_path :: "pystr \<Rightarrow> string \<Rightarrow> pystr" where
  "key_path keys_dir name = keys_dir @ u ''/'' @ u name"

definition generate_keys ::
    "('sk, 'pk) crypto_lib \<Rightarrow> ('sk, 'pk) key_lib \<Rightarrow> pystr \<Rightarrow> (files, unit) io" where
  "generate_keys L K keys_dir =
     andThen (generate_rsa_keypair L K 2048) (\<lambda>(s_priv, s_pub).
     andThen (save_private_key K s_priv (key_path keys_dir ''server_private.pem'') None) (\<lambda>_.
     andThen (save_public_key K s_pub (key_path keys_dir ''server_public.pem'')) (\<lambda>_.
     andThen (generate_rsa_keypair L K 2048) (\<lambda>(c_priv, c_pub).
     andThen (save_private_key K c_priv (key_path keys_dir ''client_private.pem'') None) (\<lambda>_.
     save_public_key K c_pub (key_path keys_dir ''client_public.pem''))))))"

lemma key_path_eq [simp]: "key_path d a = key_path d b \<longleftrightarrow> a = b"
  by (simp add: key_path_def)

text \<open>
  The keys the two programs load after the script has run belong together: each side's public key
  file is the public key of the other side's private key, as the handshake's runs need it.
\<close>

lemma generated_keys_match:
  assumes "pem_ok K" and "generate_keys L K d FS = (Inr (), FS')"
  shows "\<exists>ssk csk.
    load_private_key K (key_path d ''server_private.pem'') None FS' = (Inr ssk, FS') \<and>
    load_public_key K (key_path d ''client_public.pem'') FS' = (Inr (public_key L csk), FS') \<and>
    load_private_key K (key_path d ''client_private.pem'') None FS' = (Inr csk, FS') \<and>
    load_public_key K (key_path d ''server_public.pem'') FS' = (Inr (public_key L ssk), FS')"
proof -
  let ?ssk = "draw_key K DEFAULT_PUBLIC_EXPONENT 2048 (drawn FS)"
  let ?csk = "draw_key K DEFAULT_PUBLIC_EXPONENT 2048 (Suc (drawn FS))"
  have c: "contents FS' (key_path d ''server_private.pem'') = Some (private_pem K ?ssk None)"
    "contents FS' (key_path d ''client_public.pem'') = Some (public_pem K (public_key L ?csk))"
    "contents FS' (key_path d ''client_private.pem'') = Some (private_pem K ?csk None)"
    "contents FS' (key_path d ''server_public.pem'') = Some (public_pem K (public_key L ?ssk))"
    and ok: "\<not> denied FS' (key_path d ''server_private.pem'')" "\<not> denied FS' (key_path d ''client_public.pem'')"
    "\<not> denied FS' (key_path d ''client_private.pem'')" "\<not> denied FS' (key_path d ''server_public.pem'')"
    using assms(2)
    by (auto simp: generate_keys_def generate_rsa_keypair_def save_private_key_def save_public_key_def
        write_bytes_def andThen_def Let_def split: if_splits)
  then show ?thesis
    by (intro exI [of _ ?ssk] exI [of _ ?csk])
      (simp add: load_private_key_def load_public_key_def read_bytes_def andThen_def of_result_def
        private_file.dec_enc [OF assms(1)] public_file.dec_enc [OF assms(1)])
qed

end
