(* ===== verification/Start_Up.thy ===== *)
theory Start_Up
  imports Command_Line Key_Files Tunnel_Refine
begin

text \<open>
  Starting the two programs from their command lines: \<open>main\<close> and \<open>start_server\<close> of \<open>server/server_main.py\<close>,
  \<open>main\<close> and \<open>start_proxy\<close> of \<open>client/client_proxy.py\<close>, each up to its accept loop.  The state \<open>host\<close> is the file system, what
  \<open>bind\<close> will meet and the addresses listened on.  After the accept loops \<open>server_step\<close> and
  \<open>proxy_step\<close> take over.
\<close>

record host =
  disk :: files
  bind_fault :: "pyexn option"
  listens :: "(json \<times> json) list"

definition on_disk :: "(files, 'a) io \<Rightarrow> (host, 'a) io" where
  "on_disk m H = (let (r, FS) = m (disk H) in (r, H\<lparr>disk := FS\<rparr>))"

subsection \<open>The server\<close>

text \<open>\<open>cfg[key]\<close>, and \<open>Path(v)\<close> of an entry.\<close>

definition cfg_item :: "dict \<Rightarrow> string \<Rightarrow> pyexn + json" where
  "cfg_item cfg key = of_option (Lib KeyErrorC) (dict_get cfg (u key))"

definition as_path :: "json \<Rightarrow> pyexn + pystr" where
  "as_path v = (case v of JStr s \<Rightarrow> Inr s | _ \<Rightarrow> Inl (Lib TypeErrorC))"

text \<open>The whitelist file as \<open>reload\<close> finds it: not there, unreadable, not UTF-8, or its text.\<close>

definition whitelist_at :: "pystr \<Rightarrow> files \<Rightarrow> file_text" where
  "whitelist_at path FS =
     (case contents FS path of
        None \<Rightarrow> None
      | Some data \<Rightarrow> Some (if denied FS path then Inl (Lib OSErrorC) else utf8_decode data))"

text \<open>\<open>AccessController(cfg.get("whitelist_file"))\<close>: a falsy path means no file.\<close>

definition load_whitelist :: "json \<Rightarrow> (host, ip_net list) io" where
  "load_whitelist v =
     (if \<not> truthy v then of_result (access_controller None)
      else andThen (of_result (as_path v)) (\<lambda>path H.
        of_result (access_controller (Some (whitelist_at path (disk H)))) H))"

text \<open>
  \<open>srv.bind((listen_ip, listen_port))\<close> and \<open>srv.listen\<close>: the address must be text and the port an
  integer of 16 bits; the operating system may refuse.
\<close>

definition bind_listen :: "json \<Rightarrow> json \<Rightarrow> json \<Rightarrow> (host, unit) io" where
  "bind_listen ip port backlog H =
     (case (ip, int_of port) of
        (JStr _, Some p) \<Rightarrow>
          if p < 0 \<or> 65535 < p then (Inl (Lib OverflowErrorC), H)
          else (case bind_fault H of
             Some e \<Rightarrow> (Inl e, H)
           | None \<Rightarrow> if int_of backlog = None then (Inl (Lib TypeErrorC), H)
               else (Inr (), H\<lparr>listens := listens H @ [(ip, port)]\<rparr>))
      | _ \<Rightarrow> (Inl (Lib TypeErrorC), H))"

text \<open>What the accept loop gives to every thread; the limiter is \<open>None\<close> outside its model.\<close>

record ('sk, 'pk) running =
  run_key :: 'sk
  run_peer :: 'pk
  run_networks :: "ip_net list"
  run_limiter :: "rate_limiter option"

definition start_server :: "('sk, 'pk) key_lib \<Rightarrow> dict \<Rightarrow> (host, ('sk, 'pk) running) io" where
  "start_server K cfg =
     andThen (of_result (cfg_item cfg ''listen_ip'')) (\<lambda>listen_ip.
     andThen (of_result (cfg_item cfg ''listen_port'')) (\<lambda>listen_port.
     andThen (of_result (bind_res (cfg_item cfg ''server_private_key'') as_path)) (\<lambda>priv_path.
     andThen (on_disk (load_private_key K priv_path None)) (\<lambda>server_priv.
     andThen (of_result (bind_res (cfg_item cfg ''client_public_key'') as_path)) (\<lambda>pub_path.
     andThen (on_disk (load_public_key K pub_path)) (\<lambda>client_pub.
     andThen (load_whitelist (get_default cfg (u ''whitelist_file'') JNull)) (\<lambda>networks.
     andThen (bind_listen listen_ip listen_port (get_default cfg (u ''backlog'') (JInt 20))) (\<lambda>_.
     ret \<lparr>run_key = server_priv, run_peer = client_pub, run_networks = networks,
          run_limiter = configured_limiter cfg\<rparr>))))))))"

text \<open>\<open>main\<close>: the file of \<open>--config\<close>, if it is there, then the other options.\<close>

definition config_at :: "pystr \<Rightarrow> files \<Rightarrow> pyexn + dict" where
  "config_at path FS =
     (if path = [] \<or> contents FS path = None then load_config None
      else if denied FS path then Inl (Lib OSErrorC) else load_config (contents FS path))"

definition server_main ::
    "('sk, 'pk) key_lib \<Rightarrow> pystr \<Rightarrow> cli_args \<Rightarrow> (host, ('sk, 'pk) running) io" where
  "server_main K config args H =
     andThen (of_result (config_at config (disk H))) (\<lambda>cfg. start_server K (apply_args args cfg)) H"

subsection \<open>The client\<close>

text \<open>
  \<open>main\<close>: the keys, a \<open>TunnelClient\<close> with its default timeouts and retries, and the first connection,
  whose failure ends the program.
\<close>

definition client_main ::
    "('sk, 'pk) crypto_lib \<Rightarrow> ('sk, 'pk) key_lib \<Rightarrow> client_args \<Rightarrow> world \<Rightarrow> (nat \<Rightarrow> pyexn + (net_event list \<times> (pyexn \<times> nat) option list))
      \<Rightarrow> (exc_class \<Rightarrow> pystr) \<Rightarrow> (host, 'sk \<times> 'pk \<times> tunnel) io" where
  "client_main L K args w outcome texts =
     andThen (of_result (as_path (c_client_key args))) (\<lambda>priv_path.
     andThen (on_disk (load_private_key K priv_path None)) (\<lambda>client_priv.
     andThen (of_result (as_path (c_server_pubkey args))) (\<lambda>pub_path.
     andThen (on_disk (load_public_key K pub_path)) (\<lambda>server_pub.
     case tunnel_connect L client_priv server_pub (new_tunnel 10 60 3 2 w outcome texts) of
       (Inl e, _) \<Rightarrow> raise e
     | (Inr _, T) \<Rightarrow> ret (client_priv, server_pub, T)))))"

text \<open>The listening socket of \<open>start_proxy\<close>; its failure is outside the \<open>try\<close> that closes the tunnel.\<close>

definition open_proxy :: "json \<Rightarrow> json \<Rightarrow> (host, unit) io" where
  "open_proxy proxy_host proxy_port = bind_listen proxy_host proxy_port (JInt 20)"

subsection \<open>The programs\<close>

definition server_program ::
    "('sk, 'pk) key_lib \<Rightarrow> (pystr \<Rightarrow> pyexn option) \<Rightarrow> pystr list \<Rightarrow> host \<Rightarrow> ('sk, 'pk) running ending \<times> host" where
  "server_program K other argv =
     run_program SERVER_PARSER argv (\<lambda>ns.
       andThen (of_result (log_setup other (server_log_level ns))) (\<lambda>_.
       server_main K (config_path ns) (server_args ns)))"

text \<open>What dialling meets depends on the address of the server.\<close>

definition client_program ::
    "('sk, 'pk) crypto_lib \<Rightarrow> ('sk, 'pk) key_lib \<Rightarrow> (pystr \<Rightarrow> pyexn option) \<Rightarrow> pystr list \<Rightarrow> world
      \<Rightarrow> (json \<Rightarrow> json \<Rightarrow> nat \<Rightarrow> pyexn + (net_event list \<times> (pyexn \<times> nat) option list))
      \<Rightarrow> (exc_class \<Rightarrow> pystr) \<Rightarrow> host \<Rightarrow> ('sk \<times> 'pk \<times> tunnel) ending \<times> host" where
  "client_program L K other argv w outcome texts =
     run_program CLIENT_PARSER argv (\<lambda>ns.
       andThen (of_result (log_setup other (arg ns ''--log-level''))) (\<lambda>_.
       andThen (client_main L K (client_args_of ns) w (outcome (arg ns ''--server-host'') (arg ns ''--server-port'')) texts) (\<lambda>end.
       andThen (open_proxy (arg ns ''--proxy-host'') (arg ns ''--proxy-port'')) (\<lambda>_.
       ret end))))"

text \<open>What a server that has started has been told.\<close>

lemma server_program_Ended:
  assumes "server_program K other argv H = (Ended (Inr R), H')"
  obtains ns cfg where "parse_args SERVER_PARSER argv = Inr ns"
    and "config_at (config_path ns) (disk H) = Inr cfg" and "start_server K (apply_args (server_args ns) cfg) H = (Inr R, H')"
  using assms that
  by (auto simp: server_program_def run_program_def server_main_def andThen_eq_Inr_iff of_result_def
      split: sum.splits prod.splits)

subsection \<open>Both together\<close>

lemma load_keys_disk:
  "on_disk (load_private_key K p pw) H = (fst (load_private_key K p pw (disk H)), H)"
  "on_disk (load_public_key K p) H = (fst (load_public_key K p (disk H)), H)"
  by (simp_all add: on_disk_def load_private_key_def load_public_key_def read_bytes_def andThen_def of_result_def
      split: option.split)

text \<open>What a server that has started runs with.\<close>

lemma start_server_Inr:
  assumes "start_server K cfg H = (Inr R, H')"
  obtains priv pub where "dict_get cfg (u ''server_private_key'') = Some (JStr priv)"
    and "fst (load_private_key K priv None (disk H)) = Inr (run_key R)"
    and "dict_get cfg (u ''client_public_key'') = Some (JStr pub)"
    and "fst (load_public_key K pub (disk H)) = Inr (run_peer R)"
    and "run_limiter R = configured_limiter cfg"
proof -
  have path: "\<exists>s. dict_get cfg (u k) = Some (JStr s) \<and> p = s" if "bind_res (cfg_item cfg k) as_path = Inr p" for k p
    using that by (cases "dict_get cfg (u k)") (auto simp: cfg_item_def as_path_def split: json.splits)
  show ?thesis using assms
    by (auto simp: start_server_def andThen_eq_Inr_iff of_result_def load_keys_disk ret_def dest!: path intro: that)
qed

text \<open>The two ends after their first connection.\<close>

lemma programs_connect:
  assumes lib: "rsa_ok L" "pss_ok L" "oaep_ok L" "hkdf_ok L" and pem: "pem_ok K"
    and keys: "generate_keys L K d FS = (Inr (), disk H)"
    and cfg: "dict_get cfg (u ''server_private_key'') = Some (JStr (key_path d ''server_private.pem''))"
      "dict_get cfg (u ''client_public_key'') = Some (JStr (key_path d ''client_public.pem''))"
    and server: "start_server K cfg H = (Inr R, H')"
    and client: "c_client_key args = JStr (key_path d ''client_private.pem'')"
      "c_server_pubkey args = JStr (key_path d ''server_public.pem'')"
      "load_private_key K (key_path d ''client_private.pem'') None (disk H) = (Inr csk, disk H)"
    and dial: "outcome 0 = Inr (q, [])"
    and net: "connected (w\<lparr>inq := q, sent := [], send_faults := [], sock_open := True, sock_timeout := Some 60\<rparr>)
        (client_handshake L csk (public_key L (run_key R))) (conn S) (server_handshake L (run_key R) (run_peer R))"
    and clocks: "clocks_agree w (conn S)"
  shows "\<exists>T sid ek mk c. client_main L K args w outcome texts H = (Inr (csk, public_key L (run_key R), T), H) \<and>
    session_up T sid ek mk \<and> arriving (inq (link T)) = [] \<and>
    run_session L (run_key R) (run_peer R) ip S
      = serve_loop L ip sid ek mk (S\<lparr>conn := c\<lparr>sock_timeout := Some (idle_timeout (lim S))\<rparr>\<rparr>) \<and>
    arriving (inq c) = []"
proof -
  let ?w = "w\<lparr>inq := q, sent := [], send_faults := [], sock_open := True, sock_timeout := Some 60\<rparr>"
  let ?p = "key_path d"
  obtain ssk csk' where match:
    "load_private_key K (?p ''server_private.pem'') None (disk H) = (Inr ssk, disk H)"
    "load_public_key K (?p ''client_public.pem'') (disk H) = (Inr (public_key L csk'), disk H)"
    "load_private_key K (?p ''client_private.pem'') None (disk H) = (Inr csk', disk H)"
    "load_public_key K (?p ''server_public.pem'') (disk H) = (Inr (public_key L ssk), disk H)"
    using generated_keys_match [OF pem keys] by blast
  have csk: "csk' = csk" using match(3) client by simp
  obtain priv pub where "dict_get cfg (u ''server_private_key'') = Some (JStr priv)"
    "fst (load_private_key K priv None (disk H)) = Inr (run_key R)"
    "dict_get cfg (u ''client_public_key'') = Some (JStr pub)" "fst (load_public_key K pub (disk H)) = Inr (run_peer R)"
    by (rule start_server_Inr [OF server])
  then have R: "run_key R = ssk" "run_peer R = public_key L csk" using cfg match csk by simp_all
  have ck: "clocks_agree ?w (conn S)" using clocks by (simp add: clocks_agree_def)
  obtain sid ek mk cw sw where
    C: "client_handshake L csk (public_key L ssk) ?w = (Inr (sid, ek, mk), cw)" and
    S: "server_handshake L ssk (public_key L csk) (conn S) = (Inr (sid, ek, mk), sw)" and
    len: "length sid = 16" "length ek = 32" "length mk = 32" and ends: "arriving (inq cw) = []" "arriving (inq sw) = []"
    using ends_agree [OF net [unfolded R] ck lib] by blast
  have "fault_free ?w" by (simp add: fault_free_def)
  then have ff: "fault_free cw" using client_handshake_fault_free [of L csk "public_key L ssk"] C
    unfolding stable_def by (metis snd_conv)
  let ?T = "(new_tunnel 10 60 3 2 w outcome texts)\<lparr>dials := 1, past := [w], link := cw, has_sock := True,
     session_id_of := Some sid, enc_key_of := Some ek, mac_key_of := Some mk, is_connected := True\<rparr>"
  have "do_connect L csk (public_key L ssk) (new_tunnel 10 60 3 2 w outcome texts) = (Inr (), ?T)"
    using dial C
    by (simp add: do_connect_def andThen_def close_socket_def dial_server_def on_link_def keep_session_def
        settimeout_def new_tunnel_def Let_def)
  then have "client_main L K args w outcome texts H = (Inr (csk, public_key L ssk, ?T), H)"
    using match client csk by (simp add: client_main_def as_path_def of_result_def load_keys_disk andThen_def ret_def)
  moreover have "session_up ?T sid ek mk" using ff len by (simp add: session_up_def wire_simps)
  moreover have "run_session L ssk (public_key L csk) ip S
      = serve_loop L ip sid ek mk (S\<lparr>conn := sw\<lparr>sock_timeout := Some (idle_timeout (lim S))\<rparr>\<rparr>)"
    using S by (simp add: run_session_def on_conn_def settimeout_def andThen_def)
  ultimately show ?thesis using ends R by auto
qed

text \<open>The two programs, from their command lines.\<close>

lemma programs_launched:
  assumes lib: "rsa_ok L" "pss_ok L" "oaep_ok L" "hkdf_ok L" and pem: "pem_ok K"
    and keys: "generate_keys L K d FS = (Inr (), disk H)"
    and server: "server_program K other sargv H = (Ended (Inr R), H')"
      "parse_args SERVER_PARSER sargv = Inr sns" "config_at (config_path sns) (disk H) = Inr cfg"
      "dict_get (apply_args (server_args sns) cfg) (u ''server_private_key'') = Some (JStr (key_path d ''server_private.pem''))"
      "dict_get (apply_args (server_args sns) cfg) (u ''client_public_key'') = Some (JStr (key_path d ''client_public.pem''))"
    and client: "parse_args CLIENT_PARSER cargv = Inr cns"
      "arg cns ''--client-key'' = JStr (key_path d ''client_private.pem'')"
      "arg cns ''--server-pubkey'' = JStr (key_path d ''server_public.pem'')"
      "load_private_key K (key_path d ''client_private.pem'') None (disk H) = (Inr csk, disk H)"
      "log_setup other (arg cns ''--log-level'') = Inr ()"
      "open_proxy (arg cns ''--proxy-host'') (arg cns ''--proxy-port'') H = (Inr (), Hc)"
    and dial: "outcome (arg cns ''--server-host'') (arg cns ''--server-port'') 0 = Inr (q, [])"
    and net: "connected (w\<lparr>inq := q, sent := [], send_faults := [], sock_open := True, sock_timeout := Some 60\<rparr>)
        (client_handshake L csk (public_key L (run_key R))) (conn S) (server_handshake L (run_key R) (run_peer R))"
    and clocks: "clocks_agree w (conn S)"
  shows "\<exists>T sid ek mk c.
    client_program L K other cargv w outcome texts H = (Ended (Inr (csk, public_key L (run_key R), T)), Hc) \<and>
    session_up T sid ek mk \<and> arriving (inq (link T)) = [] \<and>
    run_session L (run_key R) (run_peer R) ip S
      = serve_loop L ip sid ek mk (S\<lparr>conn := c\<lparr>sock_timeout := Some (idle_timeout (lim S))\<rparr>\<rparr>) \<and>
    arriving (inq c) = []"
proof -
  have start: "start_server K (apply_args (server_args sns) cfg) H = (Inr R, H')"
    by (rule server_program_Ended [OF server(1)]) (use server(2,3) in simp)
  have args: "c_client_key (client_args_of cns) = JStr (key_path d ''client_private.pem'')"
    "c_server_pubkey (client_args_of cns) = JStr (key_path d ''server_public.pem'')"
    using client(2,3) by (simp_all add: client_args_of_def)
  from programs_connect [where outcome = "outcome (arg cns ''--server-host'') (arg cns ''--server-port'')",
    OF lib pem keys server(4,5) start args client(4) dial net clocks, of texts ip]
  obtain T sid ek mk c where T: "client_main L K (client_args_of cns) w (outcome (arg cns ''--server-host'') (arg cns ''--server-port'')) texts H
      = (Inr (csk, public_key L (run_key R), T), H)"
    and up: "session_up T sid ek mk \<and> arriving (inq (link T)) = [] \<and>
    run_session L (run_key R) (run_peer R) ip S
      = serve_loop L ip sid ek mk (S\<lparr>conn := c\<lparr>sock_timeout := Some (idle_timeout (lim S))\<rparr>\<rparr>) \<and>
    arriving (inq c) = []" by blast
  have "client_program L K other cargv w outcome texts H = (Ended (Inr (csk, public_key L (run_key R), T)), Hc)"
    using client(1,5,6) T by (simp add: client_program_def run_program_def andThen_def of_result_def ret_def)
  with up show ?thesis by blast
qed

text \<open>
  C5. From key generation and two command lines to a session: on a machine where the key generation
  script has run, a server that starts and a client, whatever else their command lines and the
  configuration file say, connect to each other if these name the generated key files, each its
  own private key and the other's public key.  When their first connection carries each
  side's bytes to the other, the client's program has a tunnel that is up and listens for browsers,
  and the server's thread is in its serving loop, with the same session id and keys.
\<close>

theorem started_programs_connect:
  assumes lib: "rsa_ok L" "pss_ok L" "oaep_ok L" "hkdf_ok L" and pem: "pem_ok K"
    and keys: "generate_keys L K d FS = (Inr (), disk H)"
    and server: "server_program K other sargv H = (Ended (Inr R), H')"
      "parse_args SERVER_PARSER sargv = Inr sns" "config_at (config_path sns) (disk H) = Inr cfg"
      "dict_get (apply_args (server_args sns) cfg) (u ''server_private_key'') = Some (JStr (key_path d ''server_private.pem''))"
      "dict_get (apply_args (server_args sns) cfg) (u ''client_public_key'') = Some (JStr (key_path d ''client_public.pem''))"
    and client: "parse_args CLIENT_PARSER cargv = Inr cns"
      "arg cns ''--client-key'' = JStr (key_path d ''client_private.pem'')"
      "arg cns ''--server-pubkey'' = JStr (key_path d ''server_public.pem'')"
      "load_private_key K (key_path d ''client_private.pem'') None (disk H) = (Inr csk, disk H)"
      "log_setup other (arg cns ''--log-level'') = Inr ()"
      "open_proxy (arg cns ''--proxy-host'') (arg cns ''--proxy-port'') H = (Inr (), Hc)"
    and dial: "outcome (arg cns ''--server-host'') (arg cns ''--server-port'') 0 = Inr (q, [])"
    and net: "connected (w\<lparr>inq := q, sent := [], send_faults := [], sock_open := True, sock_timeout := Some 60\<rparr>)
        (client_handshake L csk (public_key L (run_key R))) (conn S) (server_handshake L (run_key R) (run_peer R))"
    and clocks: "clocks_agree w (conn S)"
  shows "\<exists>T sid ek mk c.
    client_program L K other cargv w outcome texts H = (Ended (Inr (csk, public_key L (run_key R), T)), Hc) \<and>
    session_up T sid ek mk \<and> arriving (inq (link T)) = [] \<and>
    run_session L (run_key R) (run_peer R) ip S
      = serve_loop L ip sid ek mk (S\<lparr>conn := c\<lparr>sock_timeout := Some (idle_timeout (lim S))\<rparr>\<rparr>) \<and>
    arriving (inq c) = []"
  by (rule programs_launched [where outcome = outcome, OF assms])

text \<open>
  A concrete machine for the witness: toy PEM files, an empty file system on which the script has
  run, the default configuration and the default client arguments.
\<close>

definition demo_pem :: "(bytes, bytes) key_lib" where
  "demo_pem = \<lparr>draw_key = (\<lambda>e bits n. if n = 0 then demo_sk else demo_ck),
     private_pem = (\<lambda>k p. (if p = None then 0 else 1) # k), public_pem = (\<lambda>k. k),
     load_private_pem = (\<lambda>data p. if p \<noteq> None \<and> hd data = 0 then Inl (Lib TypeErrorC) else Inr (tl data)),
     load_public_pem = Inr\<rparr>"

lemma demo_pem_ok: "pem_ok demo_pem"
  by (simp add: pem_ok_def demo_pem_def)

definition demo_disk :: files where
  "demo_disk = snd (generate_keys model_lib demo_pem (u ''keys'') \<lparr>contents = Map.empty, denied = (\<lambda>_. False), drawn = 0\<rparr>)"

definition demo_host :: host where
  "demo_host = \<lparr>disk = demo_disk, bind_fault = None, listens = []\<rparr>"

lemma demo_paths:
  "key_path (u ''keys'') ''server_private.pem'' = u ''keys/server_private.pem''"
  "key_path (u ''keys'') ''client_public.pem'' = u ''keys/client_public.pem''"
  "key_path (u ''keys'') ''client_private.pem'' = u ''keys/client_private.pem''"
  "key_path (u ''keys'') ''server_public.pem'' = u ''keys/server_public.pem''"
  by (simp_all add: key_path_def u_Cons)

lemma demo_generated:
  "generate_keys model_lib demo_pem (u ''keys'') \<lparr>contents = Map.empty, denied = (\<lambda>_. False), drawn = 0\<rparr> = (Inr (), demo_disk)"
  "contents demo_disk = [u ''keys/server_private.pem'' \<mapsto> 0 # demo_sk,
     u ''keys/server_public.pem'' \<mapsto> public_key model_lib demo_sk, u ''keys/client_private.pem'' \<mapsto> 0 # demo_ck,
     u ''keys/client_public.pem'' \<mapsto> public_key model_lib demo_ck]"
  "\<not> denied demo_disk p"
  by (simp_all add: demo_disk_def generate_keys_def generate_rsa_keypair_def save_private_key_def save_public_key_def
      write_bytes_def andThen_def demo_pem_def demo_paths)

lemma demo_start:
  "start_server demo_pem DEFAULT_CONFIG demo_host = (Inr \<lparr>run_key = demo_sk, run_peer = public_key model_lib demo_ck,
     run_networks = [], run_limiter = configured_limiter DEFAULT_CONFIG\<rparr>,
     demo_host\<lparr>listens := [(JStr (u ''0.0.0.0''), JInt 4433)]\<rparr>)"
proof -
  have "dict_get DEFAULT_CONFIG (u ''backlog'') = None" by (simp add: DEFAULT_CONFIG_def)
  moreover have "dict_get DEFAULT_CONFIG (u ''whitelist_file'') = Some (JStr (u ''config/whitelist.txt''))"
    "dict_get DEFAULT_CONFIG (u ''listen_ip'') = Some (JStr (u ''0.0.0.0''))"
    "dict_get DEFAULT_CONFIG (u ''listen_port'') = Some (JInt 4433)"
    "dict_get DEFAULT_CONFIG (u ''server_private_key'') = Some (JStr (u ''keys/server_private.pem''))"
    "dict_get DEFAULT_CONFIG (u ''client_public_key'') = Some (JStr (u ''keys/client_public.pem''))"
    by (simp_all add: DEFAULT_CONFIG_def)
  moreover have "contents demo_disk (u ''config/whitelist.txt'') = None" by (simp add: demo_generated)
  moreover have "truthy (JStr (u ''config/whitelist.txt''))" by (simp add: truthy_def u_Cons)
  moreover have "load_private_key demo_pem (u ''keys/server_private.pem'') None demo_disk = (Inr demo_sk, demo_disk)"
    "load_public_key demo_pem (u ''keys/client_public.pem'') demo_disk = (Inr (public_key model_lib demo_ck), demo_disk)"
    by (simp_all add: load_private_key_def load_public_key_def read_bytes_def andThen_def of_result_def demo_generated)
      (simp_all add: demo_pem_def)
  ultimately show ?thesis
    by (simp add: start_server_def andThen_def of_result_def ret_def cfg_item_def as_path_def load_keys_disk
        demo_host_def load_whitelist_def whitelist_at_def access_controller_def reload_def bind_listen_def
        get_default_def int_of_def)
qed

text \<open>The client's socket after it has dialled, and the server's thread.\<close>

definition demo_dialled :: world where
  "demo_dialled = demo_cw\<lparr>inq := inq demo_client, sent := [], send_faults := [], sock_open := True, sock_timeout := Some 60\<rparr>"

lemma demo_dialled_connected:
  "connected demo_dialled (client_handshake model_lib demo_ck (public_key model_lib demo_sk))
     demo_server (server_handshake model_lib demo_sk (public_key model_lib demo_ck))"
proof -
  have same: "random_at demo_dialled = random_at demo_cw" "clocks_agree demo_dialled demo_server"
    "ch_frame demo_dialled = ch_frame demo_cw" "cr_frame model_lib demo_ck ns demo_dialled = cr_frame model_lib demo_ck ns demo_cw" for ns
    using demo_clocks' by (simp_all add: demo_dialled_def random_at_def clocks_agree_def ch_frame_def cr_frame_def
        demo_client_def demo_cw_def fun_eq_iff Let_def)
  have a: "arriving (inq demo_dialled) = sh_frame model_lib demo_sk (random_at demo_dialled 0 16) demo_server
      @ sd_frame model_lib (public_key model_lib demo_ck) 1 (random_at demo_sw 16 16) (random_at demo_sw 32 32) @ []"
    unfolding same by (simp add: demo_dialled_def demo_to_client_def demo_client_def demo_server_def)
  have "send_faults demo_dialled = []" by (simp add: demo_dialled_def)
  from client_run [OF a this same(2) model_lib_rsa model_lib_ok(3,4) length_random_at length_random_at]
  have "sent (snd (client_handshake model_lib demo_ck (public_key model_lib demo_sk) demo_dialled)) = arriving (inq demo_server)"
    by (auto simp: same demo_world demo_server_def demo_to_server_def) (auto simp: demo_dialled_def)
  moreover have "arriving (inq demo_dialled) = sent (snd (server_handshake model_lib demo_sk (public_key model_lib demo_ck) demo_server))"
    using demo_runs(2) by (auto simp: demo_dialled_def)
  ultimately show ?thesis by (auto simp: connected_def demo_world) (simp_all add: demo_dialled_def)
qed

text \<open>The server is told of its keys, the client is started without arguments.\<close>

definition demo_server_argv :: "pystr list" where
  "demo_server_argv = [u ''--server-key=keys/server_private.pem'', u ''--client-pubkey=keys/client_public.pem'']"

lemma u_empty: "u s = [] \<longleftrightarrow> s = []"
  by (simp add: u_def)

lemma dict_set_same: "dict_get d k = Some v \<Longrightarrow> dict_set k v d = d"
  by (induction k v d rule: dict_set.induct) (auto split: if_splits)

lemma demo_server_parsed:
  "\<exists>ns. parse_args SERVER_PARSER demo_server_argv = Inr ns \<and> arg ns ''--server-key'' = JStr (u ''keys/server_private.pem'') \<and>
    arg ns ''--client-pubkey'' = JStr (u ''keys/client_public.pem'') \<and> arg ns ''--log-level'' = JNull \<and>
    config_path ns = u ''config/server_config.json'' \<and> apply_args (server_args ns) DEFAULT_CONFIG = DEFAULT_CONFIG"
proof -
  let ?key = "text_option ''--server-key'' JNull" and ?pub = "text_option ''--client-pubkey'' JNull"
  let ?ss = "[Joined ?key (u ''keys/server_private.pem''), Joined ?pub (u ''keys/client_public.pem'')]"
  have v: "value_of ?key (u ''keys/server_private.pem'') = Some (JStr (u ''keys/server_private.pem''))"
    "value_of ?pub (u ''keys/client_public.pem'') = Some (JStr (u ''keys/client_public.pem''))"
    by (simp_all add: value_of_def text_option_def)
  have "list_all (setting_ok SERVER_PARSER) ?ss" using v by (simp add: SERVER_PARSER_def)
  from parse_rendered [OF parsers_ok(2) this]
  have p: "parse_args SERVER_PARSER (concat (map render ?ss)) = Inr (foldl apply_setting (defaults SERVER_PARSER) ?ss)" .
  let ?ns = "foldl apply_setting (defaults SERVER_PARSER) ?ss"
  have ns: "?ns = [(u ''--config'', JStr (u ''config/server_config.json'')), (u ''--listen-ip'', JNull), (u ''--listen-port'', JNull),
      (u ''--server-key'', JStr (u ''keys/server_private.pem'')), (u ''--client-pubkey'', JStr (u ''keys/client_public.pem'')),
      (u ''--whitelist'', JNull), (u ''--log-level'', JNull)]"
    using v by (simp add: defaults_def SERVER_PARSER_def) (simp add: text_option_def int_option_def)
  have f: "opt_flag ?key = u ''--server-key''" "opt_flag ?pub = u ''--client-pubkey''" by (simp_all add: text_option_def)
  have w: "u ''--server-key'' @ u ''='' @ u ''keys/server_private.pem'' = u ''--server-key=keys/server_private.pem''"
    "u ''--client-pubkey'' @ u ''='' @ u ''keys/client_public.pem'' = u ''--client-pubkey=keys/client_public.pem''"
    unfolding u_append [symmetric] by simp_all
  have "concat (map render ?ss) = demo_server_argv" by (simp only: demo_server_argv_def list.map concat.simps render.simps f w append.simps)
  with p have parsed: "parse_args SERVER_PARSER demo_server_argv = Inr ?ns" by (simp only:)
  have "server_args ?ns = \<lparr>arg_listen_ip = None, arg_listen_port = None, arg_server_key = Some (u ''keys/server_private.pem''),
      arg_client_pubkey = Some (u ''keys/client_public.pem''), arg_whitelist = None\<rparr>"
    unfolding ns by (simp add: server_args_def text_arg_def int_arg_def arg_def get_default_def)
  moreover have "dict_get DEFAULT_CONFIG (u ''server_private_key'') = Some (JStr (u ''keys/server_private.pem''))"
    "dict_get DEFAULT_CONFIG (u ''client_public_key'') = Some (JStr (u ''keys/client_public.pem''))"
    by (simp_all add: DEFAULT_CONFIG_def)
  note same = dict_set_same [OF this(1)] dict_set_same [OF this(2)]
  ultimately have "apply_args (server_args ?ns) DEFAULT_CONFIG = DEFAULT_CONFIG"
    unfolding apply_args_def override_str_def override_int_def by (simp only: cli_args.simps option.simps u_empty same) (simp add: same)
  with parsed show ?thesis unfolding ns
    by (intro exI, intro conjI) (assumption | simp add: arg_def get_default_def config_path_def)+
qed

lemma demo_server_started:
  "server_program demo_pem (\<lambda>_. None) demo_server_argv demo_host = (Ended (Inr \<lparr>run_key = demo_sk,
     run_peer = public_key model_lib demo_ck, run_networks = [], run_limiter = configured_limiter DEFAULT_CONFIG\<rparr>),
     demo_host\<lparr>listens := [(JStr (u ''0.0.0.0''), JInt 4433)]\<rparr>)"
proof -
  obtain ns where ns: "parse_args SERVER_PARSER demo_server_argv = Inr ns" "arg ns ''--log-level'' = JNull"
    "config_path ns = u ''config/server_config.json''" "apply_args (server_args ns) DEFAULT_CONFIG = DEFAULT_CONFIG"
    using demo_server_parsed by blast
  have "config_at (config_path ns) (disk demo_host) = Inr DEFAULT_CONFIG"
    by (simp add: ns config_at_def load_config_def demo_host_def demo_generated)
  then show ?thesis using demo_start
    by (simp add: server_program_def run_program_def ns server_main_def server_log_level_def truthy_def log_setup_def
        LEVELS_def andThen_def of_result_def)
qed

theorem started_programs_connect_witness:
  "\<exists>T sid ek mk. client_program model_lib demo_pem (\<lambda>_. None) [] demo_cw (\<lambda>_ _ _. Inr (inq demo_client, [])) (\<lambda>_. []) demo_host
      = (Ended (Inr (demo_ck, public_key model_lib demo_sk, T)), demo_host\<lparr>listens := [(LOCALHOST, JInt 8888)]\<rparr>) \<and>
    session_up T sid ek mk"
proof -
  let ?S = "demo_srv\<lparr>conn := demo_server\<rparr>" and ?p = "key_path (u ''keys'')"
  let ?R = "\<lparr>run_key = demo_sk, run_peer = public_key model_lib demo_ck, run_networks = [],
     run_limiter = configured_limiter DEFAULT_CONFIG\<rparr>"
  let ?ns = "defaults CLIENT_PARSER"
  have keys: "generate_keys model_lib demo_pem (u ''keys'') \<lparr>contents = Map.empty, denied = (\<lambda>_. False), drawn = 0\<rparr>
      = (Inr (), disk demo_host)" by (simp add: demo_generated(1) demo_host_def)
  obtain sns where sns: "parse_args SERVER_PARSER demo_server_argv = Inr sns" and
    cp: "config_path sns = u ''config/server_config.json''" and ap: "apply_args (server_args sns) DEFAULT_CONFIG = DEFAULT_CONFIG"
    using demo_server_parsed by blast
  have conf: "config_at (config_path sns) (disk demo_host) = Inr DEFAULT_CONFIG"
    by (simp add: cp config_at_def load_config_def demo_host_def demo_generated)
  have cfg: "dict_get (apply_args (server_args sns) DEFAULT_CONFIG) (u ''server_private_key'') = Some (JStr (?p ''server_private.pem''))"
    "dict_get (apply_args (server_args sns) DEFAULT_CONFIG) (u ''client_public_key'') = Some (JStr (?p ''client_public.pem''))"
    unfolding demo_paths ap by (simp_all add: DEFAULT_CONFIG_def)
  have parsed: "parse_args CLIENT_PARSER [] = Inr ?ns" by (simp add: parse_args_def)
  have args: "arg ?ns ''--client-key'' = JStr (?p ''client_private.pem'')" "arg ?ns ''--server-pubkey'' = JStr (?p ''server_public.pem'')"
    "arg ?ns ''--log-level'' = JStr (u ''INFO'')" "arg ?ns ''--proxy-host'' = LOCALHOST" "arg ?ns ''--proxy-port'' = JInt 8888"
    unfolding demo_paths by (simp_all add: arg_def get_default_def defaults_def CLIENT_PARSER_def text_option_def int_option_def)
  have level: "log_setup (\<lambda>_. None) (arg ?ns ''--log-level'') = Inr ()" by (simp add: args log_setup_def)
  have listen: "open_proxy (arg ?ns ''--proxy-host'') (arg ?ns ''--proxy-port'') demo_host
      = (Inr (), demo_host\<lparr>listens := [(LOCALHOST, JInt 8888)]\<rparr>)"
    by (simp add: args open_proxy_def bind_listen_def int_of_def LOCALHOST_def demo_host_def)
  have csk: "load_private_key demo_pem (?p ''client_private.pem'') None (disk demo_host) = (Inr demo_ck, disk demo_host)"
    unfolding demo_paths by (simp add: load_private_key_def read_bytes_def andThen_def of_result_def demo_generated demo_host_def)
      (simp add: demo_pem_def)
  have net: "connected (demo_cw\<lparr>inq := inq demo_client, sent := [], send_faults := [], sock_open := True, sock_timeout := Some 60\<rparr>)
      (client_handshake model_lib demo_ck (public_key model_lib (run_key ?R))) (conn ?S)
      (server_handshake model_lib (run_key ?R) (run_peer ?R))"
    using demo_dialled_connected by (simp add: demo_dialled_def)
  have clocks: "clocks_agree demo_cw (conn ?S)" using demo_clocks by (simp add: demo_server_def)
  show ?thesis
    using started_programs_connect [OF model_lib_rsa model_lib_ok(3,4,2) demo_pem_ok keys demo_server_started sns conf cfg
      parsed args(1,2) csk level listen _ net clocks, of "\<lambda>_ _ _. Inr (inq demo_client, [])" "\<lambda>_. []" "[]"] by auto
qed

end
