(* ===== verification/Tamper_Demo.thy ===== *)
theory Tamper_Demo
  imports Key_Files Tunnel_Refine
begin

text \<open>
  \<open>scripts/tamper_demo.py\<close>: a client that makes a handshake and one valid request, and then sends a
  frame it has corrupted.  The state is the script's socket, what dialling will meet, the key
  files and the lines it has printed; \<open>sk_text\<close> and \<open>sk_show\<close> are \<open>str()\<close> of exceptions raised inside
  libraries and of JSON containers.
\<close>

unbundle bit_operations_syntax

record script =
  sk :: world
  sk_dial :: "pyexn + (net_event list \<times> (pyexn \<times> nat) option list)"
  sk_disk :: files
  printed :: "pystr list"
  sk_text :: "exc_class \<Rightarrow> pystr"
  sk_show :: "json \<Rightarrow> pystr"

definition say :: "pystr \<Rightarrow> (script, unit) io" where
  "say line X = (Inr (), X\<lparr>printed := printed X @ [line]\<rparr>)"

definition on_sk :: "(world, 'a) io \<Rightarrow> (script, 'a) io" where
  "on_sk m X = (let (r, w) = m (sk X) in (r, X\<lparr>sk := w\<rparr>))"

definition on_files :: "(files, 'a) io \<Rightarrow> (script, 'a) io" where
  "on_files m X = (let (r, FS) = m (sk_disk X) in (r, X\<lparr>sk_disk := FS\<rparr>))"

subsection \<open>The corrupted frame\<close>


definition demo_payload :: bytes where
  "demo_payload = ascii_bytes (u ''{\"method\":\"GET\",\"url\":\"http://example.com\",\"headers\":{},\"body\":\"\"}'')"

definition tamper_pos :: nat where
  "tamper_pos = HEADER_SIZE + 1 + SESSION_ID_SIZE + GCM_NONCE_SIZE + 5"

text \<open>Three bytes of the ciphertext are flipped.\<close>

definition tamper :: "bytes \<Rightarrow> bytes" where
  "tamper f = f[tamper_pos := f ! tamper_pos XOR 0xFF,
     tamper_pos + 1 := f ! (tamper_pos + 1) XOR 0xAA, tamper_pos + 2 := f ! (tamper_pos + 2) XOR 0x55]"

text \<open>The valid frame, built by hand.\<close>

definition demo_body :: "bytes \<Rightarrow> bytes \<Rightarrow> bytes \<Rightarrow> bytes" where
  "demo_body session_id nonce enc_payload = [type_byte DATA_REQUEST] @ session_id @ nonce @ enc_payload"

definition build_frame :: "('sk, 'pk) crypto_lib \<Rightarrow> bytes \<Rightarrow> bytes \<Rightarrow> bytes \<Rightarrow> (world, bytes) io" where
  "build_frame L session_id enc_key mac_key =
     andThen (encrypt_payload L demo_payload enc_key) (\<lambda>(enc_payload, nonce).
       let body = demo_body session_id nonce enc_payload
       in ret (frame_bytes body (compute_hmac body mac_key)))"

subsection \<open>The steps of the script\<close>

definition bar :: pystr where "bar = replicate 60 61"

text \<open>\<open>0x{b:02X}\<close>.\<close>

definition show_byte :: "byte \<Rightarrow> pystr" where
  "show_byte b = u ''0x'' @ map (\<lambda>d. let c = hex_digit d in if 97 \<le> c then c - 32 else c) [unat b div 16, unat b mod 16]"

definition script_str :: "script \<Rightarrow> json \<Rightarrow> pystr" where
  "script_str X v = (case v of JList _ \<Rightarrow> sk_show X v | JObj _ \<Rightarrow> sk_show X v | _ \<Rightarrow> str_scalar v)"

definition script_exn :: "script \<Rightarrow> pyexn \<Rightarrow> pystr" where
  "script_exn X e = (case e of Raised _ m \<Rightarrow> m | Lib c \<Rightarrow> sk_text X c)"

text \<open>\<open>sock.settimeout(10)\<close> and \<open>sock.connect\<close>.\<close>

definition demo_dial :: "(script, unit) io" where
  "demo_dial X =
     (case sk_dial X of
        Inl e \<Rightarrow> (Inl e, X)
      | Inr (q, faults) \<Rightarrow>
          (Inr (), X\<lparr>sk := (sk X)\<lparr>inq := q, sent := [], send_faults := faults, sock_timeout := Some 10, sock_open := True\<rparr>\<rparr>))"

definition demo_connect ::
    "('sk, 'pk) crypto_lib \<Rightarrow> ('sk, 'pk) key_lib \<Rightarrow> pystr \<Rightarrow> (script, bytes \<times> bytes \<times> bytes) io" where
  "demo_connect L K keys_dir =
     andThen (say bar) (\<lambda>_.
     andThen (say (u ''  INTEGRITY DEMO '' @ [8212] @ u '' Tamper Detection in Action'')) (\<lambda>_.
     andThen (say bar) (\<lambda>_.
     andThen (on_files (load_private_key K (key_path keys_dir ''client_private.pem'') None)) (\<lambda>client_priv.
     andThen (on_files (load_public_key K (key_path keys_dir ''server_public.pem''))) (\<lambda>server_pub.
     andThen (say ([10] @ u ''[Step 1] Connecting to server and performing handshake...'')) (\<lambda>_.
     andThen demo_dial (\<lambda>_.
     andThen (on_sk (client_handshake L client_priv server_pub)) (\<lambda>(session_id, enc_key, mac_key).
     andThen (say (u ''  [OK] Handshake complete. Session: '' @ take 12 (hex session_id))) (\<lambda>_.
     ret (session_id, enc_key, mac_key))))))))))"

definition demo_request :: bytes where
  "demo_request = dumps_bytes (JObj [(u ''method'', JStr (u ''GET'')), (u ''url'', JStr (u ''http://httpbin.org/ip'')),
     (u ''headers'', JObj []), (u ''body'', JStr [])])"

definition demo_valid ::
    "('sk, 'pk) crypto_lib \<Rightarrow> bytes \<Rightarrow> bytes \<Rightarrow> bytes \<Rightarrow> (script, unit) io" where
  "demo_valid L session_id enc_key mac_key =
     andThen (say ([10] @ u ''[Step 2] Sending a NORMAL (valid) request...'')) (\<lambda>_.
     andThen (on_sk (send_frame L DATA_REQUEST session_id demo_request (Some enc_key) (Some mac_key))) (\<lambda>_.
     andThen (on_sk (recv_frame L (Some enc_key) (Some mac_key))) (\<lambda>(msg_type, _, response).
     if msg_type = DATA_RESPONSE then
       andThen (of_result (loads_bytes response)) (\<lambda>resp.
       andThen (say (u ''  [OK] Server accepted the request!'')) (\<lambda>_.
       andThen (of_result (field resp (u ''status_code''))) (\<lambda>code X.
       andThen (say (u ''  [OK] Response status: '' @ script_str X code)) (\<lambda>_.
       say (u ''  [OK] HMAC verified, AES-GCM decrypted successfully'')) X)))
     else say (u ''  [!!] Unexpected response: '' @ type_name msg_type))))"

definition rejected_line :: pystr where
  "rejected_line = u ''  The HMAC check failed '' @ [8212] @ u '' tampered frame was REJECTED''"

text \<open>Sending the frame and looking at what comes back; every socket error counts as a detection.\<close>

definition demo_attack :: "bytes \<Rightarrow> (script, unit) io" where
  "demo_attack tampered =
     try_except
       (andThen (on_sk (sendall tampered)) (\<lambda>_.
        try_except
          (andThen (on_sk (recv 4096)) (\<lambda>response.
           if response \<noteq> [] then
             say (u ''  Received '' @ str_nat (length response) @ u '' bytes (likely error frame)'')
           else andThen (say (u ''  [DETECTED!] Server closed the connection!'')) (\<lambda>_. say rejected_line)))
          (\<lambda>e. if catches OSErrorC e then
              andThen (say (u ''  [DETECTED!] Server reset the connection!'')) (\<lambda>_. say rejected_line)
            else raise e)))
       (\<lambda>e X. (if catches OSErrorC e then
           andThen (say (u ''  [DETECTED!] Connection broken: '' @ script_exn X e)) (\<lambda>_. say rejected_line)
         else raise e) X)"

definition demo_tamper ::
    "('sk, 'pk) crypto_lib \<Rightarrow> bytes \<Rightarrow> bytes \<Rightarrow> bytes \<Rightarrow> (script, unit) io" where
  "demo_tamper L session_id enc_key mac_key =
     andThen (say ([10] @ u ''[Step 3] Sending a TAMPERED frame (flipping bytes in the payload)...'')) (\<lambda>_.
     andThen (say (u ''  Building a valid frame first, then corrupting it before sending...'')) (\<lambda>_.
     andThen (on_sk (build_frame L session_id enc_key mac_key)) (\<lambda>valid_frame.
     andThen (say (u ''  Flipping byte at position '' @ str_nat tamper_pos @ u '' (inside encrypted payload)'')) (\<lambda>_.
     andThen (say (u ''  Original byte: '' @ show_byte (valid_frame ! tamper_pos) @ u '' -> Tampered: ''
       @ show_byte (tamper valid_frame ! tamper_pos))) (\<lambda>_.
     andThen (say (u ''  Sending tampered frame to server...'')) (\<lambda>_.
     demo_attack (tamper valid_frame)))))))"

definition SUMMARY :: "pystr list" where
  "SUMMARY =
     [[10] @ bar, u ''  RESULT SUMMARY'', bar,
      u ''  Step 2: Valid frame   -> Server ACCEPTED (HMAC OK)'',
      u ''  Step 3: Tampered frame -> Server REJECTED (HMAC FAILED)'', [],
      u ''  CHECK THE SERVER TERMINAL '' @ [8212] @ u '' you should see:'',
      u ''    [vpn.server] WARNING  FRAME_ERROR  ip=127.0.0.1'',
      u ''                 error=HMAC verification failed'', [],
      u ''  This proves that ANY tampering is detected by the'',
      u ''  HMAC-SHA256 integrity check on every frame.'', bar]"

definition tamper_main ::
    "('sk, 'pk) crypto_lib \<Rightarrow> ('sk, 'pk) key_lib \<Rightarrow> pystr \<Rightarrow> (script, unit) io" where
  "tamper_main L K keys_dir =
     andThen (demo_connect L K keys_dir) (\<lambda>(session_id, enc_key, mac_key).
     andThen (demo_valid L session_id enc_key mac_key) (\<lambda>_.
     andThen (demo_tamper L session_id enc_key mac_key) (\<lambda>_.
     andThen (on_sk sock_close) (\<lambda>_ X. (Inr (), X\<lparr>printed := printed X @ SUMMARY\<rparr>)))))"

subsection \<open>What the corruption changes\<close>

definition tampered_body :: "bytes \<Rightarrow> bytes" where
  "tampered_body body = (let i = 1 + SESSION_ID_SIZE + GCM_NONCE_SIZE + 5 in
     body[i := body ! i XOR 0xFF, i + 1 := body ! (i + 1) XOR 0xAA, i + 2 := body ! (i + 2) XOR 0x55])"

lemma update3_append:
  assumes "length p = n" and "i + 2 < length b"
  shows "(p @ b @ s)[n + i := x, n + (i + 1) := y, n + (i + 2) := z] = p @ b[i := x, i + 1 := y, i + 2 := z] @ s"
proof -
  have one: "(p @ c @ s)[n + j := v] = p @ c[j := v] @ s" if "j < length c" for c j v
    using that assms(1) by (simp add: list_update_append)
  have "i < length b" "i + 1 < length b" using assms(2) by simp_all
  then show ?thesis using assms(2) by (simp only: one length_list_update)
qed

text \<open>The corrupted frame has the header and the HMAC of the valid one, and another body.\<close>

lemma tamper_frame:
  assumes "37 \<le> length body"
  shows "tamper (frame_bytes body mac) = frame_bytes (tampered_body body) mac"
    and "length (tampered_body body) = length body" and "tampered_body body \<noteq> body"
    and "take 29 (tampered_body body) = take 29 body"
proof -
  define i where "i = 1 + SESSION_ID_SIZE + GCM_NONCE_SIZE + 5"
  let ?h = "be_bytes HEADER_SIZE (length body + HMAC_DIGEST_SIZE)"
  let ?b = "body[i := body ! i XOR 0xFF, i + 1 := body ! (i + 1) XOR 0xAA, i + 2 := body ! (i + 2) XOR 0x55]"
  have b: "tampered_body body = ?b" by (simp add: tampered_body_def i_def Let_def)
  have len: "length ?h = HEADER_SIZE" by simp
  have i: "i + 2 < length body" using assms by (simp add: wire_simps i_def)
  have nth: "(?h @ body @ mac) ! (HEADER_SIZE + j) = body ! j" if "j < length body" for j
    using that len by (simp add: nth_append)
  have pos: "tamper_pos = HEADER_SIZE + i" by (simp_all add: tamper_pos_def i_def)
  have "i < length body" "i + 1 < length body" using i by simp_all
  note nths = this [THEN nth] nth [OF i]
  have "tamper (?h @ body @ mac) = ?h @ ?b @ mac"
    unfolding tamper_def pos add.assoc nths by (rule update3_append [OF len i])
  then show "tamper (frame_bytes body mac) = frame_bytes (tampered_body body) mac" by (simp add: frame_bytes_def b)
  show "length (tampered_body body) = length body" by (simp add: b)
  have "x XOR 0xFF \<noteq> x" for x :: byte
  proof
    assume "x XOR 0xFF = x"
    moreover have "x XOR (x XOR 0xFF) = 0xFF" by (simp flip: xor.assoc)
    ultimately show False by simp
  qed
  then have "?b ! i \<noteq> body ! i" using i by (simp add: nth_list_update)
  then show "tampered_body body \<noteq> body" unfolding b by metis
  show "take 29 (tampered_body body) = take 29 body" by (simp add: b i_def wire_simps take_update_cancel)
qed

text \<open>
  What the demo shows: if the changed body does not happen to have the old HMAC, the session ends
  there, with the receive that fails; nothing is forwarded or answered.
\<close>

lemma tampered_session_ends:
  assumes "arriving (inq (conn S)) = frame_bytes body mac @ rest" and "length mac = HMAC_DIGEST_SIZE"
    and "min_body \<le> length body + HMAC_DIGEST_SIZE" and "length body + HMAC_DIGEST_SIZE \<le> MAX_FRAME_SIZE"
    and "compute_hmac body (effective_mac_key (Some mk)) \<noteq> mac"
  shows "\<exists>S'. serve_loop L ip sid ek mk S = (Inr (), S') \<and> fwd S' = fwd S \<and> sent (conn S') = sent (conn S)"
proof (cases "is_idle (mono S (mono_pos S)) (lim S) ip")
  case True
  then show ?thesis by (simp add: serve_loop.simps [of L ip sid ek mk S])
next
  case False
  obtain q where "recv_frame L (Some ek) (Some mk) (conn S)
      = (parse_frame L (Some ek) (Some mk) (body @ mac), (conn S)\<lparr>inq := q\<rparr>)"
    by (rule recv_frame_complete [OF assms(1-4)])
  moreover have "parse_frame L (Some ek) (Some mk) (body @ mac) = Inl hmac_error"
    by (rule parse_frame_tampered) (use assms in auto)
  ultimately show ?thesis using False
    by (simp add: serve_loop.simps [of L ip sid ek mk S] quiet_exit_def hmac_error_def is_subclass.simps)
qed

subsection \<open>The demo and the server together\<close>

lemma demo_request_fits: "payload_fits demo_request"
proof -
  note ks = length_dumps_key [of "''method''"] length_dumps_key [of "''GET''"] length_dumps_key [of "''url''"]
    length_dumps_key [of "''http://httpbin.org/ip''"] length_dumps_key [of "''headers''"] length_dumps_key [of "''body''"]
    length_dumps_key [of "[]"]
  then have "length demo_request \<le> 1000" by (simp add: demo_request_def dumps_bytes_def)
  then show ?thesis by (rule small_fits)
qed

text \<open>What step 2 prints for a page, and step 3 for a connection that the server closes.\<close>

definition valid_lines :: "script \<Rightarrow> json \<Rightarrow> pystr list" where
  "valid_lines X code =
     [[10] @ u ''[Step 2] Sending a NORMAL (valid) request...'', u ''  [OK] Server accepted the request!'',
      u ''  [OK] Response status: '' @ script_str X code, u ''  [OK] HMAC verified, AES-GCM decrypted successfully'']"

definition detected_lines :: "pystr list" where
  "detected_lines = [u ''  [DETECTED!] Server closed the connection!'', rejected_line]"

lemma demo_valid_run:
  assumes "aead_ok L" and "fault_free (sk X)" and "length sid = SESSION_ID_SIZE" and "length ek = AES_KEY_SIZE"
    and "carries L (Some ek) (Some mk) (DATA_RESPONSE, rsid, page) g" and "arriving (inq (sk X)) = g @ rest"
    and "loads_bytes page = Inr resp" and "field resp (u ''status_code'') = Inr code"
  obtains q where "demo_valid L sid ek mk X = (Inr (), X\<lparr>sk := (sk X)\<lparr>rnd_pos := rnd_pos (sk X) + GCM_NONCE_SIZE,
        sent := sent (sk X) @ sealed_frame L ek mk (sk X) (DATA_REQUEST, sid, demo_request), inq := q\<rparr>,
      printed := printed X @ valid_lines X code\<rparr>)"
    and "arriving q = rest" and "afterwards q = afterwards (inq (sk X))"
proof -
  let ?w = "(sk X)\<lparr>rnd_pos := rnd_pos (sk X) + GCM_NONCE_SIZE,
      sent := sent (sk X) @ sealed_frame L ek mk (sk X) (DATA_REQUEST, sid, demo_request)\<rparr>"
  have s: "send_frame L DATA_REQUEST sid demo_request (Some ek) (Some mk) (sk X) = (Inr (), ?w)"
    by (rule sealed_frame_sent(1)) (use assms demo_request_fits in \<open>simp_all add: fault_free_def\<close>)
  have "arriving (inq ?w) = g @ rest" using assms(6) by simp
  from carries_received [OF assms(5) this] obtain q where
    r: "recv_frame L (Some ek) (Some mk) ?w = (Inr (DATA_RESPONSE, rsid, page), ?w\<lparr>inq := q\<rparr>)"
    and q: "arriving q = rest" "afterwards q = afterwards (inq ?w)" by metis
  have "demo_valid L sid ek mk X = (Inr (), X\<lparr>sk := ?w\<lparr>inq := q\<rparr>, printed := printed X @ valid_lines X code\<rparr>)"
    using s r assms(7,8)
    by (simp add: demo_valid_def say_def on_sk_def andThen_def of_result_def valid_lines_def script_str_def
        split: json.split)
  then show ?thesis by (rule that) (use q in simp_all)
qed

text \<open>The valid frame depends on the socket only through the random bytes drawn.\<close>

lemma build_frame_run:
  assumes "aead_ok L" and "length ek = AES_KEY_SIZE" and "length sid = SESSION_ID_SIZE"
  obtains body where "\<And>w. rnd w = R \<Longrightarrow> rnd_pos w = n \<Longrightarrow> build_frame L sid ek mk w
      = (Inr (frame_bytes body (compute_hmac body mk)), w\<lparr>rnd_pos := rnd_pos w + GCM_NONCE_SIZE\<rparr>)"
    and "length body = length demo_payload + 45"
proof -
  let ?n = "map R [n ..< n + GCM_NONCE_SIZE]"
  let ?body = "demo_body sid ?n (aesgcm_encrypt L ek ?n demo_payload)"
  have "build_frame L sid ek mk w
      = (Inr (frame_bytes ?body (compute_hmac ?body mk)), w\<lparr>rnd_pos := rnd_pos w + GCM_NONCE_SIZE\<rparr>)"
    if "rnd w = R" "rnd_pos w = n" for w
    using assms(2) that by (simp add: build_frame_def encrypt_payload_def urandom_def andThen_def ret_def Let_def)
  moreover have "length ?body = length demo_payload + 45"
    using aead_okD(2) [OF assms(1,2), of ?n demo_payload] assms(3) by (simp add: demo_body_def wire_simps)
  ultimately show ?thesis by (rule that)
qed

lemma demo_tamper_closed:
  assumes "build_frame L sid ek mk (sk X) = (Inr h, w)" and "send_faults w = []"
    and "arriving (inq w) = []" and "stream_end (inq w) = None"
  shows "\<exists>X' ls. demo_tamper L sid ek mk X = (Inr (), X') \<and> sent (sk X') = sent w @ tamper h \<and>
    printed X' = printed X @ ls @ detected_lines"
proof -
  have r: "\<exists>q. recv_event 4096 (inq w) = (Inr [], q)"
    using recv_event_end [OF assms(3), of 4096] assms(4) by (cases "recv_event 4096 (inq w)") auto
  then show ?thesis using assms(1,2)
    by (auto simp: demo_tamper_def demo_attack_def say_def on_sk_def andThen_def try_except_def sendall_def recv_def
        detected_lines_def)
qed

text \<open>The two halves of the demo: the script that sees the reply, and the server it corrupts a frame for.\<close>

lemma demo_detects_half:
  assumes "aead_ok L" and "fault_free (sk X)" and "length sid = SESSION_ID_SIZE" and "length ek = AES_KEY_SIZE"
    and "carries L (Some ek) (Some mk) (DATA_RESPONSE, rsid, page) g" and "loads_bytes page = Inr resp"
    and "field resp (u ''status_code'') = Inr code" and "arriving (inq (sk X)) = g" and "stream_end (inq (sk X)) = None"
    and "\<And>w. rnd w = rnd (sk X) \<Longrightarrow> rnd_pos w = rnd_pos (sk X) + GCM_NONCE_SIZE \<Longrightarrow>
      build_frame L sid ek mk w = (Inr h, w\<lparr>rnd_pos := rnd_pos w + GCM_NONCE_SIZE\<rparr>)"
  shows "\<exists>X' ls. andThen (demo_valid L sid ek mk) (\<lambda>_. demo_tamper L sid ek mk) X = (Inr (), X') \<and>
    sent (sk X') = sent (sk X) @ sealed_frame L ek mk (sk X) (DATA_REQUEST, sid, demo_request) @ tamper h \<and>
    printed X' = printed X @ valid_lines X code @ ls @ detected_lines"
proof -
  obtain q where v: "demo_valid L sid ek mk X = (Inr (), X\<lparr>sk := (sk X)\<lparr>rnd_pos := rnd_pos (sk X) + GCM_NONCE_SIZE,
      sent := sent (sk X) @ sealed_frame L ek mk (sk X) (DATA_REQUEST, sid, demo_request), inq := q\<rparr>,
      printed := printed X @ valid_lines X code\<rparr>)" (is "_ = (_, ?X1)")
    and q: "arriving q = []" "afterwards q = afterwards (inq (sk X))"
    by (rule demo_valid_run [OF assms(1-5) _ assms(6,7), where rest = "[]"]) (use assms(8) in simp_all)
  have "stream_end q = None" using assms(9) q(2) by (simp add: stream_end_def)
  then have "\<exists>X' ls. demo_tamper L sid ek mk ?X1 = (Inr (), X') \<and> sent (sk X') = sent (sk ?X1) @ tamper h \<and>
      printed X' = printed ?X1 @ ls @ detected_lines"
    using demo_tamper_closed [OF assms(10) [of "sk ?X1"]] q(1) assms(2) by (simp add: fault_free_def)
  then show ?thesis using v by (auto simp: andThen_def)
qed

lemma server_ends_half:
  assumes "aead_ok L" and "fault_free (conn S)" and "send_faults wx = []"
    and "length sid = SESSION_ID_SIZE" and "length ek = AES_KEY_SIZE" and "mk \<noteq> []"
    and "direct_calls ip [demo_request] S = (Inr [(DATA_RESPONSE, page)], S2)" and "payload_fits page"
    and "min_body \<le> length b + HMAC_DIGEST_SIZE" and "length b + HMAC_DIGEST_SIZE \<le> MAX_FRAME_SIZE"
    and "length mac = HMAC_DIGEST_SIZE" and "compute_hmac b mk \<noteq> mac"
    and "arriving q = sealed_frame L ek mk wx (DATA_REQUEST, sid, demo_request) @ frame_bytes b mac @ rest"
  shows "\<exists>S'. serve_loop L ip sid ek mk (S\<lparr>conn := (conn S)\<lparr>inq := q\<rparr>\<rparr>) = (Inr (), S') \<and> fwd S' = fwd S2 \<and>
    sent (conn S') = sent (conn S) @ sealed_frame L ek mk (conn S) (DATA_RESPONSE, sid, page)"
proof -
  have "\<exists>c. serve_loop L ip sid ek mk (S\<lparr>conn := (conn S)\<lparr>inq := q\<rparr>\<rparr>) = serve_loop L ip sid ek mk (S2\<lparr>conn := c\<rparr>) \<and>
      sent c = sent (conn S) @ sealed_frame L ek mk (conn S) (DATA_RESPONSE, sid, page) \<and>
      arriving (inq c) = frame_bytes b mac @ rest"
    by (rule server_answers_calls [OF assms(1,4,5,3,2,7), simplified])
      (use assms(8,13) demo_request_fits in simp_all)
  then obtain c where c: "serve_loop L ip sid ek mk (S\<lparr>conn := (conn S)\<lparr>inq := q\<rparr>\<rparr>) = serve_loop L ip sid ek mk (S2\<lparr>conn := c\<rparr>)"
    "sent c = sent (conn S) @ sealed_frame L ek mk (conn S) (DATA_RESPONSE, sid, page)"
    "arriving (inq (conn (S2\<lparr>conn := c\<rparr>))) = frame_bytes b mac @ rest" by auto
  have k: "compute_hmac b (effective_mac_key (Some mk)) \<noteq> mac" using assms(6,12) by (simp add: effective_mac_key_def)
  obtain S' where "serve_loop L ip sid ek mk (S2\<lparr>conn := c\<rparr>) = (Inr (), S')" "fwd S' = fwd (S2\<lparr>conn := c\<rparr>)"
    "sent (conn S') = sent (conn (S2\<lparr>conn := c\<rparr>))"
    using tampered_session_ends [OF c(3) assms(11,9,10), of mk L ip sid ek] k by auto
  then show ?thesis using c by simp
qed

text \<open>
  C33. The integrity demo shows what it says.  For a script with a session and a server that would
  answer its request by a direct call, there are the bytes \<open>f\<close> of the request's frame and \<open>g\<close> of the
  reply, and a valid frame \<open>h\<close> with another body under the same HMAC once it is corrupted.  A script
  that receives \<open>g\<close> and then the end of the stream sends \<open>f\<close> and the corrupted frame, and prints the
  status of the reply and the detection; a server that receives this sends \<open>g\<close>, and unless the
  changed body happens to have the old HMAC it ends the session there: no reply, nothing forwarded.
\<close>

theorem tamper_demo_detects:
  assumes "aead_ok L" and "fault_free (sk X)" and "fault_free (conn S)"
    and "length sid = SESSION_ID_SIZE" and "length ek = AES_KEY_SIZE" and "mk \<noteq> []"
    and "direct_calls ip [demo_request] S = (Inr [(DATA_RESPONSE, page)], S2)" and "payload_fits page"
    and "loads_bytes page = Inr resp" and "field resp (u ''status_code'') = Inr code"
  shows "\<exists>f g h body. h = frame_bytes body (compute_hmac body mk) \<and> tampered_body body \<noteq> body \<and>
    tamper h = frame_bytes (tampered_body body) (compute_hmac body mk) \<and>
    (\<forall>q. arriving q = g \<longrightarrow> stream_end q = None \<longrightarrow>
      (\<exists>X' ls. andThen (demo_valid L sid ek mk) (\<lambda>_. demo_tamper L sid ek mk) (X\<lparr>sk := (sk X)\<lparr>inq := q\<rparr>\<rparr>) = (Inr (), X') \<and>
        sent (sk X') = sent (sk X) @ f @ tamper h \<and>
        printed X' = printed X @ valid_lines X code @ ls @ detected_lines)) \<and>
    (compute_hmac (tampered_body body) mk = compute_hmac body mk \<or>
     (\<forall>q rest. arriving q = f @ tamper h @ rest \<longrightarrow>
       (\<exists>S'. serve_loop L ip sid ek mk (S\<lparr>conn := (conn S)\<lparr>inq := q\<rparr>\<rparr>) = (Inr (), S') \<and>
         fwd S' = fwd S2 \<and> sent (conn S') = sent (conn S) @ g)))"
proof -
  let ?f = "sealed_frame L ek mk (sk X) (DATA_REQUEST, sid, demo_request)"
  let ?g = "sealed_frame L ek mk (conn S) (DATA_RESPONSE, sid, page)"
  have ff: "send_faults (sk X) = []" "send_faults (conn S) = []" using assms(2,3) by (simp_all add: fault_free_def)
  obtain body where b: "\<And>w. rnd w = rnd (sk X) \<Longrightarrow> rnd_pos w = rnd_pos (sk X) + GCM_NONCE_SIZE \<Longrightarrow>
      build_frame L sid ek mk w = (Inr (frame_bytes body (compute_hmac body mk)), w\<lparr>rnd_pos := rnd_pos w + GCM_NONCE_SIZE\<rparr>)"
    and len: "length body = length demo_payload + 45"
    by (rule build_frame_run [OF assms(1,5,4), where R = "rnd (sk X)" and n = "rnd_pos (sk X) + GCM_NONCE_SIZE" and mk = mk]) blast
  let ?mac = "compute_hmac body mk" and ?b = "tampered_body body"
  have "length demo_payload = 66" by (simp add: demo_payload_def)
  with len have "37 \<le> length body" and sizes: "min_body \<le> length ?b + HMAC_DIGEST_SIZE" "length ?b + HMAC_DIGEST_SIZE \<le> MAX_FRAME_SIZE"
    by (simp_all add: tampered_body_def wire_simps Let_def)
  note t = tamper_frame(1) [OF this(1), of ?mac] tamper_frame(3) [OF this(1)]
  have g_ok: "carries L (Some ek) (Some mk) (DATA_RESPONSE, sid, page) ?g"
    by (rule sealed_frame_sent(2)) (use assms ff in simp_all)
  have client: "\<exists>X' ls. andThen (demo_valid L sid ek mk) (\<lambda>_. demo_tamper L sid ek mk) (X\<lparr>sk := (sk X)\<lparr>inq := q\<rparr>\<rparr>) = (Inr (), X') \<and>
        sent (sk X') = sent (sk X) @ ?f @ tamper (frame_bytes body ?mac) \<and> printed X' = printed X @ valid_lines X code @ ls @ detected_lines"
    if q: "arriving q = ?g" "stream_end q = None" for q
  proof -
    let ?X = "X\<lparr>sk := (sk X)\<lparr>inq := q\<rparr>\<rparr>"
    have fX: "fault_free (sk ?X)" using assms(2) by (simp add: fault_free_def)
    have bX: "build_frame L sid ek mk w = (Inr (frame_bytes body ?mac), w\<lparr>rnd_pos := rnd_pos w + GCM_NONCE_SIZE\<rparr>)"
      if "rnd w = rnd (sk ?X)" "rnd_pos w = rnd_pos (sk ?X) + GCM_NONCE_SIZE" for w by (rule b) (use that in simp_all)
    have "sealed_frame L ek mk (sk ?X) (DATA_REQUEST, sid, demo_request) = ?f" by (rule sealed_frame_cong) simp_all
    moreover have "valid_lines ?X code = valid_lines X code" by (simp add: valid_lines_def script_str_def split: json.split)
    ultimately show ?thesis
      using demo_detects_half [OF assms(1) fX assms(4,5) g_ok assms(9,10) _ _ bX] q by simp
  qed
  have "\<exists>S'. serve_loop L ip sid ek mk (S\<lparr>conn := (conn S)\<lparr>inq := q\<rparr>\<rparr>) = (Inr (), S') \<and>
         fwd S' = fwd S2 \<and> sent (conn S') = sent (conn S) @ ?g"
    if "compute_hmac ?b mk \<noteq> ?mac" and "arriving q = ?f @ tamper (frame_bytes body ?mac) @ rest" for q rest
    by (rule server_ends_half [OF assms(1,3) ff(1) assms(4-8) sizes _ that(1)])
      (use that(2) t(1) in \<open>simp_all add: compute_hmac_def wire_simps\<close>)
  then show ?thesis using client t by blast
qed

text \<open>The summary at the end claims the rejection whatever has happened.\<close>

definition appends :: "(script, 'a) io \<Rightarrow> bool" where
  "appends m \<longleftrightarrow> (\<forall>X r X'. m X = (r, X') \<longrightarrow> (\<exists>ls. printed X' = printed X @ ls))"

lemma appends_andThen: "appends m \<Longrightarrow> (\<And>x. appends (f x)) \<Longrightarrow> appends (andThen m f)"
  unfolding appends_def andThen_def by (clarsimp split: prod.splits sum.splits) (metis append.assoc)+

lemma appends_try: "appends m \<Longrightarrow> (\<And>e. appends (h e)) \<Longrightarrow> appends (try_except m h)"
  unfolding appends_def try_except_def by (clarsimp split: prod.splits sum.splits) (metis append.assoc)+

lemma appends_basic [simp]:
  "appends (say l)" "appends (on_sk m)" "appends (on_files m')" "appends (ret x)" "appends (raise e)"
  "appends (of_result r)" "appends demo_dial"
  by (auto simp: appends_def say_def on_sk_def on_files_def ret_def raise_def of_result_def demo_dial_def Let_def
      split: prod.splits sum.splits)

lemma appends_say:
  assumes "\<And>x. appends (f x)"
  shows "appends (\<lambda>X. andThen (say (g X)) f X)" and "appends (\<lambda>X. (if c then andThen (say (g X)) f else raise e) X)"
proof -
  have "\<exists>ls. printed X' = printed X @ ls" if "andThen (say l) f X = (r, X')" for l X r X'
    using appends_andThen [OF appends_basic(1) [of l], of f] assms that unfolding appends_def by blast
  then show "appends (\<lambda>X. andThen (say (g X)) f X)" "appends (\<lambda>X. (if c then andThen (say (g X)) f else raise e) X)"
    by (auto simp: appends_def raise_def)
qed

lemma appends_steps: "appends (demo_connect L K d)" "appends (demo_valid L sid ek mk)" "appends (demo_tamper L sid ek mk)"
  by (auto simp: demo_connect_def demo_valid_def demo_tamper_def demo_attack_def
      intro!: appends_andThen appends_try appends_say)

lemma summary_unconditional:
  assumes "tamper_main L K d X = (Inr (), X')"
  shows "\<exists>ls. printed X' = printed X @ ls @ SUMMARY"
proof -
  obtain k X1 X2 X3 where "demo_connect L K d X = (Inr k, X1)"
    and "demo_valid L (fst k) (fst (snd k)) (snd (snd k)) X1 = (Inr (), X2)"
    and "demo_tamper L (fst k) (fst (snd k)) (snd (snd k)) X2 = (Inr (), X3)"
    and X': "printed X' = printed X3 @ SUMMARY"
    using assms by (auto simp: tamper_main_def andThen_eq_Inr_iff on_sk_def sock_close_def)
  then obtain l1 l2 l3 where "printed X1 = printed X @ l1" "printed X2 = printed X1 @ l2" "printed X3 = printed X2 @ l3"
    using appends_steps unfolding appends_def by metis
  then show ?thesis using X' by simp
qed

text \<open>A session under fixed keys, and a forwarder that answers the demo's request.\<close>

definition demo_script :: script where
  "demo_script = \<lparr>sk = demo_cw, sk_dial = Inl (Lib ConnectionErrorC), sk_disk = \<lparr>contents = Map.empty, denied = (\<lambda>_. False), drawn = 0\<rparr>,
     printed = [], sk_text = (\<lambda>_. []), sk_show = (\<lambda>_. [])\<rparr>"

lemma demo_request_direct:
  "\<exists>S2. direct_calls (u ''10.0.0.9'') [demo_request] demo_admitted = (Inr [(DATA_RESPONSE, demo_page)], S2)"
proof -
  have up: "upper (u ''GET'') = u ''GET''" by (simp add: upper_def u_Cons)
  have "demo_request = encode_request (u ''GET'') (u ''http://httpbin.org/ip'') [] []"
    by (simp add: demo_request_def encode_request_def)
  then have "forward_request demo_request = dispatch (u ''GET'') (JStr (u ''http://httpbin.org/ip'')) (JObj []) []"
    using forward_encode [of "u ''GET''" "u ''http://httpbin.org/ip''" "[]" "[]"] up by (simp add: headers_ok_def)
  then have "\<exists>F'. forward_request demo_request demo_fw = (Inr demo_page, F')"
    by (simp add: dispatch_def fw_handle_http_def forward_headers_def andThen_def of_result_def
        try_except_def http_request_def read_content_def demo_fw_def ret_def Let_def demo_page_def)
  then show ?thesis
    by (auto simp: direct_call_def lim_is_idle_def lim_touch_def lim_check_rate_def monotonic_def andThen_def
        ret_def forward_or_500_def try_except_def on_fwd_def demo_admitted_def demo_srv_def new_limiter_def
        try_add_connection_def conns_for_def is_idle_def touch_def check_rate_def new_bucket_def consume_def Let_def)
qed

theorem tamper_demo_detects_witness:
  "\<exists>g X' ls. andThen (demo_valid model_lib (replicate 16 1) (replicate 32 2) (replicate 32 3))
      (\<lambda>_. demo_tamper model_lib (replicate 16 1) (replicate 32 2) (replicate 32 3))
      (demo_script\<lparr>sk := (sk demo_script)\<lparr>inq := [Seg g]\<rparr>\<rparr>) = (Inr (), X') \<and>
    printed X' = valid_lines demo_script (JInt 200) @ ls @ detected_lines"
proof -
  obtain S2 where d: "direct_calls (u ''10.0.0.9'') [demo_request] demo_admitted = (Inr [(DATA_RESPONSE, demo_page)], S2)"
    using demo_request_direct by blast
  have ff: "fault_free (sk demo_script)" "fault_free (conn demo_admitted)"
    by (simp_all add: demo_script_def demo_admitted_def demo_srv_def fault_free_def world0_def)
  have len: "length (replicate 16 1 :: bytes) = SESSION_ID_SIZE" "length (replicate 32 2 :: bytes) = AES_KEY_SIZE"
    "replicate 32 3 \<noteq> ([] :: bytes)" by (simp_all add: wire_simps)
  have page: "loads_bytes demo_page = Inr (JObj [(u ''status_code'', JInt 200), (u ''headers'', JObj [(u ''Server'', JStr (u ''x''))]),
      (u ''body'', JStr (hex [1, 2, 3]))])"
    unfolding demo_page_def build_response_def by (rule loads_dumps_bytes) simp
  have code: "field (JObj [(u ''status_code'', JInt 200), (u ''headers'', JObj [(u ''Server'', JStr (u ''x''))]),
      (u ''body'', JStr (hex [1, 2, 3]))]) (u ''status_code'') = Inr (JInt 200)" by (simp add: field_def dict_get_def)
  from tamper_demo_detects [OF model_lib_ok(1) ff len d demo_sizes(2) page code]
  obtain f g h where client: "\<forall>q. arriving q = g \<longrightarrow> stream_end q = None \<longrightarrow>
      (\<exists>X' ls. andThen (demo_valid model_lib (replicate 16 1) (replicate 32 2) (replicate 32 3))
          (\<lambda>_. demo_tamper model_lib (replicate 16 1) (replicate 32 2) (replicate 32 3))
          (demo_script\<lparr>sk := (sk demo_script)\<lparr>inq := q\<rparr>\<rparr>) = (Inr (), X') \<and>
        sent (sk X') = sent (sk demo_script) @ f @ tamper h \<and>
        printed X' = printed demo_script @ valid_lines demo_script (JInt 200) @ ls @ detected_lines)" by blast
  have "arriving [Seg g] = g" "stream_end [Seg g] = None" by (simp_all add: stream_end_def)
  with client [rule_format, of "[Seg g]"] show ?thesis by (auto simp: demo_script_def)
qed

end
