(* ===== verification/Demos.thy ===== *)
theory Demos
  imports Tamper_Demo Command_Line "HOL-Library.Multiset"
begin

text \<open>
  \<open>scripts/load_test.py\<close>: the load test's counters, its division of work among threads and its
  report.  The threads record their results one at a time, under the lock of the statistics, in
  any order that keeps each thread's own: such an order is \<open>interleaved\<close>.
\<close>

subsection \<open>The load test\<close>

record stats =
  total_count :: nat
  success_count :: nat
  error_count :: nat
  limited_count :: nat
  latencies :: "rat list"

definition new_stats :: stats where
  "new_stats = \<lparr>total_count = 0, success_count = 0, error_count = 0, limited_count = 0, latencies = []\<rparr>"

definition record_result :: "bool \<Rightarrow> rat \<Rightarrow> bool \<Rightarrow> stats \<Rightarrow> stats" where
  "record_result ok latency limited s =
     (let s1 = s\<lparr>total_count := total_count s + 1\<rparr>;
          s2 = (if limited then s1\<lparr>limited_count := limited_count s1 + 1\<rparr>
                else if ok then s1\<lparr>success_count := success_count s1 + 1\<rparr>
                else s1\<lparr>error_count := error_count s1 + 1\<rparr>)
      in s2\<lparr>latencies := latencies s2 @ [latency]\<rparr>)"

text \<open>
  One request of a worker: a response, an HTTP error with its page, or another exception with its
  text; times are the two readings of the clock.
\<close>

datatype outcome = Response int bytes | Http_error int bytes | Failure pystr

definition contains :: "pystr \<Rightarrow> pystr \<Rightarrow> bool" where
  "contains sub s \<longleftrightarrow> find_sub sub s \<noteq> None"

definition limit_in :: "bytes \<Rightarrow> bool" where
  "limit_in body \<longleftrightarrow> contains (u ''Rate limit'') (map unat body)"

definition worker_step :: "outcome \<Rightarrow> rat \<Rightarrow> stats \<Rightarrow> stats" where
  "worker_step out latency s =
     (case out of
        Response code body \<Rightarrow>
          if code = 429 \<or> limit_in body then record_result False latency True s else record_result True latency False s
      | Http_error code page \<Rightarrow>
          if code = 429 \<or> limit_in page then record_result False latency True s
          else record_result False latency False s
      | Failure text \<Rightarrow>
          if contains (u ''Rate limit'') text \<or> contains (u ''502'') text \<or> contains (u ''429'') text
          then record_result False latency True s else record_result False latency False s)"

fun worker :: "(outcome \<times> rat) list \<Rightarrow> stats \<Rightarrow> stats" where
  "worker [] s = s"
| "worker ((out, latency) # rest) s = worker rest (worker_step out latency s)"

text \<open>\<open>args.requests // args.threads\<close>, the requests of one worker.\<close>

definition per_thread :: "int \<Rightarrow> int \<Rightarrow> pyexn + int" where
  "per_thread requests threads = (if threads = 0 then Inl (Lib ArithmeticErrorC) else Inr (requests div threads))"

definition books_balance :: "stats \<Rightarrow> bool" where
  "books_balance s \<longleftrightarrow> total_count s = success_count s + error_count s + limited_count s \<and>
     length (latencies s) = total_count s"

lemma worker_step_balance:
  "books_balance s \<Longrightarrow> books_balance (worker_step out t s) \<and> total_count (worker_step out t s) = Suc (total_count s)"
  by (auto simp: books_balance_def worker_step_def record_result_def Let_def split: outcome.split)

lemma worker_balance:
  "books_balance s \<Longrightarrow> books_balance (worker w s) \<and> total_count (worker w s) = total_count s + length w"
proof (induction w s rule: worker.induct)
  case (2 out t rest s)
  then show ?case using worker_step_balance [OF "2.prems", of out t] by simp
qed simp

text \<open>
  Every request is counted once and in one class, whatever the order in which the workers' requests
  come in; the division loses fewer requests than there are threads.
\<close>

lemma load_test_counts:
  assumes "per_thread requests threads = Inr n" and "0 < threads" and "0 \<le> requests"
    and "int (length w) = threads * n"
  shows "books_balance (worker w new_stats) \<and>
    int (total_count (worker w new_stats)) \<le> requests \<and> requests - int (total_count (worker w new_stats)) < threads"
proof -
  have n: "n = requests div threads" using assms(1,2) by (simp add: per_thread_def)
  have "books_balance new_stats" by (simp add: books_balance_def new_stats_def)
  from worker_balance [OF this, of w] have b: "books_balance (worker w new_stats)"
    "int (total_count (worker w new_stats)) = threads * (requests div threads)"
    using assms(4) n by (simp_all add: new_stats_def)
  have "threads * (requests div threads) = requests - requests mod threads"
    by (simp add: minus_mod_eq_mult_div)
  then show ?thesis using b assms(2) by simp
qed

text \<open>
  What the threads record between them, one result list per thread: some thread records its next
  result, until none has any left.
\<close>

inductive interleaved :: "'a list list \<Rightarrow> 'a list \<Rightarrow> bool" where
  all_done: "list_all (\<lambda>xs. xs = []) wss \<Longrightarrow> interleaved wss []"
| one_records: "\<lbrakk>i < length wss; wss ! i = x # xs; interleaved (wss[i := xs]) w\<rbrakk> \<Longrightarrow> interleaved wss (x # w)"

lemma mset_concat_nil: "list_all (\<lambda>xs. xs = []) wss \<Longrightarrow> mset (concat wss) = {#}"
  by (induction wss) auto

lemma mset_concat_update:
  "i < length wss \<Longrightarrow> wss ! i = x # xs \<Longrightarrow> mset (concat wss) = add_mset x (mset (concat (wss[i := xs])))"
  by (induction wss arbitrary: i) (auto split: nat.splits)

lemma interleaved_mset: "interleaved wss w \<Longrightarrow> mset w = mset (concat wss)"
proof (induction rule: interleaved.induct)
  case (one_records i wss x xs w)
  then show ?case using mset_concat_update [of i wss x xs] by simp
qed (simp add: mset_concat_nil)

text \<open>One thread after the other is such an order.\<close>

lemma concat_first:
  "concat wss \<noteq> [] \<Longrightarrow> \<exists>i x xs. i < length wss \<and> wss ! i = x # xs \<and> concat wss = x # concat (wss[i := xs])"
proof (induction wss)
  case (Cons ws wss)
  show ?case
  proof (cases ws)
    case Nil
    with Cons obtain i x xs where "i < length wss" "wss ! i = x # xs" "concat wss = x # concat (wss[i := xs])" by auto
    with Nil show ?thesis by (intro exI [of _ "Suc i"] exI [of _ x] exI [of _ xs]) simp
  qed (intro exI [of _ 0], auto)
qed simp

lemma interleaved_concat: "interleaved wss (concat wss)"
proof (induction "concat wss" arbitrary: wss)
  case Nil
  then have "list_all (\<lambda>xs. xs = []) wss" by (simp add: list_all_iff)
  with Nil show ?case by (metis all_done)
next
  case (Cons y ys)
  have "concat wss \<noteq> []" using Cons.hyps(2) by (metis list.discI)
  from concat_first [OF this] obtain i x xs
    where i: "i < length wss" "wss ! i = x # xs" "concat wss = x # concat (wss[i := xs])" by blast
  then have "interleaved (wss[i := xs]) (concat (wss[i := xs]))" using Cons.hyps by auto
  then show ?case unfolding i(3) by (rule one_records [OF i(1,2)])
qed

text \<open>The counters do not depend on the order.\<close>

definition tally :: "(outcome \<times> rat) list \<Rightarrow> nat \<times> nat \<times> nat \<times> nat" where
  "tally w = (let s = worker w new_stats in (total_count s, success_count s, error_count s, limited_count s))"

text \<open>\<open>f'{x:.0f}'\<close> and \<open>f'{x:.1f}'\<close> of a number that is not negative: the nearest, ties to even.\<close>

definition half_even :: "rat \<Rightarrow> int" where
  "half_even x =
     (let f = \<lfloor>x\<rfloor>; d = x - of_int f in
      if d < 1 / 2 then f else if 1 / 2 < d then f + 1 else if even f then f else f + 1)"

definition fixed0 :: "rat \<Rightarrow> pystr" where
  "fixed0 x = str_int (half_even x)"

definition fixed1 :: "rat \<Rightarrow> pystr" where
  "fixed1 x = (let t = half_even (10 * x) in str_int (t div 10) @ u ''.'' @ str_int (t mod 10))"

text \<open>The report; the mean is only computed when there are latencies.\<close>

definition rates :: "stats \<Rightarrow> rat \<Rightarrow> pyexn + pystr list" where
  "rates s elapsed =
     (if latencies s = [] then Inr []
      else if elapsed = 0 then Inl (Lib ArithmeticErrorC)
      else Inr [u ''  Avg latency:      '' @ fixed0 (sum_list (latencies s) / of_nat (length (latencies s)) * 1000) @ u '' ms'',
        u ''  Requests/sec:     '' @ fixed1 (of_nat (total_count s) / elapsed)])"

definition load_report :: "stats \<Rightarrow> rat \<Rightarrow> pyexn + pystr list" where
  "load_report s elapsed =
     bind_res (rates s elapsed) (\<lambda>rs. Inr (
       [[10] @ bar, u ''Results ('' @ fixed1 elapsed @ u ''s elapsed):'',
        u ''  Total requests:   '' @ str_nat (total_count s), u ''  Successful:       '' @ str_nat (success_count s),
        u ''  Rate-limited:     '' @ str_nat (limited_count s), u ''  Errors:           '' @ str_nat (error_count s)]
       @ rs @ [bar,
        if 0 < limited_count s then [10] @ u ''Rate limiting IS working - server throttled requests.''
        else [10] @ u ''No rate limiting observed - try increasing --requests or --threads.'']))"

text \<open>
  \<open>main\<close>, given the results of request \<open>j\<close> of thread \<open>i\<close> and the order in which they are recorded:
  the statistics, and the lines of the banner and of the report.
\<close>

definition banner :: "int \<Rightarrow> int \<Rightarrow> pystr \<Rightarrow> int \<Rightarrow> pystr list" where
  "banner requests threads url port =
     [u ''Load test: '' @ str_int requests @ u '' requests across '' @ str_int threads @ u '' threads'',
      u ''Target: '' @ url @ u '' via proxy 127.0.0.1:'' @ str_int port, bar]"

definition work_of :: "int \<Rightarrow> int \<Rightarrow> (nat \<Rightarrow> nat \<Rightarrow> outcome \<times> rat) \<Rightarrow> (outcome \<times> rat) list list" where
  "work_of share threads results = map (\<lambda>i. map (results i) [0 ..< nat share]) [0 ..< nat threads]"

definition load_main ::
    "int \<Rightarrow> int \<Rightarrow> pystr \<Rightarrow> int \<Rightarrow> ((outcome \<times> rat) list list \<Rightarrow> (outcome \<times> rat) list)
      \<Rightarrow> (nat \<Rightarrow> nat \<Rightarrow> outcome \<times> rat) \<Rightarrow> rat \<Rightarrow> pyexn + stats \<times> pystr list" where
  "load_main requests threads url port order results elapsed =
     bind_res (per_thread requests threads) (\<lambda>share.
     let s = worker (order (work_of share threads results)) new_stats
     in bind_res (load_report s elapsed) (\<lambda>lines. Inr (s, banner requests threads url port @ lines)))"

text \<open>
  Whatever the order in which the threads record, the counters of the report are those of the
  threads run one after the other, and they add up to the requests that were sent.
\<close>

definition throttled :: "outcome \<Rightarrow> bool" where
  "throttled out = (case out of
     Response code body \<Rightarrow> code = 429 \<or> limit_in body
   | Http_error code page \<Rightarrow> code = 429 \<or> limit_in page
   | Failure text \<Rightarrow> contains (u ''Rate limit'') text \<or> contains (u ''502'') text \<or> contains (u ''429'') text)"

definition answered :: "outcome \<Rightarrow> bool" where
  "answered out = (\<not> throttled out \<and> (case out of Response code body \<Rightarrow> True | _ \<Rightarrow> False))"

lemma worker_step_record: "worker_step out t s = record_result (answered out) t (throttled out) s"
  by (cases out) (simp_all add: worker_step_def answered_def throttled_def)

lemma worker_counts:
  "total_count (worker w s) = total_count s + size (mset w)"
  "success_count (worker w s) = success_count s + size {#r \<in># mset w. answered (fst r)#}"
  "error_count (worker w s) = error_count s + size {#r \<in># mset w. \<not> answered (fst r) \<and> \<not> throttled (fst r)#}"
  "limited_count (worker w s) = limited_count s + size {#r \<in># mset w. throttled (fst r)#}"
proof (induction w s rule: worker.induct)
  case (2 out t rest s)
  have "answered out \<Longrightarrow> \<not> throttled out" by (simp add: answered_def)
  with 2 show "total_count (worker ((out, t) # rest) s) = total_count s + size (mset ((out, t) # rest))"
    "success_count (worker ((out, t) # rest) s) = success_count s + size {#r \<in># mset ((out, t) # rest). answered (fst r)#}"
    "error_count (worker ((out, t) # rest) s)
      = error_count s + size {#r \<in># mset ((out, t) # rest). \<not> answered (fst r) \<and> \<not> throttled (fst r)#}"
    "limited_count (worker ((out, t) # rest) s) = limited_count s + size {#r \<in># mset ((out, t) # rest). throttled (fst r)#}"
    by (auto simp: worker_step_record record_result_def Let_def)
qed simp_all

lemma tally_mset: "mset w = mset w' \<Longrightarrow> tally w = tally w'"
  by (simp add: tally_def worker_counts Let_def)

lemma load_main_totals:
  assumes "load_main requests threads url port order results elapsed = Inr (s, lines)"
    and "\<And>wss. interleaved wss (order wss)" and "0 < threads" and "0 \<le> requests"
  shows "books_balance s" and "int (total_count s) = threads * (requests div threads)"
    and "(total_count s, success_count s, error_count s, limited_count s)
      = tally (concat (work_of (requests div threads) threads results))"
proof -
  obtain share where p: "per_thread requests threads = Inr share"
    using assms(1) by (cases "per_thread requests threads") (simp_all add: load_main_def)
  have n: "share = requests div threads" using p assms(3) by (simp add: per_thread_def)
  let ?wss = "work_of share threads results"
  have s: "s = worker (order ?wss) new_stats"
    using assms(1) p by (auto simp: load_main_def Let_def bind_res_eq_Inr_iff)
  have m: "mset (order ?wss) = mset (concat ?wss)" by (rule interleaved_mset [OF assms(2)])
  have "0 \<le> requests div threads" using assms(3,4) by (simp add: pos_imp_zdiv_nonneg_iff)
  then have l: "int (length (order ?wss)) = threads * (requests div threads)"
    using mset_eq_length [OF m] assms(3) n
    by (simp add: work_of_def length_concat comp_def sum_list_triv)
  show "int (total_count s) = threads * (requests div threads)" using l s by (simp add: worker_counts new_stats_def)
  show "(total_count s, success_count s, error_count s, limited_count s) = tally (concat (work_of (requests div threads) threads results))"
    using tally_mset [OF m] s n by (simp add: tally_def Let_def)
  have "books_balance new_stats" by (simp add: books_balance_def new_stats_def)
  then show "books_balance s" using worker_balance [of new_stats "order ?wss"] s by simp
qed

text \<open>
  The program, from its command line.  \<open>None\<close> is outside the model: a URL or a port that is the empty
  list.
\<close>

definition load_program ::
    "pystr list \<Rightarrow> ((outcome \<times> rat) list list \<Rightarrow> (outcome \<times> rat) list) \<Rightarrow> (nat \<Rightarrow> nat \<Rightarrow> outcome \<times> rat) \<Rightarrow> rat
      \<Rightarrow> (stats \<times> pystr list) ending option" where
  "load_program argv order results elapsed =
     (case parse_args LOAD_PARSER argv of
        Inl code \<Rightarrow> Some (Exited code)
      | Inr ns \<Rightarrow>
          (case (arg ns ''--requests'', arg ns ''--threads'', arg ns ''--url'', arg ns ''--proxy-port'') of
             (JInt requests, JInt threads, JStr url, JInt port) \<Rightarrow>
               Some (Ended (load_main requests threads url port order results elapsed))
           | (JInt _, JInt _, _, _) \<Rightarrow> None
           | _ \<Rightarrow> Some (Ended (Inl (Lib TypeErrorC)))))"

lemma load_program_defaults:
  "load_program [] order results elapsed
    = Some (Ended (load_main 100 10 (u ''http://httpbin.org/get'') 8888 order results elapsed))"
  by (simp add: load_program_def parse_args_def arg_def get_default_def defaults_def LOAD_PARSER_def text_option_def int_option_def)

text \<open>No threads: the division fails before a request is made.\<close>

lemma load_program_no_threads:
  assumes "py_int x = Some 0" and "x \<noteq> u ''--''"
  shows "load_program [u ''--threads='' @ x] order results elapsed = Some (Ended (Inl (Lib ArithmeticErrorC)))"
proof -
  let ?t = "int_option ''--threads'' (JInt 10)"
  have v: "value_of ?t x = Some (JInt 0)" using assms by (simp add: value_of_def int_option_def)
  have f: "opt_flag ?t @ u ''='' = u ''--threads=''" unfolding int_option_def cli_option.simps u_append [symmetric] by simp
  have "list_all (setting_ok LOAD_PARSER) [Joined ?t x]" using v by (simp add: LOAD_PARSER_def)
  from parse_rendered [OF parsers_ok(3) this]
  have "parse_args LOAD_PARSER [(opt_flag ?t @ u ''='') @ x] = Inr (dict_set (opt_flag ?t) (JInt 0) (defaults LOAD_PARSER))"
    using v by simp
  then have p: "parse_args LOAD_PARSER [u ''--threads='' @ x] = Inr (dict_set (opt_flag ?t) (JInt 0) (defaults LOAD_PARSER))"
    unfolding f .
  show ?thesis unfolding load_program_def p
    by (simp add: arg_def get_default_def dict_get_set)
      (simp add: defaults_def LOAD_PARSER_def text_option_def int_option_def load_main_def per_thread_def)
qed

end
