(* ===== verification/Demo_Run.thy ===== *)
theory Demo_Run
  imports Start_Up Tamper_Demo Demos
begin

text \<open>
  \<open>scripts/demo_run.py\<close>, which generates keys, starts server and proxy as processes, makes requests
  through them and stops them again, and \<open>client/testing_connection.py\<close>, a one-message TCP client.
  The state \<open>lab\<close> is the file system, the lines printed and the operations on processes in
  order; whether a process has ended when it is polled and whether it outlives the wait after
  \<open>terminate\<close> is up to the environment, as are the results of the requests.
\<close>

subsection \<open>The demo's processes\<close>

datatype vpn_process = Vpn_server | Vpn_client

datatype lab_act = Spawned vpn_process "pystr list" | Terminated vpn_process | Waited vpn_process

record lab =
  lab_disk :: files
  lab_out :: "pystr list"
  acts :: "lab_act list"
  early_exit :: "vpn_process \<Rightarrow> bytes option"
  wait_hangs :: "vpn_process \<Rightarrow> bool"
  pid_of :: "vpn_process \<Rightarrow> int"
  fetched :: "pystr \<Rightarrow> pystr + int \<times> nat"

definition tell :: "pystr list \<Rightarrow> lab \<Rightarrow> lab" where
  "tell lines B = B\<lparr>lab_out := lab_out B @ lines\<rparr>"

definition act :: "lab_act \<Rightarrow> lab \<Rightarrow> lab" where
  "act a B = B\<lparr>acts := acts B @ [a]\<rparr>"

definition SERVER_PORT :: int where "SERVER_PORT = 4433"
definition PROXY_PORT :: int where "PROXY_PORT = 8888"

definition TEST_URLS :: "pystr list" where
  "TEST_URLS = [u ''http://httpbin.org/get'', u ''http://example.com'', u ''http://httpbin.org/ip'']"

definition under :: "pystr \<Rightarrow> string \<Rightarrow> pystr" where
  "under home name = home @ u ''/'' @ u name"

text \<open>\<open>ensure_keys\<close>: the key generation script runs unless the server's private key is there.\<close>

definition ensure_keys ::
    "('sk, 'pk) crypto_lib \<Rightarrow> ('sk, 'pk) key_lib \<Rightarrow> pystr \<Rightarrow> (lab, unit) io" where
  "ensure_keys L K home B =
     (let keys_dir = under home ''keys'' in
      if contents (lab_disk B) (key_path keys_dir ''server_private.pem'') = None then
        (let B1 = tell [[10] @ u ''[1/5] Generating keys...''] B; (r, FS) = generate_keys L K keys_dir (lab_disk B1) in
         (r, B1\<lparr>lab_disk := FS\<rparr>))
      else (Inr (), tell [[10] @ u ''[1/5] Keys already exist [OK]''] B))"

text \<open>The arguments after \<open>sys.executable\<close>.\<close>

definition server_argv :: "pystr \<Rightarrow> pystr list" where
  "server_argv home =
     [u ''-m'', u ''server.server_main'', u ''--listen-ip'', u ''127.0.0.1'', u ''--listen-port'', str_int SERVER_PORT,
      u ''--server-key'', key_path (under home ''keys'') ''server_private.pem'',
      u ''--client-pubkey'', key_path (under home ''keys'') ''client_public.pem'',
      u ''--whitelist'', under home ''config/whitelist.txt'', u ''--log-level'', u ''INFO'']"

definition client_argv :: "pystr \<Rightarrow> pystr list" where
  "client_argv home =
     [u ''-m'', u ''client.client_proxy'', u ''--server-host'', u ''127.0.0.1'', u ''--server-port'', str_int SERVER_PORT,
      u ''--proxy-port'', str_int PROXY_PORT,
      u ''--client-key'', key_path (under home ''keys'') ''client_private.pem'',
      u ''--server-pubkey'', key_path (under home ''keys'') ''server_public.pem'', u ''--log-level'', u ''INFO'']"

text \<open>
  \<open>start_server\<close> and \<open>start_client\<close>: the result is \<open>False\<close> when the process has ended by the time it is
  polled, on which the script prints its output and calls \<open>sys.exit(1)\<close>.
\<close>

definition start_process :: "vpn_process \<Rightarrow> pystr \<Rightarrow> lab \<Rightarrow> bool \<times> lab" where
  "start_process p home B =
     (let (heading, argv, failed, started) =
            (case p of
               Vpn_server \<Rightarrow> ([10] @ u ''[2/5] Starting VPN server on port '' @ str_int SERVER_PORT @ u '' ...'', server_argv home,
                  u ''  [ERROR] Server failed to start:'', u ''  [OK] Server started (PID '')
             | Vpn_client \<Rightarrow> ([10] @ u ''[3/5] Starting VPN client proxy on port '' @ str_int PROXY_PORT @ u '' ...'', client_argv home,
                  u ''  [ERROR] Client failed to start:'', u ''  [OK] Client proxy started (PID ''));
          B1 = act (Spawned p argv) (tell [heading] B)
      in case early_exit B p of
           Some output \<Rightarrow> (False, tell [failed @ [10] @ utf8_decode_replace output] B1)
         | None \<Rightarrow> (True, tell [started @ str_int (pid_of B p) @ u '' )''] B1))"

subsection \<open>Requests and report\<close>

text \<open>One request through the proxy, and the entry of the result list.\<close>

definition request_line :: "pystr \<Rightarrow> pystr + int \<times> nat \<Rightarrow> pystr" where
  "request_line url r =
     (case r of
        Inr (code, len) \<Rightarrow> u ''  [OK] '' @ url @ u ''  -> '' @ str_int code @ u ''  ('' @ str_nat len @ u '' bytes)''
      | Inl err \<Rightarrow> u ''  [FAIL] '' @ url @ u ''  -> ERROR: '' @ err)"

definition test_requests :: "lab \<Rightarrow> bool list \<times> lab" where
  "test_requests B =
     (map (\<lambda>url. case fetched B url of Inr _ \<Rightarrow> True | Inl _ \<Rightarrow> False) TEST_URLS,
      tell (([10] @ u ''[4/5] Making test requests through VPN tunnel...'') # map (\<lambda>url. request_line url (fetched B url)) TEST_URLS) B)"

definition print_report :: "bool list \<Rightarrow> lab \<Rightarrow> lab" where
  "print_report results =
     (let passed = length (filter id results) in
      tell [[10] @ u ''[5/5] Summary'', bar,
        u ''  '' @ str_nat passed @ u ''/'' @ str_nat (length results) @ u '' requests succeeded through VPN tunnel'',
        if passed = length results then u ''  [OK] All tests passed - tunnel is working!''
        else u ''  [WARN] Some tests failed - check server/client logs'', bar])"

subsection \<open>The whole demo\<close>

datatype lab_end = Completed | Exited | Crashed

text \<open>The \<open>finally\<close> block: a wait that times out raises and skips what follows.\<close>

definition clean_up :: "bool \<Rightarrow> lab_end \<Rightarrow> lab \<Rightarrow> lab_end \<times> lab" where
  "clean_up client_started fin B =
     (let B1 = tell [[10] @ u ''Cleaning up...''] B;
          B2 = (if client_started then act (Waited Vpn_client) (act (Terminated Vpn_client) B1) else B1)
      in if client_started \<and> wait_hangs B Vpn_client then (Crashed, B2)
         else
           let B3 = act (Waited Vpn_server) (act (Terminated Vpn_server) B2)
           in if wait_hangs B Vpn_server then (Crashed, B3) else (fin, tell [u ''Done.''] B3))"

definition demo_main ::
    "('sk, 'pk) crypto_lib \<Rightarrow> ('sk, 'pk) key_lib \<Rightarrow> pystr \<Rightarrow> lab \<Rightarrow> lab_end \<times> lab" where
  "demo_main L K home B =
     (case ensure_keys L K home (tell [bar, u ''  Custom VPN - End-to-End Demo'', bar] B) of
        (Inl e, B1) \<Rightarrow> (Crashed, B1)
      | (Inr _, B1) \<Rightarrow>
          (case start_process Vpn_server home B1 of
             (False, B2) \<Rightarrow> (Exited, B2)
           | (True, B2) \<Rightarrow>
               (case start_process Vpn_client home B2 of
                  (False, B3) \<Rightarrow> clean_up False Exited B3
                | (True, B3) \<Rightarrow>
                    let (results, B4) = test_requests B3 in clean_up True Completed (print_report results B4))))"

text \<open>What the operations leave alone.\<close>

lemma lab_fields [simp]:
  "acts (tell ls B) = acts B" "early_exit (tell ls B) = early_exit B" "wait_hangs (tell ls B) = wait_hangs B"
  "acts (act a B) = acts B @ [a]" "early_exit (act a B) = early_exit B" "wait_hangs (act a B) = wait_hangs B"
  "lab_disk (tell ls B) = lab_disk B" "lab_disk (act a B) = lab_disk B"
  by (simp_all add: tell_def act_def)

lemma ensure_keys_acts:
  "ensure_keys L K home B = (r, B') \<Longrightarrow> acts B' = acts B \<and> early_exit B' = early_exit B \<and> wait_hangs B' = wait_hangs B"
  by (auto simp: ensure_keys_def Let_def split: if_splits prod.splits)

lemma start_process_acts:
  "start_process p home B = (ok, B') \<Longrightarrow> ok \<longleftrightarrow> early_exit B p = None"
  "start_process p home B = (ok, B') \<Longrightarrow> acts B' = acts B @ [Spawned p (if p = Vpn_server then server_argv home else client_argv home)]"
  "start_process p home B = (ok, B') \<Longrightarrow> early_exit B' = early_exit B \<and> wait_hangs B' = wait_hangs B"
  by (auto simp: start_process_def Let_def split: option.splits vpn_process.splits)

text \<open>
  The operations on processes, in order, are determined by what the environment does: which process
  has ended when it is polled and which one outlives its wait.
\<close>

fun expected_acts :: "pystr \<Rightarrow> bool \<Rightarrow> bool \<Rightarrow> bool \<Rightarrow> lab_act list" where
  "expected_acts home server_dead client_dead client_hangs =
     Spawned Vpn_server (server_argv home) #
     (if server_dead then []
      else Spawned Vpn_client (client_argv home) #
        (if client_dead then [Terminated Vpn_server, Waited Vpn_server]
         else Terminated Vpn_client # Waited Vpn_client #
           (if client_hangs then [] else [Terminated Vpn_server, Waited Vpn_server])))"

lemma demo_main_acts:
  assumes "demo_main L K home B = (fin, B')" and "acts B = []"
  shows "acts B' = [] \<and> fin = Crashed \<or>
    acts B' = expected_acts home (early_exit B Vpn_server \<noteq> None) (early_exit B Vpn_client \<noteq> None) (wait_hangs B Vpn_client)"
proof -
  obtain r B1 where k: "ensure_keys L K home (tell [bar, u ''  Custom VPN - End-to-End Demo'', bar] B) = (r, B1)" by force
  obtain ok1 B2 where s: "start_process Vpn_server home B1 = (ok1, B2)" by force
  obtain ok2 B3 where c: "start_process Vpn_client home B2 = (ok2, B3)" by force
  note facts = ensure_keys_acts [OF k] start_process_acts [OF s] start_process_acts [OF c]
  show ?thesis
    using assms facts
    by (cases r) (auto simp: demo_main_def k s c clean_up_def print_report_def test_requests_def Let_def split: bool.splits if_splits)
qed

text \<open>
  The demo stops the server it has started exactly when it gets that far: a server that was alive
  when it was polled is told to terminate if the client failed to start or ended in time; when the
  client outlives the five seconds after its \<open>terminate\<close>, \<open>wait\<close> raises inside the \<open>finally\<close> block and
  the server is left running.
\<close>

lemma demo_stops_server:
  assumes "demo_main L K home B = (fin, B')" and "acts B = []"
    and "Spawned Vpn_server argv \<in> set (acts B')" and "early_exit B Vpn_server = None"
  shows "Terminated Vpn_server \<in> set (acts B') \<longleftrightarrow> early_exit B Vpn_client \<noteq> None \<or> \<not> wait_hangs B Vpn_client"
  using demo_main_acts [OF assms(1,2)] assms(3,4) by auto

text \<open>A machine without keys on which nothing goes wrong until the client is slow to end.\<close>

definition demo_lab :: lab where
  "demo_lab = \<lparr>lab_disk = \<lparr>contents = Map.empty, denied = (\<lambda>_. False), drawn = 0\<rparr>, lab_out = [], acts = [],
     early_exit = (\<lambda>_. None), wait_hangs = (\<lambda>p. p = Vpn_client), pid_of = (\<lambda>_. 7), fetched = (\<lambda>_. Inr (200, 3))\<rparr>"

lemma generate_keys_runs:
  "denied FS = (\<lambda>_. False) \<Longrightarrow> \<exists>FS'. generate_keys L K d FS = (Inr (), FS')"
  by (simp add: generate_keys_def generate_rsa_keypair_def save_private_key_def save_public_key_def
      write_bytes_def andThen_def Let_def)

lemma demo_stops_server_instance:
  "\<exists>fin B'. demo_main model_lib demo_pem [] demo_lab = (fin, B') \<and>
    Spawned Vpn_server (server_argv []) \<in> set (acts B') \<and> Terminated Vpn_server \<notin> set (acts B')"
proof -
  obtain fin B' where run: "demo_main model_lib demo_pem [] demo_lab = (fin, B')" by force
  have "denied (lab_disk demo_lab) = (\<lambda>_. False)" by (simp add: demo_lab_def)
  then obtain FS' where "generate_keys model_lib demo_pem (under [] ''keys'') (lab_disk demo_lab) = (Inr (), FS')"
    by (blast dest: generate_keys_runs [where L = model_lib and K = demo_pem and d = "under [] ''keys''"])
  then have k: "\<exists>B1. ensure_keys model_lib demo_pem [] (tell [bar, u ''  Custom VPN - End-to-End Demo'', bar] demo_lab) = (Inr (), B1)"
    by (simp add: ensure_keys_def Let_def)
  obtain B1 where B1: "ensure_keys model_lib demo_pem [] (tell [bar, u ''  Custom VPN - End-to-End Demo'', bar] demo_lab) = (Inr (), B1)"
    using k by blast
  obtain ok B2 where s: "start_process Vpn_server [] B1 = (ok, B2)" by force
  obtain ok2 B3 where c: "start_process Vpn_client [] B2 = (ok2, B3)" by force
  have a: "acts demo_lab = []" and e: "early_exit demo_lab Vpn_server = None" by (simp_all add: demo_lab_def)
  have "acts B2 = [Spawned Vpn_server (server_argv [])]"
    using start_process_acts(2) [OF s] ensure_keys_acts [OF B1] a by simp
  then have started: "Spawned Vpn_server (server_argv []) \<in> set (acts B')"
    using run start_process_acts(2) [OF c]
    by (auto simp: demo_main_def B1 s c clean_up_def print_report_def test_requests_def Let_def split: bool.splits if_splits)
  from demo_stops_server [OF run a this e] have "Terminated Vpn_server \<notin> set (acts B')" by (simp add: demo_lab_def)
  with run started show ?thesis by blast
qed

subsection \<open>The keys of the processes\<close>

text \<open>
  The arguments that the demo gives to its two processes are understood by their parsers: the script's
  directory is an absolute path, so that no path looks like an option.
\<close>

lemma plain_word: "x = [] \<or> hd x \<noteq> 45 \<Longrightarrow> classify P x = Some Plain"
  by (simp add: classify_def)

lemma text_value: "hd x \<noteq> 45 \<Longrightarrow> x \<noteq> u ''--'' \<and> value_of (text_option flag v) x = Some (JStr x)"
  by (auto simp: value_of_def text_option_def u_Cons)

lemma demo_ports:
  "value_of (int_option flag v) (str_int SERVER_PORT) = Some (JInt SERVER_PORT)"
  "value_of (int_option flag v) (str_int PROXY_PORT) = Some (JInt PROXY_PORT)"
  "hd (str_int SERVER_PORT) \<noteq> 45" "hd (str_int PROXY_PORT) \<noteq> 45"
  "str_int SERVER_PORT \<noteq> u ''--''" "str_int PROXY_PORT \<noteq> u ''--''"
  by (simp_all add: value_of_def int_option_def SERVER_PORT_def PROXY_PORT_def str_int_def str_nat.simps u_Cons py_int_def
      strip_def py_space_def is_digit_def Let_def digits_val_def)

lemma demo_server_words:
  assumes "hd home = 47" and "home \<noteq> []"
  shows "\<exists>ns. parse_args SERVER_PARSER (drop 2 (server_argv home)) = Inr ns \<and>
    arg ns ''--server-key'' = JStr (key_path (under home ''keys'') ''server_private.pem'') \<and>
    arg ns ''--client-pubkey'' = JStr (key_path (under home ''keys'') ''client_public.pem'')"
proof -
  let ?t = "\<lambda>flag. text_option flag JNull"
  let ?k = "key_path (under home ''keys'') ''server_private.pem''" and ?p = "key_path (under home ''keys'') ''client_public.pem''"
  let ?ss = "[Apart (?t ''--listen-ip'') (u ''127.0.0.1''), Apart (int_option ''--listen-port'' JNull) (str_int SERVER_PORT),
    Apart (?t ''--server-key'') ?k, Apart (?t ''--client-pubkey'') ?p,
    Apart (?t ''--whitelist'') (under home ''config/whitelist.txt''), Apart (?t ''--log-level'') (u ''INFO'')]"
  have paths: "hd ?k \<noteq> 45" "hd ?p \<noteq> 45" "hd (under home ''config/whitelist.txt'') \<noteq> 45"
    using assms by (simp_all add: key_path_def under_def)
  have words: "hd (u ''127.0.0.1'') \<noteq> 45" "hd (u ''INFO'') \<noteq> 45" by (simp_all add: u_Cons)
  note v = demo_ports text_value [OF paths(1)] text_value [OF paths(2)] text_value [OF paths(3)] text_value [OF words(1)] text_value [OF words(2)]
  have ok: "list_all (setting_ok SERVER_PARSER) ?ss" using v paths words by (simp add: plain_word SERVER_PARSER_def)
  have f: "opt_flag (text_option flag w) = u flag" "opt_flag (int_option flag w) = u flag" for flag w
    by (simp_all add: text_option_def int_option_def)
  have "concat (map render ?ss) = drop 2 (server_argv home)"
    by (simp only: list.map concat.simps render.simps f append.simps) (simp add: server_argv_def)
  with parse_rendered [OF parsers_ok(2) ok]
  have p: "parse_args SERVER_PARSER (drop 2 (server_argv home)) = Inr (foldl apply_setting (defaults SERVER_PARSER) ?ss)"
    by (simp only:)
  moreover have "arg (foldl apply_setting (defaults SERVER_PARSER) ?ss) ''--server-key'' = JStr ?k"
    "arg (foldl apply_setting (defaults SERVER_PARSER) ?ss) ''--client-pubkey'' = JStr ?p"
    unfolding arg_def get_default_def apply_settings_get using v by (simp_all add: f)
  ultimately show ?thesis by blast
qed

lemma demo_client_words:
  assumes "hd home = 47" and "home \<noteq> []"
  shows "\<exists>ns. parse_args CLIENT_PARSER (drop 2 (client_argv home)) = Inr ns \<and>
    arg ns ''--client-key'' = JStr (key_path (under home ''keys'') ''client_private.pem'') \<and>
    arg ns ''--server-pubkey'' = JStr (key_path (under home ''keys'') ''server_public.pem'') \<and>
    arg ns ''--server-host'' = LOCALHOST \<and> arg ns ''--server-port'' = JInt SERVER_PORT \<and>
    arg ns ''--proxy-host'' = LOCALHOST \<and> arg ns ''--proxy-port'' = JInt PROXY_PORT \<and> arg ns ''--log-level'' = JStr (u ''INFO'')"
proof -
  let ?k = "key_path (under home ''keys'') ''client_private.pem''" and ?p = "key_path (under home ''keys'') ''server_public.pem''"
  let ?key = "text_option ''--client-key'' (JStr (u ''keys/client_private.pem''))"
    and ?pub = "text_option ''--server-pubkey'' (JStr (u ''keys/server_public.pem''))"
    and ?level = "(text_option ''--log-level'' (JStr (u ''INFO'')))\<lparr>opt_choices := Some [u ''DEBUG'', u ''INFO'', u ''WARNING'', u ''ERROR'']\<rparr>"
  let ?ss = "[Apart (text_option ''--server-host'' LOCALHOST) (u ''127.0.0.1''),
    Apart (int_option ''--server-port'' (JInt 4433)) (str_int SERVER_PORT),
    Apart (int_option ''--proxy-port'' (JInt 8888)) (str_int PROXY_PORT), Apart ?key ?k, Apart ?pub ?p, Apart ?level (u ''INFO'')]"
  have paths: "hd ?k \<noteq> 45" "hd ?p \<noteq> 45" using assms by (simp_all add: key_path_def under_def)
  have words: "hd (u ''127.0.0.1'') \<noteq> 45" "hd (u ''INFO'') \<noteq> 45" by (simp_all add: u_Cons)
  have level: "value_of ?level (u ''INFO'') = Some (JStr (u ''INFO''))" "u ''INFO'' \<noteq> u ''--''"
    by (simp_all add: value_of_def text_option_def)
  note v = demo_ports text_value [OF paths(1)] text_value [OF paths(2)] text_value [OF words(1)] level
  have ok: "list_all (setting_ok CLIENT_PARSER) ?ss" using v paths words by (simp add: plain_word CLIENT_PARSER_def)
  have f: "opt_flag (text_option flag w) = u flag" "opt_flag (int_option flag w) = u flag" "opt_flag ?level = u ''--log-level''" for flag w
    by (simp_all add: text_option_def int_option_def)
  have "concat (map render ?ss) = drop 2 (client_argv home)"
    by (simp only: list.map concat.simps render.simps f append.simps) (simp add: client_argv_def)
  with parse_rendered [OF parsers_ok(1) ok]
  have p: "parse_args CLIENT_PARSER (drop 2 (client_argv home)) = Inr (foldl apply_setting (defaults CLIENT_PARSER) ?ss)"
    by (simp only:)
  let ?ns = "foldl apply_setting (defaults CLIENT_PARSER) ?ss"
  have "arg ?ns ''--client-key'' = JStr ?k" "arg ?ns ''--server-pubkey'' = JStr ?p" "arg ?ns ''--server-host'' = LOCALHOST"
    "arg ?ns ''--server-port'' = JInt SERVER_PORT" "arg ?ns ''--proxy-host'' = LOCALHOST"
    "arg ?ns ''--proxy-port'' = JInt PROXY_PORT" "arg ?ns ''--log-level'' = JStr (u ''INFO'')"
    unfolding arg_def get_default_def apply_settings_get using v
    by (simp_all add: f LOCALHOST_def) (simp_all add: defaults_def CLIENT_PARSER_def text_option_def int_option_def LOCALHOST_def)
  with p show ?thesis by blast
qed

text \<open>
  So the demo on a machine without keys brings the tunnel up: once the key generation script has
  returned, the server started with the demo's arguments, whatever the configuration file says,
  and the client started with its own end in one session, and the proxy listens on the demo's port.
\<close>

lemma demo_tunnel_up:
  fixes S :: server
  assumes lib: "rsa_ok L" "pss_ok L" "oaep_ok L" "hkdf_ok L" and pem: "pem_ok K" and home: "hd home = 47" "home \<noteq> []"
    and fresh: "contents (lab_disk B) (key_path (under home ''keys'') ''server_private.pem'') = None"
    and keys: "ensure_keys L K home B = (Inr (), B')" and disk: "lab_disk B' = disk H"
    and server: "server_program K other (drop 2 (server_argv home)) H = (Ended (Inr R), H')"
    and client: "load_private_key K (key_path (under home ''keys'') ''client_private.pem'') None (disk H) = (Inr csk, disk H)"
      "open_proxy LOCALHOST (JInt PROXY_PORT) H = (Inr (), Hc)"
    and dial: "outcome LOCALHOST (JInt SERVER_PORT) 0 = Inr (q, [])"
    and net: "connected (w\<lparr>inq := q, sent := [], send_faults := [], sock_open := True, sock_timeout := Some 60\<rparr>)
        (client_handshake L csk (public_key L (run_key R))) (conn S) (server_handshake L (run_key R) (run_peer R))"
    and clocks: "clocks_agree w (conn S)"
  shows "\<exists>T sid ek mk. session_up T sid ek mk \<and>
    client_program L K other (drop 2 (client_argv home)) w outcome texts H = (Ended (Inr (csk, public_key L (run_key R), T)), Hc)"
proof -
  have gen: "generate_keys L K (under home ''keys'') (lab_disk B) = (Inr (), disk H)"
    using fresh keys disk by (auto simp: ensure_keys_def Let_def split: prod.splits)
  obtain ns cfg where ns: "parse_args SERVER_PARSER (drop 2 (server_argv home)) = Inr ns" "config_at (config_path ns) (disk H) = Inr cfg"
    by (rule server_program_Ended [OF server])
  obtain cns where cns: "parse_args CLIENT_PARSER (drop 2 (client_argv home)) = Inr cns"
    "arg cns ''--client-key'' = JStr (key_path (under home ''keys'') ''client_private.pem'')"
    "arg cns ''--server-pubkey'' = JStr (key_path (under home ''keys'') ''server_public.pem'')"
    "arg cns ''--server-host'' = LOCALHOST" "arg cns ''--server-port'' = JInt SERVER_PORT"
    "arg cns ''--proxy-host'' = LOCALHOST" "arg cns ''--proxy-port'' = JInt PROXY_PORT" "arg cns ''--log-level'' = JStr (u ''INFO'')"
    using demo_client_words [OF home] by blast
  have "arg ns ''--server-key'' = JStr (key_path (under home ''keys'') ''server_private.pem'')"
    "arg ns ''--client-pubkey'' = JStr (key_path (under home ''keys'') ''client_public.pem'')"
    using demo_server_words [OF home] ns(1) by auto
  then have k: "dict_get (apply_args (server_args ns) cfg) (u ''server_private_key'') = Some (JStr (key_path (under home ''keys'') ''server_private.pem''))"
    "dict_get (apply_args (server_args ns) cfg) (u ''client_public_key'') = Some (JStr (key_path (under home ''keys'') ''client_public.pem''))"
    using home by (simp_all add: apply_args_def override_str_def override_int_def server_args_def text_arg_def key_path_def under_def
        dict_get_set split: option.split)
  have level: "log_setup other (arg cns ''--log-level'') = Inr ()" by (simp add: cns log_setup_def LEVELS_def)
  show ?thesis
    using programs_launched [where outcome = outcome and w = w and S = S and q = q, OF lib pem gen server ns k cns(1-3) client(1) level
      client(2) [folded cns(6,7)] dial [folded cns(4,5)] net clocks] by blast
qed

end
