(* ===== verification/Legacy.thy ===== *)
theory Legacy
  imports Client_Proxy
begin

text \<open>
  The first version of the program, \<open>client/client.py\<close> and \<open>server/server.py\<close>: a browser's target is
  sent to the server as one Fernet token under a key in the source, and the page comes back as
  another.  Fernet is the record \<open>fernet\<close> (\<open>None\<close> is \<open>InvalidToken\<close>); its random part is drawn from
  the socket's \<open>salt_pos\<close>.
\<close>

record fernet =
  f_encrypt :: "bytes \<Rightarrow> nat \<Rightarrow> bytes \<Rightarrow> bytes"
  f_decrypt :: "bytes \<Rightarrow> bytes \<Rightarrow> bytes option"

definition fernet_ok :: "fernet \<Rightarrow> bool" where
  "fernet_ok F \<longleftrightarrow> (\<forall>k salt m. f_decrypt F k (f_encrypt F k salt m) = Some m \<and> f_encrypt F k salt m \<noteq> [])"

text \<open>The two constants \<open>SHARED_SECRET_KEY\<close>, of the client and of the server.\<close>

definition CLIENT_SECRET_KEY :: bytes where
  "CLIENT_SECRET_KEY = ascii_bytes (u ''O0gwAWlOpoEmQIlFn51lC357JZ78jI02lj73jQMQVMU='')"

definition SERVER_SECRET_KEY :: bytes where
  "SERVER_SECRET_KEY = ascii_bytes (u ''O0gwAWlOpoEmQIlFn51lC357JZ78jI02lj73jQMQVMU='')"

definition CLIENT_BUFFER :: nat where "CLIENT_BUFFER = 8192"
definition SERVER_BUFFER :: nat where "SERVER_BUFFER = 4096"

text \<open>\<open>cipher_suite.encrypt\<close> and \<open>cipher_suite.decrypt\<close>, where \<open>cipher_suite\<close> is \<open>Fernet(key)\<close>.\<close>

definition cipher_encrypt :: "fernet \<Rightarrow> bytes \<Rightarrow> bytes \<Rightarrow> (world, bytes) io" where
  "cipher_encrypt F key m = andThen next_salt (\<lambda>salt. ret (f_encrypt F key salt m))"

definition cipher_decrypt :: "fernet \<Rightarrow> bytes \<Rightarrow> bytes \<Rightarrow> pyexn + bytes" where
  "cipher_decrypt F key token = of_option (Lib ValueErrorC) (f_decrypt F key token)"

text \<open>A blocking \<open>recv\<close> on a socket without a timeout.\<close>

definition wait_recv :: "nat \<Rightarrow> (world, bytes) io" where
  "wait_recv n w = (let (r, q) = blocking_recv n (inq w) in (r, w\<lparr>inq := q\<rparr>))"

subsection \<open>The client\<close>

text \<open>
  Reading the answer: until the server closes or is silent for the timeout; \<open>None\<close> after any other
  socket error.
\<close>

function collect :: "bytes \<Rightarrow> net_event list \<Rightarrow> bytes option" where
  "collect acc q =
     (case recv_event CLIENT_BUFFER q of
        (Inl e, _) \<Rightarrow> if catches TimeoutErrorC e then Some acc else None
      | (Inr chunk, q') \<Rightarrow> if chunk = [] then Some acc else collect (acc @ chunk) q')"
  by pat_completeness auto
termination
  by (relation "measure (\<lambda>(acc, q). stream_size q)")
    (auto dest!: recv_event_size [OF sym] simp flip: length_greater_0_conv)

declare collect.simps [simp del]

type_synonym reach = "pyexn + (net_event list \<times> (pyexn \<times> nat) option list)"

text \<open>The state is the socket to the server, which starts with the process's salts.\<close>

definition forward_to_server :: "fernet \<Rightarrow> reach \<Rightarrow> bytes \<Rightarrow> world \<Rightarrow> bytes option \<times> world" where
  "forward_to_server F outcome target_url_bytes w =
     (case outcome of
        Inl e \<Rightarrow> (None, w)
      | Inr (q, faults) \<Rightarrow>
          let w1 = w\<lparr>inq := q, sent := [], send_faults := faults, sock_timeout := Some 30, sock_open := True\<rparr> in
          case andThen (cipher_encrypt F CLIENT_SECRET_KEY target_url_bytes) sendall w1 of
            (Inl e, w2) \<Rightarrow> (None, w2\<lparr>sock_open := False\<rparr>)
          | (Inr _, w2) \<Rightarrow>
              (case collect [] (inq w2) of
                 None \<Rightarrow> None
               | Some resp \<Rightarrow> if resp = [] then None else Some resp, w2\<lparr>sock_open := False\<rparr>))"

definition page_502 :: bytes where
  "page_502 = ascii_bytes (u ''HTTP/1.1 502 Bad Gateway'' @ CRLF @ u ''Content-Type: text/html'' @ CRLF @ CRLF
     @ u ''<html><body><h1>502 Bad Gateway</h1><p>Proxy server could not reach the upstream server.</p></body></html>'')"

definition page_500 :: bytes where
  "page_500 = ascii_bytes (u ''HTTP/1.1 500 Internal Server Error'' @ CRLF @ u ''Content-Type: text/html'' @ CRLF @ CRLF
     @ u ''<html><body><h1>500 Internal Server Error</h1><p>Proxy failed to decrypt server response.</p></body></html>'')"

text \<open>The target in the request line; \<open>None\<close> when there is none.\<close>

definition request_target :: "bytes \<Rightarrow> pystr option" where
  "request_target raw =
     (let parts = split_on 32 (hd (split_str CRLF (utf8_decode_ignore raw)))
      in if length parts < 2 then None else Some (parts ! 1))"

text \<open>What is written to the browser for the server's answer.\<close>

definition browser_page :: "fernet \<Rightarrow> bytes option \<Rightarrow> bytes" where
  "browser_page F answer =
     (case answer of
        None \<Rightarrow> page_502
      | Some token \<Rightarrow> (case cipher_decrypt F CLIENT_SECRET_KEY token of Inl _ \<Rightarrow> page_500 | Inr page \<Rightarrow> page))"

text \<open>
  One browser connection: the browser's socket and the one to the server.  Every exception is
  swallowed and the browser's socket is closed.
\<close>

definition handle_browser_request :: "fernet \<Rightarrow> reach \<Rightarrow> world \<times> world \<Rightarrow> world \<times> world" where
  "handle_browser_request F outcome bw =
     (let (b, w) = bw; (r, b1) = wait_recv CLIENT_BUFFER b;
          (b2, w2) =
            (case r of
               Inl e \<Rightarrow> (b1, w)
             | Inr raw \<Rightarrow>
                 if raw = [] then (b1, w)
                 else case request_target raw of
                     None \<Rightarrow> (b1, w)
                   | Some target \<Rightarrow>
                       (case utf8_encode target of
                          Inl e \<Rightarrow> (b1, w)
                        | Inr url \<Rightarrow>
                            let (answer, w') = forward_to_server F outcome url w
                            in (snd (sendall (browser_page F answer) b1), w')))
      in (b2\<lparr>sock_open := False\<rparr>, w2))"

subsection \<open>The server\<close>

record legacy_server =
  lsock :: world
  web_calls :: "pystr list"
  web :: "nat \<Rightarrow> pystr \<Rightarrow> pyexn + http_reply"
  web_text :: "exc_class \<Rightarrow> pystr"

definition on_lsock :: "(world, 'a) io \<Rightarrow> (legacy_server, 'a) io" where
  "on_lsock m S = (let (r, w) = m (lsock S) in (r, S\<lparr>lsock := w\<rparr>))"

definition decrypt_url :: "fernet \<Rightarrow> bytes \<Rightarrow> pyexn + pystr" where
  "decrypt_url F token = bind_res (cipher_decrypt F SERVER_SECRET_KEY token) utf8_decode"

definition raise_for_status :: "http_reply \<Rightarrow> pyexn + http_reply" where
  "raise_for_status r =
     (if 400 \<le> status r \<and> status r < 600 then Inl (Lib RequestExceptionC) else Inr r)"

definition web_exn_text :: "legacy_server \<Rightarrow> pyexn \<Rightarrow> pystr" where
  "web_exn_text S e = (case e of Raised _ m \<Rightarrow> m | Lib c \<Rightarrow> web_text S c)"

text \<open>The page for a URL: its content, or the text of what went wrong.\<close>

definition fetch :: "pystr \<Rightarrow> (legacy_server, bytes) io" where
  "fetch url S =
     (let S1 = S\<lparr>web_calls := web_calls S @ [url]\<rparr> in
      case bind_res (bind_res (web S (length (web_calls S)) url) raise_for_status) read_content of
        Inr content \<Rightarrow> (Inr content, S1)
      | Inl e \<Rightarrow>
          (utf8_encode ((if catches RequestExceptionC e then u ''Error fetching URL: '' else u ''Unexpected server error: '')
             @ web_exn_text S e), S1))"

text \<open>
  The loop of a client: one \<open>recv\<close> is taken for one token.  It ends when the client closes, when a
  token does not decrypt, and with any exception.
\<close>

lemma fetch_lsock: "fetch url S = (r, S') \<Longrightarrow> lsock S' = lsock S"
  by (auto simp: fetch_def Let_def split: sum.splits)

lemma encrypt_send_inq: "andThen (cipher_encrypt F key m) sendall w = (r, w') \<Longrightarrow> inq w' = inq w"
  by (auto simp: andThen_def cipher_encrypt_def next_salt_def ret_def sendall_def split: list.splits option.splits)

function legacy_loop :: "fernet \<Rightarrow> legacy_server \<Rightarrow> legacy_server" where
  "legacy_loop F S =
     (case on_lsock (wait_recv SERVER_BUFFER) S of
        (Inl e, S1) \<Rightarrow> S1
      | (Inr token, S1) \<Rightarrow>
          if token = [] then S1
          else case decrypt_url F token of
              Inl e \<Rightarrow> S1
            | Inr url \<Rightarrow>
                (case fetch url S1 of
                   (Inl e, S2) \<Rightarrow> S2
                 | (Inr content, S2) \<Rightarrow>
                     (case on_lsock (andThen (cipher_encrypt F SERVER_SECRET_KEY content) sendall) S2 of
                        (Inl e, S3) \<Rightarrow> S3
                      | (Inr _, S3) \<Rightarrow> legacy_loop F S3)))"
  by pat_completeness auto

lemma wait_recv_progress:
  "wait_recv n w = (Inr chunk, w') \<Longrightarrow> 0 < n \<Longrightarrow> chunk \<noteq> [] \<Longrightarrow> unread (inq w') < unread (inq w)"
  using blocking_recv_unread [of n "inq w"] by (auto simp: wait_recv_def Let_def split: prod.splits)

termination legacy_loop
proof (relation "measure (\<lambda>(F, S). unread (inq (lsock S)))", goal_cases)
  case (2 F S r1 S1 token url r2 S2 content r3 S3 v)
  obtain w1 where w1: "wait_recv SERVER_BUFFER (lsock S) = (Inr token, w1)" "S1 = S\<lparr>lsock := w1\<rparr>"
    using 2 by (auto simp: on_lsock_def Let_def split: prod.splits)
  have "unread (inq w1) < unread (inq (lsock S))"
    using wait_recv_progress [OF w1(1)] 2 by (simp add: SERVER_BUFFER_def)
  moreover have "lsock S2 = w1" using fetch_lsock [of url S1 r2 S2] 2 w1 by simp
  moreover obtain w3 where "andThen (cipher_encrypt F SERVER_SECRET_KEY content) sendall (lsock S2) = (r3, w3)" "S3 = S2\<lparr>lsock := w3\<rparr>"
    using 2 by (auto simp: on_lsock_def Let_def split: prod.splits)
  ultimately show ?case using encrypt_send_inq [of F SERVER_SECRET_KEY content w1 r3 w3] by simp
qed simp

declare legacy_loop.simps [simp del]

definition legacy_handle_client :: "fernet \<Rightarrow> legacy_server \<Rightarrow> legacy_server" where
  "legacy_handle_client F S = (let S1 = legacy_loop F S in S1\<lparr>lsock := (lsock S1)\<lparr>sock_open := False\<rparr>\<rparr>)"

end
