(* ===== verification/Legacy_Props.thy ===== *)
theory Legacy_Props
  imports Legacy
begin

text \<open>
  Properties of the first client and server: the client's reading loop computes the byte stream
  that arrived, and a page travels through both ends unchanged.
\<close>

subsection \<open>The reading loop\<close>

lemma collect_stream:
  "collect acc q =
     (if stream_end q = Some (Lib ConnectionResetErrorC) then None else Some (acc @ arriving q))"
proof (induction acc q rule: collect.induct)
  case (1 acc q)
  show ?case
  proof (cases "arriving q = []")
    case True
    have e: "fst (recv_event CLIENT_BUFFER q) = (case stream_end q of None \<Rightarrow> Inr [] | Some e \<Rightarrow> Inl e)"
      by (rule recv_event_end [OF True])
    have "stream_end q \<in> {None, Some (Lib ConnectionResetErrorC), Some (Lib TimeoutErrorC)}"
      by (auto simp: stream_end_def split: list.split net_event.split)
    then show ?thesis using e True
      by (cases "recv_event CLIENT_BUFFER q")
        (auto simp: collect.simps [of acc q] is_subclass.simps split: option.splits)
  next
    case False
    have pos: "0 < CLIENT_BUFFER" by (simp add: CLIENT_BUFFER_def)
    obtain m q' where m: "0 < m" "m \<le> CLIENT_BUFFER" "m \<le> length (arriving q)"
      and r: "recv_event CLIENT_BUFFER q = (Inr (take m (arriving q)), q')"
      and q': "arriving q' = drop m (arriving q)" "afterwards q' = afterwards q"
      by (rule recv_event_arriving [OF pos False])
    have ne: "take m (arriving q) \<noteq> []" using m by auto
    have end': "stream_end q' = stream_end q" using q'(2) by (simp add: stream_end_def)
    have "collect acc q = collect (acc @ take m (arriving q)) q'"
      using r ne by (simp add: collect.simps [of acc q])
    also have "\<dots> = (if stream_end q' = Some (Lib ConnectionResetErrorC) then None
        else Some ((acc @ take m (arriving q)) @ arriving q'))"
      using 1 [OF r [symmetric] refl ne] .
    finally show ?thesis using q'(1) by (simp only: end' append_assoc append_take_drop_id)
  qed
qed

text \<open>
  The client's reading loop is equivalent to its specification: with any segmentation into chunks
  of any size, \<open>forward_to_server\<close> returns exactly the bytes that arrived before the server closed
  or fell silent, and nothing if there were none, if the connection was reset, or if connecting or
  sending failed.
\<close>

lemma forward_to_server_spec:
  "fst (forward_to_server F outcome url w) =
     (case outcome of
        Inl _ \<Rightarrow> None
      | Inr (q, faults) \<Rightarrow>
          if (\<exists>e k fs. faults = Some (e, k) # fs) \<or> stream_end q = Some (Lib ConnectionResetErrorC) \<or>
             arriving q = []
          then None else Some (arriving q))"
proof (cases outcome)
  case (Inr r)
  obtain q faults where r: "r = (q, faults)" by (cases r)
  show ?thesis
  proof (cases faults)
    case Nil
    then show ?thesis using Inr r
      by (simp add: forward_to_server_def Let_def andThen_def cipher_encrypt_def next_salt_def ret_def sendall_def
          collect_stream)
  next
    case (Cons x fs)
    then show ?thesis using Inr r
      by (cases x) (auto simp: forward_to_server_def Let_def andThen_def cipher_encrypt_def next_salt_def ret_def
          sendall_def collect_stream split: prod.split)
  qed
qed (simp add: forward_to_server_def)

subsection \<open>A page through both ends\<close>

lemma forward_to_server_sent:
  assumes "fst (forward_to_server F (Inr (q, [])) url w) = Some resp"
  shows "sent (snd (forward_to_server F (Inr (q, [])) url w)) = f_encrypt F CLIENT_SECRET_KEY (salt_pos w) url"
  by (simp add: forward_to_server_def Let_def andThen_def cipher_encrypt_def next_salt_def ret_def sendall_def
      split: option.split)

lemma keys_shared: "CLIENT_SECRET_KEY = SERVER_SECRET_KEY"
  by (simp add: CLIENT_SECRET_KEY_def SERVER_SECRET_KEY_def)

lemma legacy_server_answers:
  assumes "fernet_ok F" and "inq (lsock S) = [Seg token]" and "send_faults (lsock S) = []"
    and "f_decrypt F SERVER_SECRET_KEY token = Some bs" and "utf8_decode bs = Inr url" and "token \<noteq> []"
    and "length token \<le> SERVER_BUFFER"
    and "web S (length (web_calls S)) url = Inr reply" and "status reply < 400" and "read_content reply = Inr content"
  shows "sent (lsock (legacy_handle_client F S))
      = sent (lsock S) @ f_encrypt F SERVER_SECRET_KEY (salt_pos (lsock S)) content"
    and "web_calls (legacy_handle_client F S) = web_calls S @ [url]"
proof -
  let ?w = "(lsock S)\<lparr>inq := []\<rparr>" and ?token = "f_encrypt F SERVER_SECRET_KEY (salt_pos (lsock S)) content"
  have r: "wait_recv SERVER_BUFFER (lsock S) = (Inr token, ?w)"
    using assms(2,6,7) by (cases token) (simp_all add: wait_recv_def)
  have d: "decrypt_url F token = Inr url" using assms(4,5) by (simp add: decrypt_url_def cipher_decrypt_def)
  let ?S1 = "S\<lparr>lsock := ?w\<rparr>"
  let ?S2 = "?S1\<lparr>web_calls := web_calls S @ [url]\<rparr>"
  have f: "fetch url ?S1 = (Inr content, ?S2)"
    using assms(8-10) by (simp add: fetch_def Let_def raise_for_status_def)
  let ?w3 = "?w\<lparr>salt_pos := Suc (salt_pos (lsock S)), sent := sent (lsock S) @ ?token\<rparr>"
  have s: "andThen (cipher_encrypt F SERVER_SECRET_KEY content) sendall ?w = (Inr (), ?w3)"
    using assms(3) by (simp add: andThen_def cipher_encrypt_def next_salt_def ret_def sendall_def)
  have "legacy_loop F S = legacy_loop F (?S2\<lparr>lsock := ?w3\<rparr>)"
    using r d f s assms(6) by (subst legacy_loop.simps) (simp add: on_lsock_def)
  also have "\<dots> = ?S2\<lparr>lsock := ?w3\<rparr>"
    by (subst legacy_loop.simps) (simp add: on_lsock_def wait_recv_def)
  finally show "sent (lsock (legacy_handle_client F S)) = sent (lsock S) @ ?token"
    and "web_calls (legacy_handle_client F S) = web_calls S @ [url]"
    by (simp_all add: legacy_handle_client_def Let_def)
qed

text \<open>
  C32. A page survives the first tunnel: for every browser request whose target is \<open>url\<close> the client
  sends one token, a server that receives it in one piece fetches exactly that URL and sends one
  token back, and when that token arrives at the client, in any segmentation, the browser is
  written exactly the content that was fetched.
\<close>

theorem legacy_page_delivered:
  assumes "fernet_ok F"
    and "wait_recv CLIENT_BUFFER b = (Inr raw, b1)" and "raw \<noteq> []" and "request_target raw = Some url"
    and "utf8_encode url = Inr bs" and "send_faults b = []"
    and "inq (lsock S) = [Seg (f_encrypt F CLIENT_SECRET_KEY (salt_pos w) bs)]" and "send_faults (lsock S) = []"
    and "length (f_encrypt F CLIENT_SECRET_KEY (salt_pos w) bs) \<le> SERVER_BUFFER"
    and "web S (length (web_calls S)) url = Inr reply" and "status reply < 400" and "read_content reply = Inr content"
    and "arriving q = f_encrypt F SERVER_SECRET_KEY (salt_pos (lsock S)) content"
    and "stream_end q \<noteq> Some (Lib ConnectionResetErrorC)"
  shows "sent (fst (handle_browser_request F (Inr (q, [])) (b, w))) = sent b @ content \<and>
    sent (snd (handle_browser_request F (Inr (q, [])) (b, w))) = f_encrypt F CLIENT_SECRET_KEY (salt_pos w) bs \<and>
    sent (lsock (legacy_handle_client F S)) = sent (lsock S) @ arriving q \<and>
    web_calls (legacy_handle_client F S) = web_calls S @ [url]"
proof -
  have cross: "f_decrypt F SERVER_SECRET_KEY (f_encrypt F CLIENT_SECRET_KEY s m) = Some m"
    "f_decrypt F CLIENT_SECRET_KEY (f_encrypt F SERVER_SECRET_KEY s m) = Some m" for s m
    using assms(1) keys_shared by (simp_all add: fernet_ok_def)
  have ne: "f_encrypt F key s m \<noteq> []" for key s m using assms(1) by (simp add: fernet_ok_def)
  have ans: "fst (forward_to_server F (Inr (q, [])) bs w) = Some (arriving q)"
    using assms(13,14) ne
    by (simp add: forward_to_server_def Let_def andThen_def cipher_encrypt_def next_salt_def ret_def sendall_def
        collect_stream)
  then obtain w' where fw: "forward_to_server F (Inr (q, [])) bs w = (Some (arriving q), w')"
    by (metis prod.collapse)
  have w': "sent w' = f_encrypt F CLIENT_SECRET_KEY (salt_pos w) bs" using forward_to_server_sent [OF ans] fw by simp
  have page: "browser_page F (Some (arriving q)) = content"
    by (simp add: browser_page_def cipher_decrypt_def assms(13) cross(2))
  have b1: "sent b1 = sent b" "send_faults b1 = []"
    using assms(2,6) by (auto simp: wait_recv_def Let_def split: prod.splits)
  have c: "sent (fst (handle_browser_request F (Inr (q, [])) (b, w))) = sent b @ content"
    "sent (snd (handle_browser_request F (Inr (q, [])) (b, w))) = f_encrypt F CLIENT_SECRET_KEY (salt_pos w) bs"
    using assms(2-5) fw page b1 w' by (simp_all add: handle_browser_request_def sendall_def)
  show ?thesis
    using c legacy_server_answers [OF assms(1,7,8) cross(1) utf8_decode_encode [OF assms(5)] ne assms(9,10,11,12)]
    by (simp add: assms(13))
qed

definition demo_fernet :: fernet where
  "demo_fernet = \<lparr>f_encrypt = (\<lambda>_ _ m. 128 # m), f_decrypt = (\<lambda>_ t. if t = [] then None else Some (tl t))\<rparr>"

definition demo_legacy :: legacy_server where
  "demo_legacy = \<lparr>lsock = world0\<lparr>inq := [Seg [128, 97]]\<rparr>, web_calls = [],
     web = (\<lambda>_ _. Inr \<lparr>status = 200, reply_headers = [], chunks = [[1], [2, 3]], stream_error = None\<rparr>),
     web_text = (\<lambda>_. [])\<rparr>"

theorem legacy_page_delivered_witness:
  "sent (fst (handle_browser_request demo_fernet (Inr ([Seg [128], Seg [1, 2, 3], Stall], []))
      (world0\<lparr>inq := [Seg (ascii_bytes (u ''GET a b''))]\<rparr>, world0))) = [1, 2, 3] \<and>
   sent (lsock (legacy_handle_client demo_fernet demo_legacy)) = [128, 1, 2, 3]"
proof -
  let ?raw = "ascii_bytes (u ''GET a b'')" and ?q = "[Seg [128], Seg [1, 2, 3], Stall]"
  let ?b = "world0\<lparr>inq := [Seg ?raw]\<rparr>" and ?r = "\<lparr>status = 200, reply_headers = [], chunks = [[1], [2, 3]], stream_error = None\<rparr>"
  have "is_ascii (u ''GET a b'')" by (simp add: u_Cons)
  then have i: "utf8_decode_ignore ?raw = u ''GET a b''"
    using utf8_decode_with_chars [of "u ''GET a b''" "Some []"]
    by (simp add: utf8_decode_ignore_def u_Cons ascii_bytes_def utf8_char_def scalar_def is_surrogate_def)
  have l: "split_str CRLF (u ''GET a b'') = [u ''GET a b'']" by (simp add: split_str.simps CRLF_def u_Cons)
  have p: "split_on 32 (u ''GET a b'') = [u ''GET'', u ''a'', u ''b'']" by (simp add: u_Cons)
  have t: "request_target ?raw = Some (u ''a'')"
    by (simp add: request_target_def i l p Let_def)
  have e: "utf8_encode (u ''a'') = Inr [97]"
    using utf8_encode_ascii [of "u ''a''"] by (simp add: u_Cons ascii_bytes_def)
  have r: "wait_recv CLIENT_BUFFER ?b = (Inr ?raw, ?b\<lparr>inq := []\<rparr>)"
    by (simp add: wait_recv_def CLIENT_BUFFER_def ascii_bytes_def u_Cons)
  have ok: "fernet_ok demo_fernet" by (simp add: fernet_ok_def demo_fernet_def)
  have D: "?raw \<noteq> []" "send_faults ?b = []"
    "inq (lsock demo_legacy) = [Seg (f_encrypt demo_fernet CLIENT_SECRET_KEY (salt_pos world0) [97])]"
    "send_faults (lsock demo_legacy) = []"
    "length (f_encrypt demo_fernet CLIENT_SECRET_KEY (salt_pos world0) [97]) \<le> SERVER_BUFFER"
    "web demo_legacy (length (web_calls demo_legacy)) (u ''a'') = Inr ?r" "status ?r < 400"
    "read_content ?r = Inr [1, 2, 3]"
    "arriving ?q = f_encrypt demo_fernet SERVER_SECRET_KEY (salt_pos (lsock demo_legacy)) [1, 2, 3]"
    "stream_end ?q \<noteq> Some (Lib ConnectionResetErrorC)"
    by (simp_all add: demo_legacy_def demo_fernet_def world0_def SERVER_BUFFER_def read_content_def stream_end_def
        ascii_bytes_def u_Cons)
  from legacy_page_delivered [OF ok r D(1) t e D(2-10)] show ?thesis
    by (simp add: demo_legacy_def world0_def)
qed

end
