(* ===== verification/Legacy_Main.thy ===== *)
theory Legacy_Main
  imports Legacy_Props Demos
begin

text \<open>
  The accept loops of the first client and server, \<open>start_local_proxy\<close> of \<open>client/client.py\<close> and
  \<open>start_server\<close> of \<open>server/server.py\<close>, and \<open>client/testing_connection.py\<close>, a client that sends one
  message.  What \<open>accept\<close> meets is a list of events; a list without \<open>Interrupted\<close> is the loop so far.
\<close>

subsection \<open>The accept loops\<close>

datatype 'c accept_event = Accepted 'c | Accept_failed pyexn | Interrupted

text \<open>
  The connections that get a thread, and whether the loop has ended.  An exception of \<open>accept\<close> is
  printed and the loop goes on.
\<close>

fun accept_loop :: "'c accept_event list \<Rightarrow> 'c list \<times> bool" where
  "accept_loop [] = ([], False)"
| "accept_loop (Accepted c # es) = (let (cs, ended) = accept_loop es in (c # cs, ended))"
| "accept_loop (Accept_failed e # es) = accept_loop es"
| "accept_loop (Interrupted # es) = ([], True)"

text \<open>
  The threads share nothing, so each connection ends as its handler leaves it.  When the port cannot
  be had the function returns; the second component is whether the listening socket was closed.
\<close>

definition start_local_proxy ::
    "fernet \<Rightarrow> pyexn option \<Rightarrow> (reach \<times> world \<times> world) accept_event list \<Rightarrow> (world \<times> world) list \<times> bool" where
  "start_local_proxy F bind_outcome events =
     (case bind_outcome of
        Some e \<Rightarrow> ([], False)
      | None \<Rightarrow>
          let (conns, ended) = accept_loop events
          in (map (\<lambda>(outcome, bw). handle_browser_request F outcome bw) conns, ended))"

definition legacy_start_server ::
    "fernet \<Rightarrow> pyexn option \<Rightarrow> legacy_server accept_event list \<Rightarrow> legacy_server list \<times> bool" where
  "legacy_start_server F bind_outcome events =
     (case bind_outcome of
        Some e \<Rightarrow> ([], False)
      | None \<Rightarrow> let (conns, ended) = accept_loop events in (map (legacy_handle_client F) conns, ended))"

definition REMOTE_SERVER_IP :: pystr where
  "REMOTE_SERVER_IP = u ''0.tcp.in.ngrok.io''"

text \<open>The client's \<open>__main__\<close>: \<open>None\<close> is \<open>sys.exit(1)\<close> on a placeholder that was not replaced.\<close>

definition legacy_client_main ::
    "fernet \<Rightarrow> pyexn option \<Rightarrow> (reach \<times> world \<times> world) accept_event list \<Rightarrow> ((world \<times> world) list \<times> bool) option" where
  "legacy_client_main F bind_outcome events =
     (if contains (u ''YOUR_SERVER_PUBLIC_IP_OR_DDNS_HOSTNAME'') REMOTE_SERVER_IP then None
      else if contains (u ''PASTE_YOUR_GENERATED_KEY_HERE'') (map unat CLIENT_SECRET_KEY) then None
      else Some (start_local_proxy F bind_outcome events))"

text \<open>
  An \<open>accept\<close> that fails costs nothing but itself, at any point of the loop, and every connection
  that was accepted before the interrupt ends closed.
\<close>

lemma accept_loop_skips: "accept_loop (es @ Accept_failed e # es') = accept_loop (es @ es')"
  by (induction es rule: accept_loop.induct) simp_all

lemma accept_loop_set: "set (fst (accept_loop es)) \<subseteq> {c. Accepted c \<in> set es}"
  by (induction es rule: accept_loop.induct) (auto simp: Let_def split: prod.splits)

lemma legacy_conns_closed:
  "list_all (\<lambda>(b, w). \<not> sock_open b) (fst (start_local_proxy F fault events))"
  "list_all (\<lambda>S. \<not> sock_open (lsock S)) (fst (legacy_start_server F fault' events'))"
proof -
  have 1: "\<not> sock_open (fst (handle_browser_request F outcome bw))" for outcome bw
    by (simp add: handle_browser_request_def Let_def split: prod.split)
  have 2: "\<not> sock_open (lsock (legacy_handle_client F S))" for S
    by (simp add: legacy_handle_client_def Let_def)
  show "list_all (\<lambda>(b, w). \<not> sock_open b) (fst (start_local_proxy F fault events))"
    using 1 by (auto simp: start_local_proxy_def list_all_iff case_prod_beta split: option.split)
  show "list_all (\<lambda>S. \<not> sock_open (lsock S)) (fst (legacy_start_server F fault' events'))"
    using 2 by (auto simp: legacy_start_server_def list_all_iff case_prod_beta split: option.split)
qed

text \<open>With the constants of the source the client starts its proxy.\<close>

lemma legacy_client_starts: "legacy_client_main F fault events = Some (start_local_proxy F fault events)"
proof -
  have "\<not> contains (u ''YOUR_SERVER_PUBLIC_IP_OR_DDNS_HOSTNAME'') REMOTE_SERVER_IP"
    "\<not> contains (u ''PASTE_YOUR_GENERATED_KEY_HERE'') (map unat CLIENT_SECRET_KEY)"
    by (simp_all add: contains_def REMOTE_SERVER_IP_def CLIENT_SECRET_KEY_def ascii_bytes_def u_Cons)
  then show ?thesis by (simp add: legacy_client_main_def)
qed

subsection \<open>The connection test\<close>

definition NGROK_HOST :: pystr where "NGROK_HOST = u ''0.tcp.in.ngrok.io''"
definition NGROK_PORT :: int where "NGROK_PORT = 17570"
definition TEST_BUFFER_SIZE :: nat where "TEST_BUFFER_SIZE = 1024"
definition MESSAGE_TO_SEND :: pystr where "MESSAGE_TO_SEND = u ''Hello ngrok tunnel!''"

definition ngrok_addr :: pystr where
  "ngrok_addr = NGROK_HOST @ u '':'' @ str_int NGROK_PORT"

text \<open>The message and one \<open>recv\<close> for the answer, with the lines printed in between.\<close>

definition say_hello :: "(script, unit) io" where
  "say_hello =
     andThen (say (u ''[*] Attempting to connect to '' @ ngrok_addr @ u ''...'')) (\<lambda>_.
     andThen demo_dial (\<lambda>_.
     andThen (say (u ''[+] Connected successfully to '' @ ngrok_addr)) (\<lambda>_.
     andThen (say (u ''[>] Sending message: '' @ [39] @ MESSAGE_TO_SEND @ [39])) (\<lambda>_.
     andThen (of_result (utf8_encode MESSAGE_TO_SEND)) (\<lambda>message.
     andThen (on_sk (sendall message)) (\<lambda>_.
     andThen (say (u ''[<] Waiting for server response...'')) (\<lambda>_.
     andThen (on_sk (recv TEST_BUFFER_SIZE)) (\<lambda>data.
     if data = [] then say (u ''[!] Received no response from server.'')
     else andThen (of_result (utf8_decode data)) (\<lambda>response.
       say (u ''[<] Received response: '' @ [39] @ response @ [39]))))))))))"

definition hello_failed :: "pyexn \<Rightarrow> (script, unit) io" where
  "hello_failed e X =
     (if catches TimeoutErrorC e then
        say (u ''[!] Connection or operation timed out connecting to '' @ ngrok_addr @ u ''.'') X
      else if catches OSErrorC e then
        andThen (say (u ''[!] Socket Error connecting to '' @ ngrok_addr @ u '': '' @ script_exn X e)) (\<lambda>_.
        say (u ''    Check if the hostname/port are correct and if ngrok/server are running.'')) X
      else say (u ''[!] An unexpected error occurred: '' @ script_exn X e) X)"

text \<open>The script; \<open>Inl ()\<close> is \<open>sys.exit(1)\<close>.\<close>

definition testing_connection :: "script \<Rightarrow> (unit + unit) \<times> script" where
  "testing_connection X =
     (let X1 = snd (say (u ''--- Simple TCP Client ---'') X) in
      if contains (u ''REPLACE_WITH_NGROK_HOSTNAME'') NGROK_HOST \<or> NGROK_PORT = 0 then
        (Inl (), snd (andThen (say (u ''[!] ERROR: Please edit simple_client.py and replace NGROK_HOST and NGROK_PORT''))
          (\<lambda>_. say (u ''         with the actual hostname and port provided by ngrok.'')) X1))
      else
        let X2 = snd (try_except say_hello hello_failed X1);
            X3 = snd (andThen (say (u ''[-] Closing client socket.'')) (\<lambda>_. on_sk sock_close) X2)
        in (Inr (), snd (say (u ''--- Client finished ---'') X3)))"

text \<open>
  Whatever it meets, the script comes to its end and leaves its socket closed, and a reply that
  arrives in one piece is shown.
\<close>

lemma testing_connection_ends:
  "\<exists>X' lines. testing_connection X = (Inr (), X') \<and> \<not> sock_open (sk X') \<and>
     printed X' = lines @ [u ''[-] Closing client socket.'', u ''--- Client finished ---'']"
proof -
  have "\<not> contains (u ''REPLACE_WITH_NGROK_HOSTNAME'') NGROK_HOST" "NGROK_PORT \<noteq> 0"
    by (simp_all add: contains_def NGROK_HOST_def NGROK_PORT_def u_Cons)
  then show ?thesis
    by (simp add: testing_connection_def Let_def andThen_def say_def on_sk_def sock_close_def split: prod.split)
qed

lemma testing_connection_shows:
  assumes "sk_dial X = Inr ([Seg data], [])" and "data \<noteq> []" and "length data \<le> TEST_BUFFER_SIZE"
    and "utf8_decode data = Inr response"
  shows "u ''[<] Received response: '' @ [39] @ response @ [39] \<in> set (printed (snd (testing_connection X)))"
    and "sent (sk (snd (testing_connection X))) = ascii_bytes MESSAGE_TO_SEND"
proof -
  have c: "\<not> contains (u ''REPLACE_WITH_NGROK_HOSTNAME'') NGROK_HOST" "NGROK_PORT \<noteq> 0"
    by (simp_all add: contains_def NGROK_HOST_def NGROK_PORT_def u_Cons)
  have "utf8_encode MESSAGE_TO_SEND = Inr (ascii_bytes MESSAGE_TO_SEND)"
    by (rule utf8_encode_ascii) (simp add: MESSAGE_TO_SEND_def u_Cons)
  note run = this testing_connection_def say_hello_def try_except_def andThen_def say_def on_sk_def demo_dial_def
    of_result_def sendall_def recv_def sock_close_def Let_def
  show "u ''[<] Received response: '' @ [39] @ response @ [39] \<in> set (printed (snd (testing_connection X)))"
    using c assms by (simp add: run)
  show "sent (sk (snd (testing_connection X))) = ascii_bytes MESSAGE_TO_SEND"
    using c assms by (simp add: run)
qed

end
