(* ===== verification/Hash_Vectors.thy ===== *)
theory Hash_Vectors
  imports Sha256
begin

text \<open>
  A known answer for the model of SHA-256: the digest of the text \<open>abc\<close>, the first example of the
  standard.  The compression function is evaluated in three steps, each by the code simplifier.
\<close>

definition abc_words :: "u32 list" where
  "abc_words =
    [0x61626380, 0x00000000, 0x00000000, 0x00000000, 0x00000000, 0x00000000, 0x00000000, 0x00000000,
     0x00000000, 0x00000000, 0x00000000, 0x00000000, 0x00000000, 0x00000000, 0x00000000, 0x00000018,
     0x61626380, 0x000f0000, 0x7da86405, 0x600003c6, 0x3e9d7b78, 0x0183fc00, 0x12dcbfdb, 0xe2e2c38e,
     0xc8215c1a, 0xb73679a2, 0xe5bc3909, 0x32663c5b, 0x9d209d67, 0xec8726cb, 0x702138a4, 0xd3b7973b,
     0x93f5997f, 0x3b68ba73, 0xaff4ffc1, 0xf10a5c62, 0x0a8b3996, 0x72af830a, 0x9409e33e, 0x24641522,
     0x9f47bf94, 0xf0a64f5a, 0x3e246a79, 0x27333ba3, 0x0c4763f2, 0x840abf27, 0x7a290d5d, 0x065c43da,
     0xfb3e89cb, 0xcc7617db, 0xb9e66c34, 0xa9993667, 0x84badedd, 0xc21462bc, 0x1487472c, 0xb20f7a99,
     0xef57b9cd, 0xebe6b238, 0x9fe3095e, 0x78bc8d4b, 0xa43fcf15, 0x668b2ff8, 0xeeaba2cc, 0x12b1edeb]"

lemma chunks_numeral: "chunks (numeral v) k xs = take k xs # chunks (pred_numeral v) k (drop k xs)"
  by (simp add: numeral_eq_Suc)

lemma abc_padded:
  "sha_pad [97, 98, 99] = 97 # 98 # 99 # 128 # replicate 52 0 @ [0, 0, 0, 0, 0, 0, 0, 24]"
proof -
  have "(8 :: nat) = Suc (Suc (Suc (Suc 4)))" by simp
  then have "be_bytes 8 24 = [0, 0, 0, 0, 0, 0, 0, 24]" by (simp only: be_bytes.simps be_bytes_4) simp
  then show ?thesis by (simp add: sha_pad_def)
qed

lemma replicate_numeral_Cons: "replicate (numeral v) x = x # replicate (pred_numeral v) x"
  by (simp add: numeral_eq_Suc)

lemma abc_block: "map (\<lambda>bs. of_nat (be_value bs)) (chunks 16 4 (sha_pad [97, 98, 99])) = take 16 abc_words"
  by (simp add: abc_words_def abc_padded be_value_def chunks_numeral replicate_numeral_Cons)

lemma abc_schedule: "sha_schedule 48 (take 16 abc_words) = abc_words"
  by code_simp

lemma abc_rounds_32:
  "sha_rounds (take 32 (zip sha_K abc_words)) 0x6a09e667 0xbb67ae85 0x3c6ef372 0xa54ff53a
      0x510e527f 0x9b05688c 0x1f83d9ab 0x5be0cd19 =
    [0x73b33bf5, 0xea992a22, 0xa0060b30, 0x363482c9, 0xba591112, 0x0109ab3a, 0xade79437, 0x6112a3b7]"
  by code_simp

lemma abc_rounds_64:
  "sha_rounds (drop 32 (zip sha_K abc_words)) 0x73b33bf5 0xea992a22 0xa0060b30 0x363482c9
      0xba591112 0x0109ab3a 0xade79437 0x6112a3b7 =
    [0x506e3058, 0xd39a2165, 0x04d24d6c, 0xb85e2ce9, 0x5ef50f24, 0xfb121210, 0x948d25b6, 0x961f4894]"
  by code_simp

lemma sha_rounds_append:
  "sha_rounds (kws @ kws') a b c d e f g h =
    (case sha_rounds kws a b c d e f g h of [a', b', c', d', e', f', g', h'] \<Rightarrow> sha_rounds kws' a' b' c' d' e' f' g' h')"
  by (induction kws a b c d e f g h rule: sha_rounds.induct) (simp_all add: Let_def)

lemma abc_compressed:
  "sha_compress sha_H0 (sha_pad [97, 98, 99]) =
    [0xba7816bf, 0x8f01cfea, 0x414140de, 0x5dae2223, 0xb00361a3, 0x96177a9c, 0xb410ff61, 0xf20015ad]"
proof -
  have "sha_rounds (take 32 (zip sha_K abc_words) @ drop 32 (zip sha_K abc_words)) 0x6a09e667 0xbb67ae85 0x3c6ef372 0xa54ff53a
      0x510e527f 0x9b05688c 0x1f83d9ab 0x5be0cd19 =
    [0x506e3058, 0xd39a2165, 0x04d24d6c, 0xb85e2ce9, 0x5ef50f24, 0xfb121210, 0x948d25b6, 0x961f4894]"
    unfolding sha_rounds_append abc_rounds_32 by (simp add: abc_rounds_64)
  then show ?thesis by (simp add: sha_compress_def abc_block abc_schedule sha_H0_def)
qed

lemma sha256_abc: "sha256 [97, 98, 99] =
   [186, 120, 22, 191, 143, 1, 207, 234, 65, 65, 64, 222, 93, 174, 34, 35, 176, 3, 97, 163, 150, 23,
    122, 156, 180, 16, 255, 97, 242, 0, 21, 173]"
proof -
  have "chunks (length (sha_pad [97, 98, 99]) div 64) 64 (sha_pad [97, 98, 99]) = [sha_pad [97, 98, 99]]"
    by (simp add: abc_padded)
  then show ?thesis
    by (simp add: sha256_def abc_compressed be_bytes_4)
qed

end
