(* ===== verification/Unit_Tests.thy ===== *)
theory Unit_Tests
  imports Key_Files Py_Str
begin

text \<open>
  The unit tests \<open>crypto/test_crypto.py\<close> and \<open>auth/test_auth.py\<close>.  A test is a computation of a truth
  value, the conjunction of its assertions; it passes when it returns true.  Proved here is that
  every test that asks nothing of the strength of the cryptography passes, whatever the random
  bytes and however the loopback connection cuts up its stream.  The handshakes with a wrong key and
  the tampered frame pass under the hypotheses stated there.  The others that ask for strength are
  only defined; that three of them rest on chance is shown at the end.
\<close>

text \<open>\<open>with pytest.raises(c): m\<close>\<close>

definition raises :: "exc_class \<Rightarrow> ('s, 'a) io \<Rightarrow> ('s, bool) io" where
  "raises c m s =
     (case m s of
        (Inl e, s') \<Rightarrow> if catches c e then (Inr True, s') else (Inl e, s')
      | (Inr _, s') \<Rightarrow> (Inr False, s'))"

definition both :: "('s, bool) io \<Rightarrow> ('s, bool) io \<Rightarrow> ('s, bool) io" where
  "both m m' = andThen m (\<lambda>ok. if ok then m' else ret False)"

definition passes :: "('s, bool) io \<Rightarrow> 's \<Rightarrow> bool" where
  "passes m s \<longleftrightarrow> fst (m s) = Inr True"

named_theorems test_simps \<open>execution of the tests\<close>

lemmas [test_simps] = passes_def both_def raises_def andThen_def ret_def raise_def of_result_def

subsection \<open>AES-GCM\<close>

definition aes_round_trip :: "('sk, 'pk) crypto_lib \<Rightarrow> (world, bytes) io \<Rightarrow> (world, bool) io" where
  "aes_round_trip L make_plaintext =
     andThen generate_session_key (\<lambda>key.
     andThen make_plaintext (\<lambda>plaintext.
     andThen (encrypt_payload L plaintext key) (\<lambda>(ct, nonce).
     andThen (of_result (decrypt_payload L ct nonce key)) (\<lambda>result.
     ret (result = plaintext)))))"

definition test_round_trip :: "('sk, 'pk) crypto_lib \<Rightarrow> (world, bool) io" where
  "test_round_trip L = aes_round_trip L (ret (ascii_bytes (u ''Hello, world!'')))"

definition test_round_trip_large :: "('sk, 'pk) crypto_lib \<Rightarrow> (world, bool) io" where
  "test_round_trip_large L = aes_round_trip L (urandom (1024 * 1024))"

definition test_round_trip_empty :: "('sk, 'pk) crypto_lib \<Rightarrow> (world, bool) io" where
  "test_round_trip_empty L = aes_round_trip L (ret [])"

definition test_encrypt_decrypt_known :: "('sk, 'pk) crypto_lib \<Rightarrow> (world, bool) io" where
  "test_encrypt_decrypt_known L =
     (let half = [0x01, 0x23, 0x45, 0x67, 0x89, 0xab, 0xcd, 0xef, 0x01, 0x23, 0x45, 0x67, 0x89, 0xab, 0xcd, 0xef];
          key = half @ half;
          plaintext = ascii_bytes (u ''The quick brown fox jumps over the lazy dog'')
      in andThen (encrypt_payload L plaintext key) (\<lambda>(ct, nonce).
         andThen (of_result (decrypt_payload L ct nonce key)) (\<lambda>result. ret (result = plaintext))))"

text \<open>\<open>bytes([ct[0] ^ 0xFF]) + ct[1:]\<close>\<close>

definition test_tamper_ciphertext_fails :: "('sk, 'pk) crypto_lib \<Rightarrow> (world, bool) io" where
  "test_tamper_ciphertext_fails L =
     andThen generate_session_key (\<lambda>key.
     andThen (encrypt_payload L (ascii_bytes (u ''secret data'')) key) (\<lambda>(ct, nonce).
     case ct of
       [] \<Rightarrow> raise (Lib IndexErrorC)
     | b # rest \<Rightarrow> raises ExceptionC (of_result (decrypt_payload L (xor b 0xFF # rest) nonce key))))"

definition test_wrong_key_fails :: "('sk, 'pk) crypto_lib \<Rightarrow> (world, bool) io" where
  "test_wrong_key_fails L =
     andThen generate_session_key (\<lambda>key1.
     andThen generate_session_key (\<lambda>key2.
     andThen (encrypt_payload L (ascii_bytes (u ''data'')) key1) (\<lambda>(ct, nonce).
     raises ExceptionC (of_result (decrypt_payload L ct nonce key2)))))"

definition test_wrong_nonce_fails :: "('sk, 'pk) crypto_lib \<Rightarrow> (world, bool) io" where
  "test_wrong_nonce_fails L =
     andThen generate_session_key (\<lambda>key.
     andThen (encrypt_payload L (ascii_bytes (u ''data'')) key) (\<lambda>(ct, nonce).
     andThen (urandom GCM_NONCE_SIZE) (\<lambda>bad_nonce.
     raises ExceptionC (of_result (decrypt_payload L ct bad_nonce key)))))"

definition test_bad_key_length :: "('sk, 'pk) crypto_lib \<Rightarrow> (world, bool) io" where
  "test_bad_key_length L =
     both (raises ValueErrorC (encrypt_payload L (ascii_bytes (u ''data'')) (ascii_bytes (u ''short''))))
       (andThen (urandom GCM_NONCE_SIZE) (\<lambda>nonce.
        raises ValueErrorC (of_result (decrypt_payload L (ascii_bytes (u ''data'')) nonce (ascii_bytes (u ''short''))))))"

subsection \<open>HMAC and key derivation\<close>

definition frame_payload :: bytes where
  "frame_payload = ascii_bytes (u ''frame payload bytes'')"

definition test_valid_hmac :: "(world, bool) io" where
  "test_valid_hmac =
     andThen (urandom HMAC_DIGEST_SIZE) (\<lambda>key.
     let mac = compute_hmac frame_payload key
     in ret (length mac = HMAC_DIGEST_SIZE \<and> verify_hmac frame_payload mac key))"

definition test_tampered_data_fails :: "(world, bool) io" where
  "test_tampered_data_fails =
     andThen (urandom HMAC_DIGEST_SIZE) (\<lambda>key.
     ret (\<not> verify_hmac (frame_payload @ ascii_bytes (u ''x'')) (compute_hmac frame_payload key) key))"

definition test_wrong_hmac_key_fails :: "(world, bool) io" where
  "test_wrong_hmac_key_fails =
     andThen (urandom HMAC_DIGEST_SIZE) (\<lambda>k1.
     andThen (urandom HMAC_DIGEST_SIZE) (\<lambda>k2.
     ret (\<not> verify_hmac frame_payload (compute_hmac frame_payload k1) k2)))"

definition test_hmac_known :: "(world, bool) io" where
  "test_hmac_known =
     (let key = ascii_bytes (u ''known-hmac-key-for-testing-32-by'');
          data = ascii_bytes (u ''known data'');
          mac = compute_hmac data key
      in ret (length key = 32 \<and> verify_hmac data mac key \<and> \<not> verify_hmac (data @ ascii_bytes (u ''!'')) mac key))"

definition test_deterministic :: "('sk, 'pk) crypto_lib \<Rightarrow> (world, bool) io" where
  "test_deterministic L =
     (let ms = ascii_bytes (u ''master-secret-value''); salt = Some (ascii_bytes (u ''salt-value''));
          (enc1, mac1) = derive_keys L ms salt derive_keys_info;
          (enc2, mac2) = derive_keys L ms salt derive_keys_info
      in ret (enc1 = enc2 \<and> mac1 = mac2))"

definition test_key_lengths :: "('sk, 'pk) crypto_lib \<Rightarrow> (world, bool) io" where
  "test_key_lengths L =
     (let (enc, mac) = derive_keys L (ascii_bytes (u ''secret'')) None derive_keys_info
      in ret (length enc = AES_KEY_SIZE \<and> length mac = HMAC_DIGEST_SIZE))"

definition test_different_secrets_differ :: "('sk, 'pk) crypto_lib \<Rightarrow> (world, bool) io" where
  "test_different_secrets_differ L =
     (let (enc1, mac1) = derive_keys L (ascii_bytes (u ''secret-a'')) None derive_keys_info;
          (enc2, mac2) = derive_keys L (ascii_bytes (u ''secret-b'')) None derive_keys_info
      in ret (enc1 \<noteq> enc2 \<and> mac1 \<noteq> mac2))"

subsection \<open>Framing over a loopback connection\<close>

text \<open>
  \<open>_socketpair\<close>: what was written on one socket of the pair arrives at the other in the segments
  \<open>net\<close> makes of it.  The two sockets share the random source of the process.
\<close>

definition other_end :: "(bytes \<Rightarrow> net_event list) \<Rightarrow> (world, unit) io" where
  "other_end net w = (Inr (), w\<lparr>inq := net (sent w), sent := []\<rparr>)"

definition loopback :: "(bytes \<Rightarrow> net_event list) \<Rightarrow> bool" where
  "loopback net \<longleftrightarrow> (\<forall>bs. arriving (net bs) = bs)"

definition frame_round_trip ::
    "('sk, 'pk) crypto_lib \<Rightarrow> (bytes \<Rightarrow> net_event list) \<Rightarrow> message_type \<Rightarrow> bytes \<Rightarrow> bytes
      \<Rightarrow> bytes option \<Rightarrow> bytes option \<Rightarrow> (world, bool) io" where
  "frame_round_trip L net msg sid payload enc_key mac_key =
     andThen (send_frame L msg sid payload enc_key mac_key) (\<lambda>_.
     andThen (other_end net) (\<lambda>_.
     andThen (recv_frame L enc_key mac_key) (\<lambda>(msg_type, rx_sid, rx_payload).
     ret (msg_type = msg \<and> rx_sid = sid \<and> rx_payload = payload))))"

definition test_cleartext_round_trip :: "('sk, 'pk) crypto_lib \<Rightarrow> (bytes \<Rightarrow> net_event list) \<Rightarrow> (world, bool) io" where
  "test_cleartext_round_trip L net =
     andThen (urandom SESSION_ID_SIZE) (\<lambda>sid.
     frame_round_trip L net HANDSHAKE_CLIENT_HELLO sid (ascii_bytes (u ''hello handshake'')) None None)"

definition test_encrypted_round_trip :: "('sk, 'pk) crypto_lib \<Rightarrow> (bytes \<Rightarrow> net_event list) \<Rightarrow> (world, bool) io" where
  "test_encrypted_round_trip L net =
     andThen (urandom 32) (\<lambda>ms.
     let (enc_key, mac_key) = derive_keys L ms None derive_keys_info in
     andThen (urandom SESSION_ID_SIZE) (\<lambda>sid.
     frame_round_trip L net DATA_REQUEST sid
       (ascii_bytes (u ''GET http://example.com HTTP/1.1'' @ [13, 10, 13, 10])) (Some enc_key) (Some mac_key)))"

text \<open>The test of the large payload compares the payload alone; its sender is a thread of its own.\<close>

definition test_large_payload :: "('sk, 'pk) crypto_lib \<Rightarrow> (bytes \<Rightarrow> net_event list) \<Rightarrow> (world, bool) io" where
  "test_large_payload L net =
     andThen (urandom 32) (\<lambda>ms.
     let (enc_key, mac_key) = derive_keys L ms None derive_keys_info in
     andThen (urandom SESSION_ID_SIZE) (\<lambda>sid.
     andThen (urandom (1024 * 1024)) (\<lambda>payload.
     andThen (send_frame L DATA_RESPONSE sid payload (Some enc_key) (Some mac_key)) (\<lambda>_.
     andThen (other_end net) (\<lambda>_.
     andThen (recv_frame L (Some enc_key) (Some mac_key)) (\<lambda>(msg_type, rx_sid, rx_payload).
     ret (rx_payload = payload)))))))"

text \<open>
  \<open>pytest.raises(c, match=pattern)\<close> for a pattern that is plain text.  \<open>texts\<close> are the texts of exceptions raised
  inside libraries.
\<close>

definition raises_saying :: "(exc_class \<Rightarrow> pystr) \<Rightarrow> exc_class \<Rightarrow> pystr \<Rightarrow> ('s, 'a) io \<Rightarrow> ('s, bool) io" where
  "raises_saying texts c pattern m s =
     (case m s of
        (Inl e, s') \<Rightarrow>
          if catches c e
          then (Inr (find_sub pattern (case e of Raised _ text \<Rightarrow> text | Lib d \<Rightarrow> texts d) \<noteq> None), s')
          else (Inl e, s')
      | (Inr _, s') \<Rightarrow> (Inr False, s'))"

text \<open>\<open>while len(raw_body) < total_len\<close>; \<open>None\<close>: the loop reads the end of the stream for ever.\<close>

function read_body :: "nat \<Rightarrow> bytes \<Rightarrow> net_event list \<Rightarrow> ((pyexn + bytes) \<times> net_event list) option" where
  "read_body total_len raw_body q =
     (if length raw_body < total_len then
        (case recv_event (total_len - length raw_body) q of
           (Inl e, q') \<Rightarrow> Some (Inl e, q')
         | (Inr chunk, q') \<Rightarrow> if chunk = [] then None else read_body total_len (raw_body @ chunk) q')
      else Some (Inr raw_body, q))"
  by pat_completeness auto
termination
  by (relation "measure (\<lambda>(n, buf, _). n - length buf)") (auto simp flip: length_greater_0_conv)

declare read_body.simps [simp del]

definition test_hmac_tamper_detected ::
    "('sk, 'pk) crypto_lib \<Rightarrow> (bytes \<Rightarrow> net_event list) \<Rightarrow> (exc_class \<Rightarrow> pystr) \<Rightarrow> world \<Rightarrow> ((pyexn + bool) \<times> world) option" where
  "test_hmac_tamper_detected L net texts w =
     (case andThen (urandom SESSION_ID_SIZE) (\<lambda>sid.
           andThen (send_frame L DATA_REQUEST sid (ascii_bytes (u ''payload'')) None None) (\<lambda>_.
           andThen (other_end net) (\<lambda>_. recv HEADER_SIZE))) w of
        (Inl e, s) \<Rightarrow> Some (Inl e, s)
      | (Inr raw_header, s) \<Rightarrow>
          if length raw_header \<noteq> HEADER_SIZE then Some (Inl (Lib ExceptionC), s)
          else
            (case read_body (be_value raw_header) [] (inq s) of
               None \<Rightarrow> None
             | Some (Inl e, q) \<Rightarrow> Some (Inl e, s\<lparr>inq := q\<rparr>)
             | Some (Inr raw_body, q) \<Rightarrow>
                 if length raw_body \<le> 5 then Some (Inl (Lib IndexErrorC), s\<lparr>inq := q\<rparr>)
                 else
                   (let tampered = raw_body[5 := xor (raw_body ! 5) 0xFF] in
                    Some (raises_saying texts ValueErrorC (u ''HMAC'') (recv_frame L None None)
                      (s\<lparr>inq := net (raw_header @ tampered)\<rparr>)))))"

subsection \<open>Signatures and key files\<close>

text \<open>The tests of \<open>auth\<close> use the file system, where \<open>path\<close> is their temporary file, and the process.\<close>

type_synonym lab = "files \<times> world"

definition on_files :: "(files, 'a) io \<Rightarrow> (lab, 'a) io" where
  "on_files m s = (let (r, FS) = m (fst s) in (r, (FS, snd s)))"

definition on_process :: "(world, 'a) io \<Rightarrow> (lab, 'a) io" where
  "on_process m s = (let (r, w) = m (snd s) in (r, (fst s, w)))"

lemmas [test_simps] = on_files_def on_process_def

definition new_pair :: "('sk, 'pk) crypto_lib \<Rightarrow> ('sk, 'pk) key_lib \<Rightarrow> (lab, 'sk \<times> 'pk) io" where
  "new_pair L K = on_files (generate_rsa_keypair L K DEFAULT_KEY_SIZE)"

definition test_sign_verify :: "('sk, 'pk) crypto_lib \<Rightarrow> ('sk, 'pk) key_lib \<Rightarrow> (lab, bool) io" where
  "test_sign_verify L K =
     (let data = ascii_bytes (u ''hello world'') in
      andThen (new_pair L K) (\<lambda>(priv, pub).
      andThen (on_process (sign_data L data priv)) (\<lambda>sig.
      ret (verify_signature L data sig pub))))"

definition test_wrong_data_fails :: "('sk, 'pk) crypto_lib \<Rightarrow> ('sk, 'pk) key_lib \<Rightarrow> (lab, bool) io" where
  "test_wrong_data_fails L K =
     andThen (new_pair L K) (\<lambda>(priv, pub).
     andThen (on_process (sign_data L (ascii_bytes (u ''hello'')) priv)) (\<lambda>sig.
     ret (\<not> verify_signature L (ascii_bytes (u ''world'')) sig pub)))"

definition test_wrong_signing_key_fails :: "('sk, 'pk) crypto_lib \<Rightarrow> ('sk, 'pk) key_lib \<Rightarrow> (lab, bool) io" where
  "test_wrong_signing_key_fails L K =
     (let data = ascii_bytes (u ''data'') in
      andThen (new_pair L K) (\<lambda>(priv1, pub1).
      andThen (new_pair L K) (\<lambda>(_, pub2).
      andThen (on_process (sign_data L data priv1)) (\<lambda>sig.
      ret (verify_signature L data sig pub1 \<and> \<not> verify_signature L data sig pub2)))))"

definition save_and_sign ::
    "('sk, 'pk) crypto_lib \<Rightarrow> ('sk, 'pk) key_lib \<Rightarrow> pystr \<Rightarrow> bytes option \<Rightarrow> bytes \<Rightarrow> (lab, bool) io" where
  "save_and_sign L K path passphrase data =
     andThen (new_pair L K) (\<lambda>(priv, _).
     andThen (on_files (save_private_key K priv path passphrase)) (\<lambda>_.
     andThen (on_files (load_private_key K path passphrase)) (\<lambda>loaded.
     andThen (on_process (sign_data L data loaded)) (\<lambda>sig.
     ret (verify_signature L data sig (public_key L priv))))))"

definition test_save_load_private :: "('sk, 'pk) crypto_lib \<Rightarrow> ('sk, 'pk) key_lib \<Rightarrow> pystr \<Rightarrow> (lab, bool) io" where
  "test_save_load_private L K path = save_and_sign L K path None (ascii_bytes (u ''test data''))"

definition test_encrypted_private_key :: "('sk, 'pk) crypto_lib \<Rightarrow> ('sk, 'pk) key_lib \<Rightarrow> pystr \<Rightarrow> (lab, bool) io" where
  "test_encrypted_private_key L K path =
     save_and_sign L K path (Some (ascii_bytes (u ''hunter2''))) (ascii_bytes (u ''ok''))"

definition test_save_load_public :: "('sk, 'pk) crypto_lib \<Rightarrow> ('sk, 'pk) key_lib \<Rightarrow> pystr \<Rightarrow> (lab, bool) io" where
  "test_save_load_public L K path =
     andThen (new_pair L K) (\<lambda>(_, pub).
     andThen (on_files (save_public_key K pub path)) (\<lambda>_.
     andThen (on_files (load_public_key K path)) (\<lambda>_.
     andThen (new_pair L K) (\<lambda>(priv, pub).
     andThen (on_files (save_public_key K pub path)) (\<lambda>_.
     andThen (on_files (load_public_key K path)) (\<lambda>loaded.
     andThen (on_process (sign_data L (ascii_bytes (u ''test'')) priv)) (\<lambda>sig.
     ret (verify_signature L (ascii_bytes (u ''test'')) sig loaded))))))))"

definition test_wrong_passphrase :: "('sk, 'pk) crypto_lib \<Rightarrow> ('sk, 'pk) key_lib \<Rightarrow> pystr \<Rightarrow> (lab, bool) io" where
  "test_wrong_passphrase L K path =
     andThen (new_pair L K) (\<lambda>(priv, _).
     andThen (on_files (save_private_key K priv path (Some (ascii_bytes (u ''correct''))))) (\<lambda>_.
     raises ExceptionC (on_files (load_private_key K path (Some (ascii_bytes (u ''wrong'')))))))"

subsection \<open>Handshakes\<close>

text \<open>
  \<open>_run_handshake\<close>: the two sides, each in a thread of its own, on the two sockets; what each returned
  or raised, the server first.
\<close>

definition run_handshake ::
    "('sk, 'pk) crypto_lib \<Rightarrow> 'sk \<Rightarrow> 'pk \<Rightarrow> 'sk \<Rightarrow> 'pk \<Rightarrow> world \<Rightarrow> world
      \<Rightarrow> (pyexn + bytes \<times> bytes \<times> bytes) \<times> (pyexn + bytes \<times> bytes \<times> bytes)" where
  "run_handshake L client_priv client_pub server_priv server_pub cw sw =
     (fst (server_handshake L server_priv client_pub sw), fst (client_handshake L client_priv server_pub cw))"

definition test_successful_handshake ::
    "('sk, 'pk) crypto_lib \<Rightarrow> ('sk, 'pk) key_lib \<Rightarrow> world \<Rightarrow> world \<Rightarrow> (lab, bool) io" where
  "test_successful_handshake L K cw sw =
     andThen (new_pair L K) (\<lambda>(s_priv, s_pub).
     andThen (new_pair L K) (\<lambda>(c_priv, c_pub).
     ret (case run_handshake L c_priv c_pub s_priv s_pub cw sw of
            (Inr (sid, enc, mac), Inr (sid', enc', mac')) \<Rightarrow> sid = sid' \<and> enc = enc' \<and> mac = mac'
          | _ \<Rightarrow> False)))"

definition test_wrong_server_key_fails ::
    "('sk, 'pk) crypto_lib \<Rightarrow> ('sk, 'pk) key_lib \<Rightarrow> world \<Rightarrow> world \<Rightarrow> (lab, bool) io" where
  "test_wrong_server_key_fails L K cw sw =
     andThen (new_pair L K) (\<lambda>(s_priv, s_pub).
     andThen (new_pair L K) (\<lambda>(c_priv, c_pub).
     andThen (new_pair L K) (\<lambda>(_, wrong_pub).
     ret (isl (snd (run_handshake L c_priv c_pub s_priv wrong_pub cw sw))))))"

definition test_wrong_client_key_fails ::
    "('sk, 'pk) crypto_lib \<Rightarrow> ('sk, 'pk) key_lib \<Rightarrow> world \<Rightarrow> world \<Rightarrow> (lab, bool) io" where
  "test_wrong_client_key_fails L K cw sw =
     andThen (new_pair L K) (\<lambda>(s_priv, s_pub).
     andThen (new_pair L K) (\<lambda>(c_priv, c_pub).
     andThen (new_pair L K) (\<lambda>(_, wrong_pub).
     ret (isl (fst (run_handshake L c_priv wrong_pub s_priv s_pub cw sw))))))"

subsection \<open>The tests that pass with every library\<close>

lemma aes_round_trip_passes:
  assumes "aead_ok L"  and "draw w0 = (Inr p, w1)" and "urandom AES_KEY_SIZE w = (Inr key, w0)"
  shows "passes (aes_round_trip L draw) w"
proof -
  have k: "length key = AES_KEY_SIZE" by (rule urandom_length [OF assms(3)])
  obtain ct nonce w2 where e: "encrypt_payload L p key w1 = (Inr (ct, nonce), w2)"
    by (metis encrypt_payload_eq [OF k])
  show ?thesis
    using assms(2,3) e decrypt_encrypt_payload(1) [OF assms(1) e]
    by (simp add: aes_round_trip_def generate_session_key_def test_simps)
qed

lemma aes_tests_pass:
  assumes "aead_ok L"
  shows "passes (test_round_trip L) w" and "passes (test_round_trip_large L) w"
    and "passes (test_round_trip_empty L) w"
proof -
  obtain key w0 where k: "urandom AES_KEY_SIZE w = (Inr key, w0)" by (simp add: urandom_def)
  obtain p w1 where p: "urandom (1024 * 1024) w0 = (Inr p, w1)" by (simp add: urandom_def)
  show "passes (test_round_trip L) w" "passes (test_round_trip_empty L) w"
    unfolding test_round_trip_def test_round_trip_empty_def
    by (rule aes_round_trip_passes [OF assms ret_apply k])+
  show "passes (test_round_trip_large L) w"
    unfolding test_round_trip_large_def by (rule aes_round_trip_passes [where draw = "urandom (1024 * 1024)", OF assms p k])
qed

lemma known_key_test_passes:
  assumes "aead_ok L"
  shows "passes (test_encrypt_decrypt_known L) w"
  using aead_okD(1) [OF assms]
  by (simp add: test_encrypt_decrypt_known_def encrypt_payload_def decrypt_payload_def urandom_def
      of_option_def AES_KEY_SIZE_def test_simps Let_def)

text \<open>A key of five bytes is refused before anything is drawn or deciphered, with any library.\<close>

lemma bad_key_length_passes: "passes (test_bad_key_length L) w"
  by (simp add: test_bad_key_length_def encrypt_payload_def decrypt_payload_def key_length_error_def urandom_def
      AES_KEY_SIZE_def GCM_NONCE_SIZE_def test_simps is_subclass.simps)

lemma hmac_and_hkdf_tests_pass:
  "passes test_valid_hmac w" "passes (test_deterministic L) w"
  "hkdf_ok L \<Longrightarrow> passes (test_key_lengths L) w"
  by (simp_all add: test_valid_hmac_def test_deterministic_def test_key_lengths_def urandom_def HMAC_DIGEST_SIZE_def
      HMAC_KEY_SIZE_def test_simps Let_def split: prod.split)
    (use derive_keys_length [of L] in \<open>auto simp: HMAC_KEY_SIZE_def\<close>)

text \<open>A frame of up to a few megabytes goes through the loopback connection, in any segments.\<close>

lemma small_frame_sent:
  assumes "length sid = SESSION_ID_SIZE" and "length p \<le> 2000000" and "send_faults w = []"
    and "case ek of None \<Rightarrow> True | Some k \<Rightarrow> aead_ok L \<and> length k = AES_KEY_SIZE"
  shows "\<exists>w'. send_frame L t sid p ek mk w = (Inr (), w')"
proof (cases ek)
  case None
  then show ?thesis using assms
    by (simp add: send_frame_def andThen_def ret_def Let_def sendall_def wire_simps)
next
  case (Some k)
  let ?n = "map (rnd w) [rnd_pos w ..< rnd_pos w + GCM_NONCE_SIZE]"
  have "length (aesgcm_encrypt L k ?n p) = length p + 16"
    by (rule aead_okD(2)) (use assms(4) Some in simp_all)
  then show ?thesis using assms Some
    by (simp add: send_frame_def andThen_def encrypt_payload_eq Let_def sendall_def wire_simps)
qed

lemma small_frame_received:
  assumes "loopback net" and "sent w = []" and "length sid = SESSION_ID_SIZE" and "length p \<le> 2000000"
    and "send_faults w = []"
    and ek: "case ek of None \<Rightarrow> True | Some k \<Rightarrow> aead_ok L \<and> length k = AES_KEY_SIZE"
  shows "\<exists>w1 w2. send_frame L t sid p ek mk w = (Inr (), w1) \<and>
    recv_frame L ek mk (w1\<lparr>inq := net (sent w1), sent := []\<rparr>) = (Inr (t, sid, p), w2)"
proof -
  obtain w1 where s: "send_frame L t sid p ek mk w = (Inr (), w1)" using small_frame_sent [OF assms(3-6)] by blast
  have "ek = None \<or> aead_ok L" using ek by (cases ek) simp_all
  from send_frame_carries [OF this s] obtain f where f: "carries L ek mk (t, sid, p) f" "sent w1 = sent w @ f" by blast
  have "arriving (inq (w1\<lparr>inq := net (sent w1), sent := []\<rparr>)) = f @ []"
    using assms(1,2) f(2) by (simp add: loopback_def)
  from carries_received [OF f(1) this] s show ?thesis by metis
qed

lemma urandom_drawn:
  obtains bs w' where "urandom n w = (Inr bs, w')" and "length bs = n" and "sent w' = sent w"
    and "send_faults w' = send_faults w"
  by (simp add: urandom_def)

lemma cleartext_test_passes:
  assumes "loopback net" and "sent w = []" and "send_faults w = []"
  shows "passes (test_cleartext_round_trip L net) w"
proof -
  obtain sid w0 where w0: "urandom SESSION_ID_SIZE w = (Inr sid, w0)" "length sid = SESSION_ID_SIZE"
    "sent w0 = sent w" "send_faults w0 = send_faults w" by (rule urandom_drawn)
  have "\<exists>w1 w2. send_frame L HANDSHAKE_CLIENT_HELLO sid (ascii_bytes (u ''hello handshake'')) None None w0 = (Inr (), w1) \<and>
      recv_frame L None None (w1\<lparr>inq := net (sent w1), sent := []\<rparr>)
        = (Inr (HANDSHAKE_CLIENT_HELLO, sid, ascii_bytes (u ''hello handshake'')), w2)"
    by (rule small_frame_received) (use assms w0 in \<open>simp_all add: ascii_bytes_def\<close>)
  with w0(1) show ?thesis
    by (auto simp: test_cleartext_round_trip_def frame_round_trip_def other_end_def test_simps)
qed

text \<open>The two tests under derived keys, from the draws they share.\<close>

lemma session_drawn:
  assumes "hkdf_ok L"
  obtains ms w0 ek mk sid w1 where "urandom 32 w = (Inr ms, w0)" and "derive_keys L ms None derive_keys_info = (ek, mk)"
    and "length ek = AES_KEY_SIZE" and "urandom SESSION_ID_SIZE w0 = (Inr sid, w1)" and "length sid = SESSION_ID_SIZE"
    and "sent w1 = sent w" and "send_faults w1 = send_faults w"
proof -
  obtain ms w0 where 0: "urandom 32 w = (Inr ms, w0)" "sent w0 = sent w" "send_faults w0 = send_faults w"
    by (rule urandom_drawn)
  obtain sid w1 where 1: "urandom SESSION_ID_SIZE w0 = (Inr sid, w1)" "length sid = SESSION_ID_SIZE"
    "sent w1 = sent w0" "send_faults w1 = send_faults w0" by (rule urandom_drawn)
  obtain ek mk where k: "derive_keys L ms None derive_keys_info = (ek, mk)" by force
  show ?thesis by (rule that [OF 0(1) k derive_keys_length(1) [OF assms k] 1(1,2)]) (simp_all add: 0 1)
qed

lemma encrypted_test_passes:
  assumes "aead_ok L" and "hkdf_ok L" and "loopback net" and "sent w = []" and "send_faults w = []"
  shows "passes (test_encrypted_round_trip L net) w"
proof -
  let ?p = "ascii_bytes (u ''GET http://example.com HTTP/1.1'' @ [13, 10, 13, 10])"
  obtain ms w0 ek mk sid w1 where d: "urandom 32 w = (Inr ms, w0)" "derive_keys L ms None derive_keys_info = (ek, mk)"
    "length ek = AES_KEY_SIZE" "urandom SESSION_ID_SIZE w0 = (Inr sid, w1)" "length sid = SESSION_ID_SIZE"
    "sent w1 = sent w" "send_faults w1 = send_faults w"
    by (rule session_drawn [OF assms(2)])
  have "\<exists>w2 w3. send_frame L DATA_REQUEST sid ?p (Some ek) (Some mk) w1 = (Inr (), w2) \<and>
      recv_frame L (Some ek) (Some mk) (w2\<lparr>inq := net (sent w2), sent := []\<rparr>) = (Inr (DATA_REQUEST, sid, ?p), w3)"
    by (rule small_frame_received) (use assms d in \<open>simp_all add: ascii_bytes_def\<close>)
  with d show ?thesis
    by (auto simp: test_encrypted_round_trip_def frame_round_trip_def other_end_def test_simps)
qed

lemma large_payload_test_passes:
  assumes "aead_ok L" and "hkdf_ok L" and "loopback net" and "sent w = []" and "send_faults w = []"
  shows "passes (test_large_payload L net) w"
proof -
  obtain ms w0 ek mk sid w1 where d: "urandom 32 w = (Inr ms, w0)" "derive_keys L ms None derive_keys_info = (ek, mk)"
    "length ek = AES_KEY_SIZE" "urandom SESSION_ID_SIZE w0 = (Inr sid, w1)" "length sid = SESSION_ID_SIZE"
    "sent w1 = sent w" "send_faults w1 = send_faults w"
    by (rule session_drawn [OF assms(2)])
  obtain p w2 where p: "urandom (1024 * 1024) w1 = (Inr p, w2)" "length p = 1024 * 1024" "sent w2 = sent w1"
    "send_faults w2 = send_faults w1" by (rule urandom_drawn)
  have "\<exists>w3 w4. send_frame L DATA_RESPONSE sid p (Some ek) (Some mk) w2 = (Inr (), w3) \<and>
      recv_frame L (Some ek) (Some mk) (w3\<lparr>inq := net (sent w3), sent := []\<rparr>) = (Inr (DATA_RESPONSE, sid, p), w4)"
    by (rule small_frame_received) (use assms d p in simp_all)
  with d p(1) show ?thesis
    unfolding test_large_payload_def by (auto simp: other_end_def test_simps)
qed

text \<open>
  The tampered frame is detected if the header arrives in one segment, which the test relies on, and
  the HMAC of the changed body is another one.
\<close>

lemma read_body_exact: "recv_exact_loop n acc q = (Inr bs, q') \<Longrightarrow> read_body n acc q = Some (Inr bs, q')"
proof (induction n acc q rule: read_body.induct)
  case (1 n acc q)
  then show ?case
    by (auto simp: read_body.simps [of n acc] recv_exact_loop.simps [of n acc] split: if_splits prod.splits sum.splits)
qed

lemma tamper_test_passes:
  defines "body w \<equiv> [type_byte DATA_REQUEST] @ random_at w 0 SESSION_ID_SIZE @ replicate GCM_NONCE_SIZE 0
      @ ascii_bytes (u ''payload'')"
  assumes net: "loopback net" and w: "sent w = []" "send_faults w = []"
    and header: "\<And>bs. HEADER_SIZE \<le> length bs \<Longrightarrow> \<exists>q. recv_event HEADER_SIZE (net bs) = (Inr (take HEADER_SIZE bs), q) \<and>
      arriving q = drop HEADER_SIZE bs"
    and mac: "compute_hmac ((body w)[5 := xor (body w ! 5) 0xFF]) HANDSHAKE_HMAC_KEY \<noteq> compute_hmac (body w) HANDSHAKE_HMAC_KEY"
  shows "\<exists>w'. test_hmac_tamper_detected L net texts w = Some (Inr True, w')"
proof -
  let ?b = "body w" and ?m = "compute_hmac (body w) HANDSHAKE_HMAC_KEY"
  let ?b' = "?b[5 := xor (?b ! 5) 0xFF]" and ?f = "frame_bytes ?b ?m"
  have len: "length ?b = 36" by (simp add: body_def wire_simps ascii_bytes_def random_at_def)
  let ?w0 = "w\<lparr>rnd_pos := rnd_pos w + SESSION_ID_SIZE\<rparr>"
  have send: "send_frame L DATA_REQUEST (random_at w 0 SESSION_ID_SIZE) (ascii_bytes (u ''payload'')) None None ?w0
      = (Inr (), ?w0\<lparr>sent := ?f\<rparr>)"
    using w len by (simp add: send_frame_def andThen_def ret_def Let_def sendall_def body_def random_at_def
        effective_mac_key_def wire_simps)
  have hd: "be_value (take HEADER_SIZE ?f) = 68" "drop HEADER_SIZE ?f = ?b @ ?m"
    using frame_bytes_header [of ?b ?m "[]"] len by (simp_all add: wire_simps)
  obtain q where q: "recv_event HEADER_SIZE (net ?f) = (Inr (take HEADER_SIZE ?f), q)" "arriving q = ?b @ ?m"
    using header [of ?f] hd(2) by (auto simp: wire_simps)
  obtain q' where "recv_exact_loop 68 [] q = (Inr (?b @ ?m), q')"
    using recv_exact_loop_enough [of "[]" 68 q] q(2) len by auto
  then have rb: "read_body 68 [] q = Some (Inr (?b @ ?m), q')" by (rule read_body_exact)
  have changed: "(?b @ ?m)[5 := xor ((?b @ ?m) ! 5) 0xFF] = ?b' @ ?m"
    using len by (simp add: list_update_append nth_append)
  have whole: "take HEADER_SIZE ?f @ ?b' @ ?m = frame_bytes ?b' ?m"
    using len by (simp add: frame_bytes_def)
  let ?v = "w\<lparr>rnd_pos := rnd_pos w + SESSION_ID_SIZE, sent := [], inq := net (frame_bytes ?b' ?m)\<rparr>"
  have "fst (recv_frame L None None ?v) = Inl hmac_error"
    by (rule bad_mac_refused [where body = ?b' and mac = ?m and rest = "[]"])
      (use net mac len in \<open>simp_all add: loopback_def wire_simps effective_mac_key_def\<close>)
  then obtain v' where "recv_frame L None None ?v = (Inl hmac_error, v')" by (metis prod.collapse)
  then have "raises_saying texts ValueErrorC (u ''HMAC'') (recv_frame L None None) ?v = (Inr True, v')"
    by (simp add: raises_saying_def hmac_error_def is_subclass.simps u_Cons)
  moreover have "min 72 HEADER_SIZE = HEADER_SIZE" by (simp add: HEADER_SIZE_def)
  ultimately show ?thesis
    using send q rb changed whole len hd(1)
    by (simp add: test_hmac_tamper_detected_def andThen_def urandom_def other_end_def recv_def random_at_def Let_def)
qed

text \<open>The key files are writable and readable in the tests' directory.\<close>

lemma new_pair_eq:
  "new_pair L K (FS, w) =
    (Inr (draw_key K DEFAULT_PUBLIC_EXPONENT DEFAULT_KEY_SIZE (drawn FS),
          public_key L (draw_key K DEFAULT_PUBLIC_EXPONENT DEFAULT_KEY_SIZE (drawn FS))),
     (FS\<lparr>drawn := Suc (drawn FS)\<rparr>, w))"
  by (simp add: new_pair_def on_files_def generate_rsa_keypair_def Let_def)

lemma signature_tests_pass:
  assumes "pss_ok L"
  shows "passes (test_sign_verify L K) (FS, w)"
  using verify_sign_data [OF assms]
  by (simp add: test_sign_verify_def new_pair_eq test_simps sign_data_def next_salt_def Let_def)

lemma save_and_sign_passes:
  assumes "pss_ok L" and "pem_ok K" and "passphrase \<noteq> Some []" and "\<not> denied FS path"
  shows "passes (save_and_sign L K path passphrase data) (FS, w)"
proof -
  let ?k = "draw_key K DEFAULT_PUBLIC_EXPONENT DEFAULT_KEY_SIZE (drawn FS)"
  obtain FS' where s: "save_private_key K ?k path passphrase (FS\<lparr>drawn := Suc (drawn FS)\<rparr>) = (Inr (), FS')"
    using assms(4) by (simp add: save_private_key_def write_bytes_def)
  show ?thesis
    using verify_sign_data [OF assms(1)] saved_private_loads [OF assms(2,3) s] s
    by (simp add: save_and_sign_def new_pair_eq test_simps sign_data_def next_salt_def)
qed

lemma key_file_tests_pass:
  assumes "pss_ok L" and "pem_ok K" and "\<not> denied FS path"
  shows "passes (test_save_load_private L K path) (FS, w)" and "passes (test_encrypted_private_key L K path) (FS, w)"
    and "passes (test_save_load_public L K path) (FS, w)"
proof -
  show "passes (test_save_load_private L K path) (FS, w)" "passes (test_encrypted_private_key L K path) (FS, w)"
    unfolding test_save_load_private_def test_encrypted_private_key_def
    by (rule save_and_sign_passes; simp add: assms ascii_bytes_def u_Cons)+
  show "passes (test_save_load_public L K path) (FS, w)"
    using verify_sign_data [OF assms(1)] assms(2,3)
    by (simp add: test_save_load_public_def new_pair_eq test_simps sign_data_def next_salt_def save_public_key_def
        load_public_key_def write_bytes_def read_bytes_def pem_ok_def)
qed

text \<open>The two sides of the handshake test: any connection that carries each side's bytes to the other.\<close>

lemma handshake_test_passes:
  assumes "connected cw (client_handshake L (draw_key K DEFAULT_PUBLIC_EXPONENT DEFAULT_KEY_SIZE (Suc (drawn FS)))
        (public_key L (draw_key K DEFAULT_PUBLIC_EXPONENT DEFAULT_KEY_SIZE (drawn FS))))
      sw (server_handshake L (draw_key K DEFAULT_PUBLIC_EXPONENT DEFAULT_KEY_SIZE (drawn FS))
        (public_key L (draw_key K DEFAULT_PUBLIC_EXPONENT DEFAULT_KEY_SIZE (Suc (drawn FS)))))"
    and "clocks_agree cw sw" and "rsa_ok L" and "pss_ok L" and "oaep_ok L" and "hkdf_ok L"
  shows "passes (test_successful_handshake L K cw sw) (FS, w)"
  using ends_agree [OF assms]
  by (auto simp: test_successful_handshake_def new_pair_eq test_simps run_handshake_def)

text \<open>
  With a wrong key on either side the side that holds it refuses the handshake, if the signatures of
  one key do not verify under another.
\<close>

lemma other_server_key_refused:
  assumes net: "connected cw (client_handshake L csk wrong) sw (server_handshake L ssk cpk)"
    and clocks: "clocks_agree cw sw" and lib: "rsa_ok L"
    and other: "\<And>m salt. \<not> verify_signature L m (pss_sign L ssk salt m) wrong"
  shows "\<exists>e. fst (client_handshake L csk wrong cw) = Inl e"
proof -
  let ?nc = "random_at cw 0 16" and ?ns = "random_at sw 0 16" and ?ts = "clock sw (Suc (clock_pos sw))"
  let ?c = "compute_hmac (?nc @ ?ns) CHALLENGE_HMAC_KEY" and ?s = "pss_sign L ssk (salt_pos sw) (?nc @ ?ns)"
  have s0: "sent cw = []" "sent sw = []" "send_faults cw = []" "send_faults sw = []"
    and ends: "arriving (inq cw) = sent (snd (server_handshake L ssk cpk sw))"
      "arriving (inq sw) = sent (snd (client_handshake L csk wrong cw))"
    using net by (simp_all add: connected_def)
  obtain b1 where "sent (snd (client_handshake L csk wrong cw)) = sent cw @ ch_frame cw @ b1"
    by (rule client_sends_hello [OF s0(3) clocks_agreeD(1) [OF clocks]])
  then have "arriving (inq sw) = ch_frame cw @ b1" using ends s0 by simp
  then obtain b2 where "sent (snd (server_handshake L ssk cpk sw)) = sent sw @ sh_frame L ssk ?nc sw @ b2"
    by (rule server_sends_hello [OF _ s0(4) clocks lib])
  then have hello: "arriving (inq cw) = clear_frame HANDSHAKE_SERVER_HELLO (server_hello ?ns ?ts ?c ?s) @ b2"
    using ends s0 by (simp add: sh_frame_def Let_def)
  have ts: "clock_ok ?ts" "stale (clock cw (Suc (clock_pos cw))) (JFloat ?ts) = Inr False"
    by (simp_all add: clocks_agreeD [OF clocks])
  have "length (server_hello ?ns ?ts ?c ?s) \<le> 100000"
    using length_payloads(2) [OF ts(1), of ?ns ?c ?s] rsa_okD(1) [OF lib, of ssk "salt_pos sw" "?nc @ ?ns"] by simp
  then have "carries L None None (HANDSHAKE_SERVER_HELLO, NULL_SID, server_hello ?ns ?ts ?c ?s)
      (clear_frame HANDSHAKE_SERVER_HELLO (server_hello ?ns ?ts ?c ?s))"
    by (rule carries_clear_frame)
  from client_refuses [OF hello this decode_server_hello [OF ts(1)],
    where server_pk = wrong and nonce_s = ?ns and ts = "JFloat ?ts" and ch = ?c and sig = ?s and old = False and csk = csk]
  show ?thesis using ts other s0 by (auto simp: clocks_agreeD(1) [OF clocks])
qed

lemma other_client_key_refused:
  assumes net: "connected cw (client_handshake L csk (public_key L ssk)) sw (server_handshake L ssk wrong)"
    and clocks: "clocks_agree cw sw" and lib: "rsa_ok L" "pss_ok L"
    and other: "\<And>m salt. \<not> verify_signature L m (pss_sign L csk salt m) wrong"
  shows "\<exists>e. fst (server_handshake L ssk wrong sw) = Inl e"
proof -
  let ?nc = "random_at cw 0 16" and ?ns = "random_at sw 0 16"
  let ?c = "compute_hmac (?ns @ ?nc) CHALLENGE_HMAC_KEY" and ?s = "pss_sign L csk (salt_pos cw) (?ns @ ?nc)"
  have s0: "sent cw = []" "sent sw = []" "send_faults cw = []" "send_faults sw = []"
    and ends: "arriving (inq cw) = sent (snd (server_handshake L ssk wrong sw))"
      "arriving (inq sw) = sent (snd (client_handshake L csk (public_key L ssk) cw))"
    using net by (simp_all add: connected_def)
  obtain b1 where "sent (snd (client_handshake L csk (public_key L ssk) cw)) = sent cw @ ch_frame cw @ b1"
    by (rule client_sends_hello [OF s0(3) clocks_agreeD(1) [OF clocks]])
  then have "arriving (inq sw) = ch_frame cw @ b1" using ends s0 by simp
  then obtain b2 where "sent (snd (server_handshake L ssk wrong sw)) = sent sw @ sh_frame L ssk ?nc sw @ b2"
    by (rule server_sends_hello [OF _ s0(4) clocks lib(1)])
  then have "arriving (inq cw) = sh_frame L ssk ?nc sw @ b2" using ends s0 by simp
  then obtain v where "client_handshake L csk (public_key L ssk) cw = client_recv_server_done L csk v"
    "sent v = sent cw @ ch_frame cw @ cr_frame L csk ?ns cw"
    by (rule client_answer [OF _ s0(3) clocks lib])
  then have answer: "arriving (inq sw)
      = ch_frame cw @ clear_frame HANDSHAKE_CLIENT_RESPONSE (client_response ?c ?s) @ []"
    using ends s0 by (simp add: recv_server_done_keeps_sent cr_frame_def Let_def)
  have "length (client_response ?c ?s) \<le> 100000"
    using length_payloads(3) [of ?c ?s] rsa_okD(1) [OF lib(1), of csk "salt_pos cw" "?ns @ ?nc"] by simp
  then have "carries L None None (HANDSHAKE_CLIENT_RESPONSE, NULL_SID, client_response ?c ?s)
      (clear_frame HANDSHAKE_CLIENT_RESPONSE (client_response ?c ?s))"
    by (rule carries_clear_frame)
  from server_refuses [OF answer this decode_client_response,
    where client_pk = wrong and answer = ?c and sig = ?s and ssk = ssk]
  show ?thesis using other s0 clocks lib(1) by auto
qed

lemma wrong_key_tests_pass:
  fixes K :: "('sk, 'pk) key_lib" and FS
  defines "key n \<equiv> draw_key K DEFAULT_PUBLIC_EXPONENT DEFAULT_KEY_SIZE (n + drawn FS)"
  assumes "clocks_agree cw sw" and "rsa_ok L" and "pss_ok L"
    and other: "\<And>n m salt. n < 2 \<Longrightarrow> \<not> verify_signature L m (pss_sign L (key n) salt m) (public_key L (key 2))"
  shows "connected cw (client_handshake L (key 1) (public_key L (key 2))) sw (server_handshake L (key 0) (public_key L (key 1)))
      \<Longrightarrow> passes (test_wrong_server_key_fails L K cw sw) (FS, w)"
    and "connected cw (client_handshake L (key 1) (public_key L (key 0))) sw (server_handshake L (key 0) (public_key L (key 2)))
      \<Longrightarrow> passes (test_wrong_client_key_fails L K cw sw) (FS, w)"
proof -
  note defs = new_pair_eq test_simps run_handshake_def
  show "passes (test_wrong_server_key_fails L K cw sw) (FS, w)"
    if "connected cw (client_handshake L (key 1) (public_key L (key 2))) sw (server_handshake L (key 0) (public_key L (key 1)))"
    using other_server_key_refused [OF that assms(2,3) other] by (auto simp: test_wrong_server_key_fails_def key_def defs)
  show "passes (test_wrong_client_key_fails L K cw sw) (FS, w)"
    if "connected cw (client_handshake L (key 1) (public_key L (key 0))) sw (server_handshake L (key 0) (public_key L (key 2)))"
    using other_client_key_refused [OF that assms(2-4) other] by (auto simp: test_wrong_client_key_fails_def key_def defs)
qed

subsection \<open>The tests that rest on chance\<close>

text \<open>
  Three tests draw two keys or nonces and expect them to differ: when the random source repeats itself they
  fail, with any library that decrypts what it has encrypted.
\<close>

lemma repeated_draws_fail:
  assumes "aead_ok L" and "rnd w = (\<lambda>_. b)"
  shows "\<not> passes (test_wrong_key_fails L) w" and "\<not> passes (test_wrong_nonce_fails L) w"
    and "\<not> passes test_wrong_hmac_key_fails w"
proof -
  have draw: "urandom n v = (Inr (replicate n b), v\<lparr>rnd_pos := rnd_pos v + n\<rparr>)" if "rnd v = (\<lambda>_. b)" for n and v :: world
    using that by (simp add: urandom_def map_replicate_const)
  note tests = test_wrong_key_fails_def test_wrong_nonce_fails_def test_wrong_hmac_key_fails_def
    generate_session_key_def encrypt_payload_def decrypt_payload_def of_option_def
  show "\<not> passes (test_wrong_key_fails L) w" "\<not> passes (test_wrong_nonce_fails L) w" "\<not> passes test_wrong_hmac_key_fails w"
    using aead_okD(1) [OF assms(1)] assms(2) by (simp_all add: tests draw test_simps)
qed

end
