(* ===== verification/Spec2Isabelle.thy ===== *)
theory Spec2Isabelle
  imports Proxy_Runs Server_Runs Start_Up Demo_Run Legacy_Main Hash_Vectors Unit_Tests
begin

text \<open>
  A verification library for the custom TCP VPN of this repository.

  \<^bold>\<open>The program.\<close>  A browser talks to a local proxy (\<open>client/client_proxy.py\<close>).  The proxy packs each
  request into JSON and gives it to a tunnel client (\<open>client/tunnel_client.py\<close>), which keeps one
  authenticated TCP connection to the server, made by a challenge-response handshake
  (\<open>auth/handshake.py\<close>, \<open>auth/signatures.py\<close>) and used in encrypted, authenticated frames
  (\<open>crypto/protocol.py\<close>, \<open>crypto/crypto_utils.py\<close>).  The server (\<open>server/server_main.py\<close>) has a thread
  per client: whitelist (\<open>server/access_control.py\<close>), connection caps and token buckets
  (\<open>server/rate_limit.py\<close>), handshake, then a loop that forwards each request to the web or relays
  its bytes (\<open>server/forwarder.py\<close>).  An older pair, \<open>client/client.py\<close> and \<open>server/server.py\<close>, does
  the same for single pages under one shared Fernet key.

  \<^bold>\<open>How the code is modelled.\<close>  A stateful function is a computation \<open>('s, 'a) io\<close>: a function from the
  state to a result or a Python exception, and the new state; \<open>andThen\<close>, \<open>raise\<close> and \<open>try_except\<close> are
  sequencing, \<open>raise\<close> and \<open>try\<close>.  Exceptions carry their class in the Python hierarchy, so that an
  \<open>except\<close> clause catches what it catches in the code.  A socket is the list of what its \<open>recv\<close> will
  meet (segments of any size, silences, a reset, the end) and of the faults its \<open>sendall\<close> will
  meet; both are arbitrary in the theorems.  So are random bytes, clocks, the answers of web
  servers and the outcomes of dialling.  Bytes are 8-bit words, text is a list of code points,
  Python's integers are \<open>int\<close>, seconds are rationals, time stamps in JSON are decimal floats with
  NaN and infinities.

  \<^bold>\<open>The theories\<close>, in the order they build on each other:
  \<^item> \<open>Prelude\<close>: exceptions, computations, the locales \<open>codec\<close> and \<open>codec_chain\<close> of wire formats.
  \<^item> \<open>Transitions\<close>: the locales of step relations: \<open>run_system\<close> (runs and invariants),
    \<open>run_refinement\<close> (one system simulates another), \<open>machine\<close> (a thread that steps by a function has one
    end) and \<open>call_sequence\<close> (a list of calls of one operation).  Interpreted on the limiter, the server's
    threads, the proxy's threads and the tunnel, each in its own theory.
  \<^item> \<open>Py_Text\<close>, \<open>Py_Str\<close>, \<open>Py_Json\<close>, \<open>Py_Json_Facts\<close>, \<open>Py_Json_Roundtrip\<close>, \<open>Sha256\<close>: the parts of
    the standard library the program rests on: UTF-8 with its three error policies, hex, the
    methods of \<open>str\<close>, \<open>json\<close> with its parser, SHA-256 and HMAC bit by bit.  Lemmas: round trips,
    progress and fuel of the parser.
  \<^item> \<open>Network\<close>: sockets; the byte stream behind the segments (\<open>arriving\<close>, \<open>stream_end\<close>).
  \<^item> \<open>Crypto_Utils\<close>, \<open>Protocol\<close>, \<open>Frame_Link\<close>: \<open>crypto/\<close>.  \<open>carries\<close> is the abstract frame format;
    the locale \<open>frame_link\<close> is the contract of a sender and a receiver, from which in-order
    delivery is proved once; \<open>send_frame\<close> and \<open>recv_frame\<close> are its interpretation.
  \<^item> \<open>Handshake\<close>, \<open>Handshake_Facts\<close>, \<open>Handshake_Run\<close>: \<open>auth/\<close>, call by call.  Inversion lemmas say
    what a side that returns has checked, run lemmas what two honest sides do.
  \<^item> \<open>Admission\<close>, \<open>Rate_Limit\<close>: the locale \<open>admission\<close> is the contract of a limiter that opens and
    closes sessions; \<open>RateLimiter\<close> is its interpretation \<open>lim\<close>.
  \<^item> \<open>Ip_Address\<close>, \<open>Access_Control\<close>: the \<open>ipaddress\<close> module for IPv4 and IPv6, and the whitelist.
  \<^item> \<open>Forwarder\<close>, \<open>Canonical\<close>, \<open>Relay\<close>: \<open>server/forwarder.py\<close> with its table of CONNECT sessions;
    the JSON formats of both sides; what relaying and forwarding do.
  \<^item> \<open>Server_Main\<close>, \<open>Server_Props\<close>, \<open>Server_Config\<close>: \<open>server/server_main.py\<close>: one thread from accept
    to close, the step relation \<open>server_step\<close> of the limiter's use by any number of threads, and the
    configuration.
  \<^item> \<open>Server_Threads\<close>: \<open>handle_client\<close> and \<open>forward_request\<close> in steps, one for each use of a lock, a
    target's socket (each \<open>recv\<close> of its own) or the clock (\<open>client_step\<close>, \<open>fw_next\<close>), and all threads interleaved
    (\<open>hub_step\<close>).  As a check of the cut, the steps of a thread that runs alone add up to \<open>handle_client\<close> (lemma
    \<open>client_alone\<close>); the interleavings refine \<open>server_step\<close> (interpretation \<open>hub_refines_limiter\<close>).
  \<^item> \<open>Tunnel_Client\<close>, \<open>Tunnel_Props\<close>: \<open>client/tunnel_client.py\<close> with reconnections and retries.
  \<^item> \<open>Tunnel_Refine\<close>: client and server together implement direct calls of the forwarder.
  \<^item> \<open>Server_Runs\<close>: whole runs of the server's threads.  \<open>thread_invariant\<close> ties what a thread holds to what
    happened on its own connection since it was accepted (\<open>in_session\<close>, \<open>received\<close>); \<open>thread_left\<close> is a
    lexicographic measure that each step of a thread decreases and no step of another increases.
  \<^item> \<open>Client_Proxy\<close>, \<open>Proxy_Props\<close>: \<open>client/client_proxy.py\<close>, one browser connection.
  \<^item> \<open>End_To_End\<close>: all parts together, from the browser to the web and back.
  \<^item> \<open>Proxy_Threads\<close>: \<open>start_proxy\<close> with all its browsers.  A thread gives the tunnel's lock back
    between an attempt, the reconnection and the next attempt; \<open>proxy_step\<close> interleaves the threads
    there, the steps of a thread alone add up to \<open>handle_browser\<close> (lemma \<open>thread_alone\<close>), and interleaved
    requests are the requests in lock order (\<open>runs_linear\<close>).
  \<^item> \<open>Proxy_Runs\<close>: whole runs of the proxy's threads; \<open>steps_left\<close> bounds what a thread can still do.
  \<^item> \<open>Legacy\<close>, \<open>Legacy_Props\<close>, \<open>Legacy_Main\<close>: the older pair, with its accept loops, and
    \<open>client/testing_connection.py\<close>.
  \<^item> \<open>Key_Files\<close>: \<open>auth/key_manager.py\<close> and \<open>scripts/generate_keys.py\<close> over a file system; the keys both
    programs load belong together.
  \<^item> \<open>Arg_Parse\<close>, \<open>Command_Line\<close>: \<open>argparse\<close> of CPython 3.11 for options with one value (joined or apart,
    abbreviations, negative numbers, \<open>--\<close>, types, choices, help), and the parsers of the three
    programs that have one.  Rendered options parse back (\<open>parse_rendered\<close>), from which follows what each
    program runs with, option by option.
  \<^item> \<open>Start_Up\<close>: \<open>main\<close> of both programs and \<open>start_server\<close>, from their command lines: configuration,
    key files, whitelist, bind, first connection, the proxy's listening socket.
  \<^item> \<open>Unit_Tests\<close>: the tests of \<open>auth/test_auth.py\<close> and \<open>crypto/test_crypto.py\<close> as computations.  Those that
    ask nothing of the strength of the cryptography pass with every library that keeps its laws; the
    two handshakes with a wrong key fail if signatures of one key do not verify under another.
    \<open>Hash_Vectors\<close>: a known answer for the model of SHA-256.
  \<^item> \<open>Tamper_Demo\<close>, \<open>Demos\<close>, \<open>Demo_Run\<close>: \<open>scripts/tamper_demo.py\<close>, \<open>scripts/load_test.py\<close> and
    \<open>scripts/demo_run.py\<close>, with the lines they print and, for the last, the operations on the
    processes it starts.

  \<^bold>\<open>What the properties show.\<close>  Sessions: the tunnel answers every sequence of requests as direct
  calls would, and a page of the web reaches the browser through all parts of the program; browsers
  that share the tunnel get their own pages under every interleaving; two honest ends agree on
  keys, also from key generation and the command lines of both programs; an end that returns from the
  handshake has verified its peer; impostors, stale hellos and tampered, truncated or oversized frames are
  refused with the code's exceptions.  Resources: per address at most burst + rate * t requests
  pass in a window of length t; under every interleaving of threads the caps hold and the books
  are right; every thread gives back what it took, and every thread that keeps being scheduled ends, on the
  server and on the proxy.  Forwarding: nothing is forwarded for a
  client that is not admitted and authenticated, and under any interleaving a forwarded request is one that
  came on the thread's own connection, under the keys of the handshake on it; which call reaches the web, with
  which headers, is stated exactly; relays and
  replies are complete and in order.  Requests end after a bounded number of attempts.
  What the command lines of the three programs set is stated option by option.  And
  some properties state what the code does where it does less than it means to: a NaN time
  stamp is always fresh, the session key is not authenticated, a second CONNECT takes over the
  first, a relay that ends can remove the session of another thread, a lost reply repeats the request, a late reply goes to another browser, a proxy header in another
  spelling is forwarded.  Lemmas outside the list of properties show more of this
  kind: bytes after the first segment of a request are dropped, bytes to a slow browser are lost, a browser is told that a connection stands before it
  does, an invalid whitelist admits everyone, the demonstration run can leave its server running.

  \<^bold>\<open>Termination and fuel.\<close>  Receive loops terminate because each round takes something off the
  stream; \<open>serve_loop\<close>, \<open>relay_browser\<close>, \<open>relay_read\<close> and \<open>legacy_loop\<close> likewise, so no fuel is used there and
  every theorem about them is about total functions.  The JSON parser has fuel, twice the
  length of the text plus one, which is proved never to be used up.

  \<^bold>\<open>Parameters.\<close>  \<open>crypto_lib\<close> is the \<open>cryptography\<close> package (AES-GCM, HKDF, RSA-PSS, RSA-OAEP) with the
  hypotheses \<open>aead_ok\<close>, \<open>hkdf_ok\<close>, \<open>pss_ok\<close>, \<open>oaep_ok\<close>, \<open>rsa_ok\<close>: decryption inverts encryption,
  verification accepts signatures, lengths are as documented; \<open>model_lib\<close> satisfies them.  Nothing
  is assumed about their security: authentication properties say what has been verified.  \<open>fernet\<close>
  is the Fernet class, \<open>key_lib\<close> the package's key generator and PEM format.  The \<open>requests\<close> package is the function \<open>fw_http\<close> (and \<open>web\<close>).  The texts of
  exceptions raised inside libraries are \<open>lib_text\<close>, \<open>exc_str\<close>, \<open>web_text\<close> and \<open>sk_text\<close>.  What
  \<open>getattr(logging, name)\<close> gives for a name that is no level is \<open>other\<close>.

  \<^bold>\<open>Simplifications.\<close>  Case mapping and \<open>int()\<close> of strings are those of ASCII.  Floats of the limiter are
  rationals, so that its arithmetic is exact; JSON floats are decimals, without rounding.  The
  interpreter's limits on recursion depth and number length in \<open>json\<close> are not modelled.  Operations under a lock are atomic, and so
  is one \<open>requests\<close> call.  \<open>KeyboardInterrupt\<close> occurs only in the accept loops
  (\<open>stop_proxy\<close>, \<open>Interrupted\<close>).  Standard output takes UTF-8, and text files (the configuration, the
  whitelist) are read as UTF-8, as they are where that is the locale's encoding.  \<open>check_rate\<close> is one atomic
  step: the lock of the bucket is taken after that of the limiter is given back, and buckets are never removed.

  \<^bold>\<open>Not modelled.\<close>  Logging, and printing outside the scripts; creating directories; the usage
  and error texts of the argument parsers; delays before a poll; and the package
  files, which hold re-exports and docstrings.
\<close>

end
